(* ===== verification/IM_Prelude.thy ===== *)
theory IM_Prelude
  imports Main "HOL-Library.AList" "HOL-Library.Multiset" "HOL-Library.Word"
    "HOL-Library.Char_ord" "HOL-Library.List_Lexorder"
begin

text \<open>
  Shared vocabulary of the development: Go maps with string keys as association lists, the
  choices the Go runtime makes during a call (clock readings, map iteration order), 64-bit
  signed arithmetic, and the generic lemmas the component theories rewrite with.
\<close>

named_theorems gomap_simps "lookup, update and key-set facts of Go maps"
named_theorems inv_intros "preservation of a component's well-formedness invariant"
named_theorems op_defs "unfolding of the model's operations"

section \<open>Go maps\<close>

text \<open>
  A Go \<open>map[string]V\<close> is an association list with distinct keys: \<open>map_of m k\<close> is the
  two-valued lookup \<open>v, ok := m[k]\<close>, \<open>gput\<close> the assignment \<open>m[k] = v\<close>, \<open>gdel\<close>
  the builtin \<open>delete\<close>. \<open>gmod\<close> is the assignment through a pointer found in the map
  (\<open>if e, ok := m[k]; ok { e.f = ... }\<close>).
\<close>

type_synonym 'v gomap = "(string \<times> 'v) list"

abbreviation gput :: "string \<Rightarrow> 'v \<Rightarrow> 'v gomap \<Rightarrow> 'v gomap" where
  "gput k v m \<equiv> AList.update k v m"

abbreviation gdel :: "string \<Rightarrow> 'v gomap \<Rightarrow> 'v gomap" where
  "gdel k m \<equiv> AList.delete k m"

abbreviation gkeys :: "'v gomap \<Rightarrow> string list" where
  "gkeys m \<equiv> map fst m"

definition gmod :: "string \<Rightarrow> ('v \<Rightarrow> 'v) \<Rightarrow> 'v gomap \<Rightarrow> 'v gomap" where
  "gmod k f m = (case map_of m k of None \<Rightarrow> m | Some v \<Rightarrow> gput k (f v) m)"

lemma map_of_gput [simp, gomap_simps]: "map_of (gput k v m) = (map_of m)(k \<mapsto> v)"
  by (rule update_conv')

lemma map_of_gdel [simp, gomap_simps]: "map_of (gdel k m) = (map_of m)(k := None)"
  by (rule delete_conv')

lemma map_of_gmod [simp, gomap_simps]:
  "map_of (gmod k f m) = (map_of m)(k := map_option f (map_of m k))"
  by (auto simp: gmod_def fun_eq_iff split: option.splits)

lemma distinct_gkeys_gput [simp, intro]:
  "distinct (gkeys m) \<Longrightarrow> distinct (gkeys (gput k v m))"
  by (rule distinct_update)

lemma distinct_gkeys_gdel [simp, intro]:
  "distinct (gkeys m) \<Longrightarrow> distinct (gkeys (gdel k m))"
  by (rule distinct_delete)

lemma distinct_gkeys_gmod [simp, intro]:
  "distinct (gkeys m) \<Longrightarrow> distinct (gkeys (gmod k f m))"
  by (simp add: gmod_def split: option.split)

lemma set_gkeys [gomap_simps]: "set (gkeys m) = dom (map_of m)"
  by (simp add: dom_map_of_conv_image_fst)

lemma in_gkeys_iff: "k \<in> set (gkeys m) \<longleftrightarrow> map_of m k \<noteq> None"
  by (simp add: set_gkeys dom_def del: set_map)

lemma gkeys_gmod [simp]: "gkeys (gmod k f m) = gkeys m"
proof (cases "map_of m k")
  case None
  then show ?thesis by (simp add: gmod_def)
next
  case (Some v)
  then have "k \<in> set (gkeys m)" by (simp add: in_gkeys_iff del: set_map)
  with Some show ?thesis by (simp add: gmod_def update_keys)
qed

lemma gput_fresh_append: "map_of m k = None \<Longrightarrow> gput k v m = m @ [(k, v)]"
  by (induction m) (auto split: if_splits)

section \<open>What the runtime decides during a call\<close>

text \<open>
  A call reads the wall clock (\<open>clk i\<close>, in nanoseconds since the epoch, is the \<open>i\<close>-th
  reading the call takes) and iterates over Go maps in an order the runtime chooses
  (\<open>rng ks\<close> is the order in which the keys \<open>ks\<close> are visited). Nothing is assumed of
  the clock unless a theorem says so; an iteration visits every key once.
\<close>

record rt =
  clk :: "nat \<Rightarrow> int"
  rng :: "string list \<Rightarrow> string list"

definition range_ok :: "rt \<Rightarrow> bool" where
  "range_ok r \<longleftrightarrow> (\<forall>ks. mset (rng r ks) = mset ks)"

lemma range_ok_set [simp]: "range_ok r \<Longrightarrow> set (rng r ks) = set ks"
  by (metis mset_eq_setD range_ok_def)

lemma range_ok_distinct [simp]: "range_ok r \<Longrightarrow> distinct (rng r ks) = distinct ks"
  by (metis mset_eq_imp_distinct_iff range_ok_def)

lemma range_ok_length [simp]: "range_ok r \<Longrightarrow> length (rng r ks) = length ks"
  by (metis mset_eq_length range_ok_def)

abbreviation second :: int where "second \<equiv> 1000000000"

text \<open>\<open>Time.Unix\<close>: whole seconds, rounded down, of an instant in nanoseconds.\<close>

definition unix :: "int \<Rightarrow> int" where
  "unix t = t div second"

lemma unix_mono: "t \<le> u \<Longrightarrow> unix t \<le> unix u"
  by (simp add: unix_def zdiv_mono1)

section \<open>Signed 64-bit integers\<close>

text \<open>
  A Go \<open>int64\<close> (and \<open>time.Duration\<close>) is an \<open>int\<close> in its range; \<open>i64\<close> wraps the
  exact result of an operation into that range.
\<close>

definition i64 :: "int \<Rightarrow> int" where
  "i64 x = (x + 2 ^ 63) mod 2 ^ 64 - 2 ^ 63"

lemma i64_range: "- (2 ^ 63) \<le> i64 x \<and> i64 x < 2 ^ 63"
proof -
  have "0 \<le> (x + 2 ^ 63) mod 2 ^ 64" and "(x + 2 ^ 63) mod 2 ^ 64 < (2::int) ^ 64"
    by simp_all
  then show ?thesis by (simp add: i64_def)
qed

lemma i64_exact: "- (2 ^ 63) \<le> x \<Longrightarrow> x < 2 ^ 63 \<Longrightarrow> i64 x = x"
  by (simp add: i64_def)

section \<open>Lists and options\<close>

lemma filter_set_eqI: "(\<And>x. x \<in> set xs \<Longrightarrow> P x \<longleftrightarrow> Q x) \<Longrightarrow> filter P xs = filter Q xs"
  by (rule filter_cong) auto

lemma set_take_le: "x \<in> set (take n xs) \<Longrightarrow> x \<in> set xs"
  by (rule in_set_takeD)

text \<open>The Go idiom \<open>if limit > 0 && len(out) > limit { out = out[:limit] }\<close>.\<close>

definition limit_to :: "int \<Rightarrow> 'a list \<Rightarrow> 'a list" where
  "limit_to n xs = (if 0 < n \<and> n < int (length xs) then take (nat n) xs else xs)"

lemma set_limit_to: "set (limit_to n xs) \<subseteq> set xs"
  by (auto simp: limit_to_def dest: in_set_takeD)

lemma limit_to_unbounded [simp]: "n \<le> 0 \<Longrightarrow> limit_to n xs = xs"
  by (simp add: limit_to_def)

lemma length_limit_to: "0 < n \<Longrightarrow> int (length (limit_to n xs)) \<le> n"
  by (simp add: limit_to_def)

lemma limit_to_eq_take: "0 < n \<Longrightarrow> limit_to n xs = take (nat n) xs"
  by (simp add: limit_to_def)

lemma distinct_limit_to [simp]: "distinct xs \<Longrightarrow> distinct (limit_to n xs)"
  by (simp add: limit_to_def)

end
