(* ===== verification/Go_Strings.thy ===== *)
theory Go_Strings
  imports IM_Prelude
begin

text \<open>
  The part of Go's \<open>strings\<close>, \<open>strconv\<close> and \<open>fmt\<close> packages the server uses, on Go
  strings as byte sequences (a \<open>char\<close> is a byte): trimming, splitting, prefixes, joining and
  decimal numbers.
\<close>

section \<open>White space\<close>

text \<open>
  \<open>strings.TrimSpace\<close> removes the code points of \<open>unicode.IsSpace\<close> at both ends. Their
  UTF-8 encodings are the byte sequences below; since UTF-8 is self-synchronising, a string
  starts (ends) with such a code point exactly when it has its encoding as prefix (suffix).
\<close>

definition space_encodings :: "string list" where
  "space_encodings =
     [[CHR 0x09], [CHR 0x0A], [CHR 0x0B], [CHR 0x0C], [CHR 0x0D], [CHR 0x20],
      [CHR 0xC2, CHR 0x85], [CHR 0xC2, CHR 0xA0], [CHR 0xE1, CHR 0x9A, CHR 0x80],
      [CHR 0xE2, CHR 0x80, CHR 0x80], [CHR 0xE2, CHR 0x80, CHR 0x81],
      [CHR 0xE2, CHR 0x80, CHR 0x82], [CHR 0xE2, CHR 0x80, CHR 0x83],
      [CHR 0xE2, CHR 0x80, CHR 0x84], [CHR 0xE2, CHR 0x80, CHR 0x85],
      [CHR 0xE2, CHR 0x80, CHR 0x86], [CHR 0xE2, CHR 0x80, CHR 0x87],
      [CHR 0xE2, CHR 0x80, CHR 0x88], [CHR 0xE2, CHR 0x80, CHR 0x89],
      [CHR 0xE2, CHR 0x80, CHR 0x8A], [CHR 0xE2, CHR 0x80, CHR 0xA8],
      [CHR 0xE2, CHR 0x80, CHR 0xA9], [CHR 0xE2, CHR 0x80, CHR 0xAF],
      [CHR 0xE2, CHR 0x81, CHR 0x9F], [CHR 0xE3, CHR 0x80, CHR 0x80]]"

text \<open>\<open>HasPrefix\<close>: \<open>strings.HasPrefix(s, p)\<close>.\<close>

definition HasPrefix :: "string \<Rightarrow> string \<Rightarrow> bool" where
  "HasPrefix s p \<longleftrightarrow> take (length p) s = p"

text \<open>The length of a leading member of \<open>ps\<close>, if there is one.\<close>

fun lead :: "string list \<Rightarrow> string \<Rightarrow> nat" where
  "lead [] s = 0"
| "lead (p # ps) s = (if p \<noteq> [] \<and> HasPrefix s p then length p else lead ps s)"

function strip :: "string list \<Rightarrow> string \<Rightarrow> string" where
  "strip ps s = (if lead ps s = 0 \<or> s = [] then s else strip ps (drop (lead ps s) s))"
  by pat_completeness auto
termination
  by (relation "measure (\<lambda>(ps, s). length s)") auto

declare strip.simps [simp del]

definition TrimLeft :: "string \<Rightarrow> string" where
  "TrimLeft s = strip space_encodings s"

definition TrimRight :: "string \<Rightarrow> string" where
  "TrimRight s = rev (strip (map rev space_encodings) (rev s))"

definition TrimSpace :: "string \<Rightarrow> string" where
  "TrimSpace s = TrimRight (TrimLeft s)"

lemma lead_le: "lead ps s \<le> length s"
  by (induction ps) (auto simp: HasPrefix_def dest: arg_cong [where f = length])

lemma strip_stop: "lead ps s = 0 \<Longrightarrow> strip ps s = s"
  by (subst strip.simps) simp

lemma strip_Nil [simp]: "strip ps [] = []"
  by (subst strip.simps) simp

lemma lead_Nil [simp]: "lead ps [] = 0"
  by (induction ps) (auto simp: HasPrefix_def)

lemma lead_strip [simp]: "lead ps (strip ps s) = 0"
proof (induction ps s rule: strip.induct)
  case (1 ps s)
  show ?case
  proof (cases "lead ps s = 0 \<or> s = []")
    case True
    then show ?thesis by (subst strip.simps) auto
  next
    case False
    with "1" have "lead ps (strip ps (drop (lead ps s) s)) = 0" by blast
    with False show ?thesis by (simp add: strip.simps [of ps s])
  qed
qed

lemma strip_idem [simp]: "strip ps (strip ps s) = strip ps s"
  by (simp add: strip_stop)

lemma strip_suffix: "\<exists>t. s = t @ strip ps s"
proof (induction ps s rule: strip.induct)
  case (1 ps s)
  show ?case
  proof (cases "lead ps s = 0 \<or> s = []")
    case True
    then show ?thesis by (subst strip.simps) auto
  next
    case False
    with "1" obtain t where t: "drop (lead ps s) s = t @ strip ps (drop (lead ps s) s)" by blast
    have "s = take (lead ps s) s @ drop (lead ps s) s" by simp
    also have "\<dots> = (take (lead ps s) s @ t) @ strip ps s"
      using False t by (simp add: strip.simps [of ps s])
    finally show ?thesis by blast
  qed
qed

lemma TrimSpace_Nil [simp]: "TrimSpace [] = []"
  by (simp add: TrimSpace_def TrimLeft_def TrimRight_def)

text \<open>Cutting bytes off the end leaves a string that does not start with a space.\<close>

lemma HasPrefix_append: "HasPrefix s p \<Longrightarrow> HasPrefix (s @ t) p"
  by (auto simp: HasPrefix_def dest: arg_cong [where f = length])

lemma lead_append_zero: "lead ps (s @ t) = 0 \<Longrightarrow> lead ps s = 0"
  by (induction ps) (auto simp: HasPrefix_append split: if_splits)

lemma TrimRight_prefix: "\<exists>t. s = TrimRight s @ t"
proof -
  obtain t where "rev s = t @ strip (map rev space_encodings) (rev s)" using strip_suffix by blast
  then have "rev (rev s) = TrimRight s @ rev t" by (metis TrimRight_def rev_append)
  then show ?thesis by auto
qed

lemma TrimLeft_TrimSpace: "TrimLeft (TrimSpace s) = TrimSpace s"
proof -
  obtain t where "TrimLeft s = TrimRight (TrimLeft s) @ t" using TrimRight_prefix by blast
  then have "lead space_encodings (TrimSpace s @ t) = 0"
    by (metis TrimLeft_def TrimSpace_def lead_strip)
  then show ?thesis by (simp add: TrimLeft_def strip_stop lead_append_zero)
qed

lemma TrimSpace_idem [simp]: "TrimSpace (TrimSpace s) = TrimSpace s"
proof -
  have "TrimSpace (TrimSpace s) = TrimRight (TrimSpace s)"
    by (metis TrimLeft_TrimSpace TrimSpace_def)
  also have "\<dots> = TrimSpace s" by (simp add: TrimSpace_def TrimRight_def)
  finally show ?thesis .
qed

lemma TrimSpace_infix: "\<exists>a b. s = a @ TrimSpace s @ b"
  by (metis TrimLeft_def TrimRight_prefix TrimSpace_def append_assoc strip_suffix)

section \<open>Splitting and searching\<close>

fun cut_at :: "char \<Rightarrow> string \<Rightarrow> string \<times> string option" where
  "cut_at c [] = ([], None)"
| "cut_at c (x # xs) =
     (if x = c then ([], Some xs) else (case cut_at c xs of (a, b) \<Rightarrow> (x # a, b)))"

text \<open>\<open>strings.SplitN(s, sep, n)\<close> for a one-byte separator and \<open>n \<ge> 0\<close>.\<close>

fun SplitN :: "char \<Rightarrow> nat \<Rightarrow> string \<Rightarrow> string list" where
  "SplitN c 0 s = []"
| "SplitN c (Suc n) s =
     (if n = 0 then [s]
      else case cut_at c s of (a, None) \<Rightarrow> [a] | (a, Some r) \<Rightarrow> a # SplitN c n r)"

text \<open>\<open>strings.Split(s, sep)\<close>: \<open>SplitN\<close> with one part more than there are separators.\<close>

definition Split :: "char \<Rightarrow> string \<Rightarrow> string list" where
  "Split c s = SplitN c (count_list s c + 1) s"

definition ContainsAny :: "string \<Rightarrow> string \<Rightarrow> bool" where
  "ContainsAny s cs \<longleftrightarrow> list_ex (\<lambda>c. c \<in> set cs) s"

lemma cut_at_absent: "c \<notin> set s \<Longrightarrow> cut_at c s = (s, None)"
  by (induction s) auto

lemma cut_at_append: "c \<notin> set a \<Longrightarrow> cut_at c (a @ c # r) = (a, Some r)"
  by (induction a) auto

lemma cut_at_None: "cut_at c s = (a, None) \<longleftrightarrow> a = s \<and> c \<notin> set s"
proof (cases "c \<in> set s")
  case True
  then obtain b r where "s = b @ c # r" and "c \<notin> set b" by (meson split_list_first)
  then show ?thesis by (auto simp: cut_at_append)
qed (auto simp: cut_at_absent)

lemma cut_at_Some: "cut_at c s = (a, Some r) \<longleftrightarrow> s = a @ c # r \<and> c \<notin> set a"
proof (cases "c \<in> set s")
  case True
  then obtain b q where s: "s = b @ c # q" "c \<notin> set b" by (meson split_list_first)
  then have "cut_at c s = (b, Some q)" by (simp add: cut_at_append)
  with s show ?thesis by (auto simp: cut_at_append dest: arg_cong [where f = "cut_at c"])
qed (auto simp: cut_at_absent)

lemma length_SplitN: "length (SplitN c n s) \<le> n"
  by (induction c n s rule: SplitN.induct) (auto split: prod.splits option.splits)

lemma SplitN_two: "c \<notin> set a \<Longrightarrow> SplitN c 2 (a @ c # r) = [a, r]"
  by (simp add: numeral_2_eq_2 cut_at_append)

lemma SplitN_three:
  "c \<notin> set a \<Longrightarrow> c \<notin> set b \<Longrightarrow> SplitN c 3 (a @ c # b @ c # r) = [a, b, r]"
  by (simp add: numeral_3_eq_3 cut_at_append)

text \<open>Joining what \<open>SplitN\<close> returned gives the string back.\<close>

fun join :: "string \<Rightarrow> string list \<Rightarrow> string" where
  "join sep [] = []"
| "join sep [x] = x"
| "join sep (x # y # zs) = x @ sep @ join sep (y # zs)"

lemma SplitN_ne: "SplitN c (Suc n) s \<noteq> []"
  by (auto split: prod.splits option.splits)

lemma join_Cons: "xs \<noteq> [] \<Longrightarrow> join sep (x # xs) = x @ sep @ join sep xs"
  by (cases xs) auto

lemma join_SplitN: "0 < n \<Longrightarrow> join [c] (SplitN c n s) = s"
proof (induction c n s rule: SplitN.induct)
  case (2 c n s)
  show ?case
  proof (cases n)
    case 0
    then show ?thesis by simp
  next
    case (Suc k)
    obtain a b where ab: "cut_at c s = (a, b)" by (cases "cut_at c s")
    show ?thesis
    proof (cases b)
      case None
      with ab have "SplitN c (Suc n) s = [a]" and "a = s"
        using Suc by (auto simp: cut_at_None cut_at_absent)
      then show ?thesis by simp
    next
      case (Some r)
      with ab have s: "s = a @ c # r" by (simp add: cut_at_Some)
      have "SplitN c (Suc n) s = a # SplitN c n r" using ab Some Suc by simp
      moreover have "join [c] (SplitN c n r) = r"
        by (rule "2.IH") (use ab Some Suc in auto)
      moreover have "SplitN c n r \<noteq> []" using SplitN_ne Suc by blast
      ultimately show ?thesis using s by (simp add: join_Cons)
    qed
  qed
qed simp

text \<open>The end of a line read by \<open>bufio\<close>: one carriage return before the newline is dropped.\<close>

definition drop_cr :: "string \<Rightarrow> string" where
  "drop_cr s = (if s \<noteq> [] \<and> last s = CHR 0x0D then butlast s else s)"

section \<open>Decimal numbers\<close>

definition digit :: "nat \<Rightarrow> char" where
  "digit d = char_of (48 + d)"

fun itoa :: "nat \<Rightarrow> string" where
  "itoa n = (if n < 10 then [digit n] else itoa (n div 10) @ [digit (n mod 10)])"

declare itoa.simps [simp del]

text \<open>\<open>fmt.Sprintf("%d", x)\<close> of a signed integer.\<close>

definition itoa_int :: "int \<Rightarrow> string" where
  "itoa_int x = (if x < 0 then CHR ''-'' # itoa (nat (- x)) else itoa (nat x))"

definition digit_val :: "char \<Rightarrow> nat" where
  "digit_val c = of_char c - 48"

definition decimal :: "string \<Rightarrow> nat" where
  "decimal s = foldl (\<lambda>n c. 10 * n + digit_val c) 0 s"

lemma digit_val_digit [simp]: "d < 10 \<Longrightarrow> digit_val (digit d) = d"
  by (simp add: digit_val_def digit_def)

lemma decimal_itoa [simp]: "decimal (itoa n) = n"
proof (induction n rule: itoa.induct)
  case (1 n)
  show ?case
  proof (cases "n < 10")
    case True
    then show ?thesis by (simp add: itoa.simps [of n] decimal_def)
  next
    case False
    with "1" have "decimal (itoa (n div 10)) = n div 10" by simp
    with False show ?thesis by (simp add: itoa.simps [of n] decimal_def)
  qed
qed

lemma itoa_inj [simp]: "itoa m = itoa n \<longleftrightarrow> m = n"
  by (metis decimal_itoa)

lemma digit_not_dash: "d < 10 \<Longrightarrow> digit d \<noteq> CHR ''-''"
proof
  assume "d < 10" and "digit d = CHR ''-''"
  then have "(of_char (digit d) :: nat) = 45" by simp
  with \<open>d < 10\<close> show False by (simp add: digit_def)
qed

lemma dash_notin_itoa [simp]: "CHR ''-'' \<notin> set (itoa n)"
proof (induction n rule: itoa.induct)
  case (1 n)
  then show ?case
    by (cases "n < 10") (auto simp: itoa.simps [of n] digit_not_dash [symmetric])
qed

lemma itoa_ne [simp]: "itoa n \<noteq> []"
  by (subst itoa.simps) simp

end
