(* ===== verification/Go_Json.thy ===== *)
theory Go_Json
  imports Go_Strings
begin

text \<open>
  The part of \<open>unicode/utf8\<close> and \<open>encoding/json\<close> the program uses: UTF-8 validity, and the
  JSON form of a list of strings, which is how recipient and message-id lists are kept in
  Redis. \<open>json.Marshal\<close> escapes control characters, quotes, backslashes, the HTML characters
  and the two line separators, and replaces bytes that are not UTF-8; \<open>json.Unmarshal\<close> into
  a \<open>[]string\<close> fails (\<open>None\<close>) on anything but an array of strings or nulls, or null.
\<close>

section \<open>UTF-8\<close>

abbreviation byte :: "char \<Rightarrow> nat" where "byte \<equiv> of_char"

definition between :: "char \<Rightarrow> nat \<Rightarrow> nat \<Rightarrow> bool" where
  "between c lo hi \<longleftrightarrow> lo \<le> byte c \<and> byte c \<le> hi"

text \<open>The width a lead byte announces, 0 for a byte that starts no code point (RFC 3629).\<close>

definition width :: "char \<Rightarrow> nat" where
  "width a =
     (if byte a < 0x80 then 1
      else if between a 0xC2 0xDF then 2
      else if between a 0xE0 0xEF then 3
      else if between a 0xF0 0xF4 then 4
      else 0)"

text \<open>
  The continuation bytes: the first one excludes overlong forms, surrogates and code points
  beyond the last plane.
\<close>

definition tail_ok :: "char \<Rightarrow> string \<Rightarrow> bool" where
  "tail_ok a bs \<longleftrightarrow> list_all (\<lambda>c. between c 0x80 0xBF) bs \<and>
     (case bs of
        [] \<Rightarrow> True
      | b # _ \<Rightarrow>
          between b (if byte a = 0xE0 then 0xA0 else if byte a = 0xF0 then 0x90 else 0x80)
            (if byte a = 0xED then 0x9F else if byte a = 0xF4 then 0x8F else 0xBF))"

text \<open>
  The width of the well-formed code point a byte string starts with, 0 when it is empty or
  does not start with one (as in \<open>utf8.DecodeRune\<close>).
\<close>

fun rune_len :: "string \<Rightarrow> nat" where
  "rune_len [] = 0"
| "rune_len (a # s) =
     (if width a \<le> length (a # s) \<and> tail_ok a (take (width a - 1) s) then width a else 0)"

lemma rune_len_le: "rune_len s \<le> length s"
  by (cases s) auto

lemma rune_len_append: "rune_len s \<noteq> 0 \<Longrightarrow> rune_len (s @ t) = rune_len s"
  by (cases s) (auto split: if_splits)

lemma rune_len_take: "rune_len s \<noteq> 0 \<Longrightarrow> rune_len (take (rune_len s) s @ t) = rune_len s"
  by (cases s) (auto simp: take_Cons' min_def split: if_splits)

lemma rune_len_ascii [simp]: "byte a < 0x80 \<Longrightarrow> rune_len (a # s) = 1"
  by (simp add: width_def tail_ok_def)

declare rune_len.simps(2) [simp del]

text \<open>\<open>utf8.Valid\<close>.\<close>

function utf8_valid :: "string \<Rightarrow> bool" where
  "utf8_valid s =
     (if s = [] then True else if rune_len s = 0 then False else utf8_valid (drop (rune_len s) s))"
  by pat_completeness auto
termination
  by (relation "measure length") auto

declare utf8_valid.simps [simp del]

lemma utf8_valid_Nil [simp]: "utf8_valid []"
  by (subst utf8_valid.simps) simp

lemma utf8_valid_step:
  "utf8_valid s \<Longrightarrow> s \<noteq> [] \<Longrightarrow> rune_len s \<noteq> 0 \<and> utf8_valid (drop (rune_len s) s)"
  by (metis utf8_valid.simps)

text \<open>A string of ASCII bytes is valid.\<close>

lemma utf8_valid_ascii: "list_all (\<lambda>c. byte c < 128) s \<Longrightarrow> utf8_valid s"
proof (induction s)
  case (Cons a s)
  then show ?case by (subst utf8_valid.simps) simp
qed simp

section \<open>Encoding a string\<close>

definition hexdigit :: "nat \<Rightarrow> char" where
  "hexdigit n = (if n < 10 then char_of (48 + n) else char_of (87 + n))"

definition unhex :: "char \<Rightarrow> nat option" where
  "unhex c =
     (if between c 48 57 then Some (byte c - 48)
      else if between c 97 102 then Some (byte c - 87)
      else if between c 65 70 then Some (byte c - 55)
      else None)"

definition u_escape :: "nat \<Rightarrow> string" where
  "u_escape n =
     CHR 0x5C # CHR ''u'' # map (\<lambda>k. hexdigit (n div 16 ^ k mod 16)) [3, 2, 1, 0]"

definition html_safe :: "char \<Rightarrow> bool" where
  "html_safe c \<longleftrightarrow> 32 \<le> byte c \<and> c \<noteq> CHR 0x22 \<and> c \<noteq> CHR 0x5C \<and>
     c \<noteq> CHR ''<'' \<and> c \<noteq> CHR ''>'' \<and> c \<noteq> CHR ''&''"

definition esc_ascii :: "char \<Rightarrow> string" where
  "esc_ascii c =
     (if html_safe c then [c]
      else if c = CHR 0x22 \<or> c = CHR 0x5C then [CHR 0x5C, c]
      else if c = CHR 0x08 then [CHR 0x5C, CHR ''b'']
      else if c = CHR 0x0C then [CHR 0x5C, CHR ''f'']
      else if c = CHR 0x0A then [CHR 0x5C, CHR ''n'']
      else if c = CHR 0x0D then [CHR 0x5C, CHR ''r'']
      else if c = CHR 0x09 then [CHR 0x5C, CHR ''t'']
      else u_escape (byte c))"

definition esc_rune :: "string \<Rightarrow> string" where
  "esc_rune ru =
     (if ru = [CHR 0xE2, CHR 0x80, CHR 0xA8] then u_escape 0x2028
      else if ru = [CHR 0xE2, CHR 0x80, CHR 0xA9] then u_escape 0x2029
      else ru)"

function enc_chars :: "string \<Rightarrow> string" where
  "enc_chars [] = []"
| "enc_chars (c # s) =
     (if byte c < 0x80 then esc_ascii c @ enc_chars s
      else if rune_len (c # s) = 0 then u_escape 0xFFFD @ enc_chars s
      else esc_rune (take (rune_len (c # s)) (c # s)) @ enc_chars (drop (rune_len (c # s)) (c # s)))"
  by pat_completeness auto
termination
  by (relation "measure length") auto

declare enc_chars.simps(2) [simp del]

definition enc_string :: "string \<Rightarrow> string" where
  "enc_string s = CHR 0x22 # enc_chars s @ [CHR 0x22]"

section \<open>Decoding a string\<close>

text \<open>The UTF-8 encoding of a code point (\<open>utf8.AppendRune\<close>).\<close>

definition utf8_enc :: "nat \<Rightarrow> string" where
  "utf8_enc n =
     (if n < 0x80 then [char_of n]
      else if n < 0x800 then [char_of (0xC0 + n div 64), char_of (0x80 + n mod 64)]
      else if 0xD800 \<le> n \<and> n \<le> 0xDFFF \<or> n > 0x10FFFF
        then [CHR 0xEF, CHR 0xBF, CHR 0xBD]
      else if n < 0x10000
        then [char_of (0xE0 + n div 4096), char_of (0x80 + n div 64 mod 64),
              char_of (0x80 + n mod 64)]
      else [char_of (0xF0 + n div 262144), char_of (0x80 + n div 4096 mod 64),
            char_of (0x80 + n div 64 mod 64), char_of (0x80 + n mod 64)])"

text \<open>Four hexadecimal digits at the head of a string.\<close>

fun hex4 :: "string \<Rightarrow> (nat \<times> string) option" where
  "hex4 (a # b # c # d # s) =
     (case (unhex a, unhex b, unhex c, unhex d) of
        (Some i, Some j, Some k, Some l) \<Rightarrow> Some (((i * 16 + j) * 16 + k) * 16 + l, s)
      | _ \<Rightarrow> None)"
| "hex4 _ = None"

definition surrogate_pair :: "nat \<Rightarrow> string \<Rightarrow> (nat \<times> string) option" where
  "surrogate_pair hi s =
     (if \<not> (0xD800 \<le> hi \<and> hi < 0xDC00) then None
      else case s of
        a # b # s' \<Rightarrow>
          if a = CHR 0x5C \<and> b = CHR ''u'' then
            (case hex4 s' of
               Some (lo, s'') \<Rightarrow>
                 if 0xDC00 \<le> lo \<and> lo \<le> 0xDFFF
                 then Some ((hi - 0xD800) * 1024 + (lo - 0xDC00) + 0x10000, s'') else None
             | None \<Rightarrow> None)
          else None
      | _ \<Rightarrow> None)"

text \<open>What follows a backslash.\<close>

fun dec_escape :: "string \<Rightarrow> (string \<times> string) option" where
  "dec_escape [] = None"
| "dec_escape (e # s) =
     (if e = CHR 0x22 \<or> e = CHR 0x5C \<or> e = CHR ''/'' then Some ([e], s)
      else if e = CHR ''b'' then Some ([CHR 0x08], s)
      else if e = CHR ''f'' then Some ([CHR 0x0C], s)
      else if e = CHR ''n'' then Some ([CHR 0x0A], s)
      else if e = CHR ''r'' then Some ([CHR 0x0D], s)
      else if e = CHR ''t'' then Some ([CHR 0x09], s)
      else if e = CHR ''u'' then
        (case hex4 s of
           None \<Rightarrow> None
         | Some (n, s') \<Rightarrow>
             (case surrogate_pair n s' of
                Some (m, s'') \<Rightarrow> Some (utf8_enc m, s'')
              | None \<Rightarrow> Some (utf8_enc n, s')))
      else None)"

lemma hex4_shorter: "hex4 s = Some (n, s') \<Longrightarrow> length s' < length s"
  by (induction s rule: hex4.induct) (auto split: option.splits)

lemma surrogate_pair_shorter: "surrogate_pair n s = Some (m, s') \<Longrightarrow> length s' < length s"
  by (auto simp: surrogate_pair_def dest!: hex4_shorter split: if_splits list.splits option.splits)

lemma dec_escape_shorter: "dec_escape s = Some (r, s') \<Longrightarrow> length s' < length s"
  by (cases s) (auto dest!: hex4_shorter surrogate_pair_shorter split: if_splits option.splits)

text \<open>The contents of a string literal up to the closing quote, and what follows it.\<close>

function dec_chars :: "string \<Rightarrow> (string \<times> string) option" where
  "dec_chars [] = None"
| "dec_chars (c # s) =
     (if c = CHR 0x22 then Some ([], s)
      else if byte c < 32 then None
      else if c = CHR 0x5C then
        (case dec_escape s of
           None \<Rightarrow> None
         | Some (r, s') \<Rightarrow> map_option (apfst (append r)) (dec_chars s'))
      else if byte c < 0x80 then map_option (apfst (Cons c)) (dec_chars s)
      else if rune_len (c # s) = 0
        then map_option (apfst (append (utf8_enc 0xFFFD))) (dec_chars s)
      else map_option (apfst (append (take (rune_len (c # s)) (c # s))))
             (dec_chars (drop (rune_len (c # s)) (c # s))))"
  by pat_completeness auto
termination
proof (relation "measure length")
  fix c s a r s'
  assume "dec_escape s = Some a" and "(r, s') = a"
  then show "(s', c # s) \<in> measure length" using dec_escape_shorter [of s r s'] by auto
qed auto

declare dec_chars.simps(2) [simp del]

section \<open>Lists of strings\<close>

fun enc_items :: "string list \<Rightarrow> string" where
  "enc_items [] = ''''"
| "enc_items [x] = enc_string x"
| "enc_items (x # y # zs) = enc_string x @ '','' @ enc_items (y # zs)"

text \<open>
  \<open>json.Marshal\<close> of a \<open>[]string\<close>. Go writes \<open>null\<close> for a nil slice and \<open>[]\<close> for an empty one that is
  not nil; the model's lists do not tell them apart, and the definition writes the nil form for both. Of the
  four places that write a list only \<open>SaveMessageWithRecipients\<close> can write an empty one: plain text, JSON messages
  and system events that go to nobody give it a nil slice, a group without other members an empty one that is
  not nil. The two read back as the same empty list (\<open>unmarshal_empty\<close>), and the cache is read in no other way.
\<close>

definition marshal_strings :: "string list \<Rightarrow> string" where
  "marshal_strings xs = (if xs = [] then ''null'' else ''['' @ enc_items xs @ '']'')"

definition json_ws :: "char \<Rightarrow> bool" where
  "json_ws c \<longleftrightarrow> c = CHR 0x20 \<or> c = CHR 0x09 \<or> c = CHR 0x0A \<or> c = CHR 0x0D"

abbreviation skip_ws :: "string \<Rightarrow> string" where
  "skip_ws s \<equiv> dropWhile json_ws s"

text \<open>One array element: a string, or null (which leaves Go's empty string).\<close>

definition dec_item :: "string \<Rightarrow> (string \<times> string) option" where
  "dec_item s =
     (let t = skip_ws s in
      if HasPrefix t ''null'' then Some ([], drop 4 t)
      else case t of
        [] \<Rightarrow> None
      | c # t' \<Rightarrow> if c = CHR 0x22 then dec_chars t' else None)"

text \<open>Elements up to the closing bracket, with as much fuel as there are bytes.\<close>

fun dec_items :: "nat \<Rightarrow> string \<Rightarrow> (string list \<times> string) option" where
  "dec_items 0 s = None"
| "dec_items (Suc n) s =
     (case dec_item s of
        None \<Rightarrow> None
      | Some (x, s') \<Rightarrow>
          (case skip_ws s' of
             [] \<Rightarrow> None
           | c # t \<Rightarrow>
               if c = CHR '']'' then Some ([x], t)
               else if c = CHR '','' then map_option (apfst (Cons x)) (dec_items n t)
               else None))"

definition at_end :: "string list \<times> string \<Rightarrow> string list option" where
  "at_end p = (if skip_ws (snd p) = [] then Some (fst p) else None)"

definition unmarshal_strings :: "string \<Rightarrow> string list option" where
  "unmarshal_strings s =
     (let t = skip_ws s in
      if HasPrefix t ''null'' then at_end ([], drop 4 t)
      else case t of
        [] \<Rightarrow> None
      | c # t' \<Rightarrow>
          if c \<noteq> CHR ''['' then None
          else case skip_ws t' of
            [] \<Rightarrow> None
          | d # t'' \<Rightarrow>
              if d = CHR '']'' then at_end ([], t'')
              else Option.bind (dec_items (length s) t') at_end)"

section \<open>Round trip\<close>

lemma unhex_hexdigit: "k < 16 \<Longrightarrow> unhex (hexdigit k) = Some k"
  by (auto simp: hexdigit_def unhex_def between_def)

lemma base16:
  assumes "(n::nat) < 65536"
  shows "((n div 4096 mod 16 * 16 + n div 256 mod 16) * 16 + n div 16 mod 16) * 16 + n mod 16 = n"
proof -
  have "n div 4096 < 16" using assms by (simp add: less_mult_imp_div_less)
  then have "n div 4096 mod 16 = n div 256 div 16" by (simp add: div_mult2_eq [symmetric])
  then have "n div 4096 mod 16 * 16 + n div 256 mod 16 = n div 256" by simp
  moreover have "n div 256 = n div 16 div 16" by (simp add: div_mult2_eq [symmetric])
  ultimately show ?thesis by simp
qed

lemma hex4_u_escape:
  assumes "n < 65536"
  shows "hex4 (drop 2 (u_escape n) @ t) = Some (n, t)"
  using base16 [OF assms] assms by (simp add: u_escape_def unhex_hexdigit less_mult_imp_div_less)

lemma u_escape_split: "u_escape n = CHR 0x5C # CHR ''u'' # drop 2 (u_escape n)"
  by (simp add: u_escape_def)

text \<open>An escaped code point outside the surrogate range reads back as its UTF-8 form.\<close>

lemma dec_u_escape:
  "n < 0xD800 \<Longrightarrow> dec_chars (u_escape n @ t) = map_option (apfst (append (utf8_enc n))) (dec_chars t)"
proof -
  assume n: "n < 0xD800"
  then have "dec_escape (CHR ''u'' # drop 2 (u_escape n) @ t) = Some (utf8_enc n, t)"
    by (simp add: hex4_u_escape surrogate_pair_def)
  then show ?thesis by (subst u_escape_split) (simp add: dec_chars.simps(2))
qed

lemma utf8_enc_ascii: "byte c < 128 \<Longrightarrow> utf8_enc (byte c) = [c]"
  by (simp add: utf8_enc_def)

lemma apfst_append_single: "apfst (append [c]) = apfst (Cons c)"
  by (auto simp: fun_eq_iff)

lemma dec_esc_ascii:
  assumes "byte c < 128"
  shows "dec_chars (esc_ascii c @ t) = map_option (apfst (Cons c)) (dec_chars t)"
proof (cases "html_safe c")
  case True
  then have "\<not> byte c < 32" and "c \<noteq> CHR 0x22" and "c \<noteq> CHR 0x5C" by (auto simp: html_safe_def)
  with True assms show ?thesis by (simp add: esc_ascii_def dec_chars.simps(2))
next
  case False
  show ?thesis
  proof (cases "c \<in> {CHR 0x22, CHR 0x5C, CHR 0x08, CHR 0x0C, CHR 0x0A, CHR 0x0D, CHR 0x09}")
    case True
    with False show ?thesis
      by (auto simp: esc_ascii_def html_safe_def dec_chars.simps(2) apfst_append_single)
  next
    case other: False
    with False have "esc_ascii c = u_escape (byte c)" by (simp add: esc_ascii_def)
    with assms show ?thesis by (simp add: dec_u_escape utf8_enc_ascii apfst_append_single)
  qed
qed

lemma dec_esc_rune:
  assumes "rune_len s \<noteq> 0" and "\<not> byte (hd s) < 128"
  shows "dec_chars (esc_rune (take (rune_len s) s) @ t) =
    map_option (apfst (append (take (rune_len s) s))) (dec_chars t)"
proof -
  let ?ru = "take (rune_len s) s"
  consider "?ru = [CHR 0xE2, CHR 0x80, CHR 0xA8]" | "?ru = [CHR 0xE2, CHR 0x80, CHR 0xA9]"
    | "esc_rune ?ru = ?ru" by (metis esc_rune_def)
  then show ?thesis
  proof cases
    case 1
    moreover have "utf8_enc 0x2028 = [CHR 0xE2, CHR 0x80, CHR 0xA8]" by (simp add: utf8_enc_def char_of_eq_iff)
    ultimately show ?thesis by (simp add: esc_rune_def dec_u_escape)
  next
    case 2
    moreover have "utf8_enc 0x2029 = [CHR 0xE2, CHR 0x80, CHR 0xA9]" by (simp add: utf8_enc_def char_of_eq_iff)
    ultimately show ?thesis by (simp add: esc_rune_def dec_u_escape)
  next
    case 3
    obtain c s' where s: "s = c # s'" using assms(1) by (cases s) auto
    obtain ru' where ru: "?ru = c # ru'" using assms(1) s by (cases "rune_len s") auto
    have c: "\<not> byte c < 128" using assms(2) s by simp
    then have "c \<noteq> CHR 0x22" "c \<noteq> CHR 0x5C" "\<not> byte c < 32" by auto
    moreover have n: "rune_len (c # ru' @ t) = rune_len s"
      using rune_len_take [OF assms(1), of t] ru by simp
    moreover have "rune_len s = length (c # ru')"
      using ru rune_len_le [of s] by (metis length_take min.absorb2)
    ultimately show ?thesis using 3 ru c assms(1) by (simp add: dec_chars.simps(2))
  qed
qed

lemma dec_enc_chars: "utf8_valid s \<Longrightarrow> dec_chars (enc_chars s @ CHR 0x22 # t) = Some (s, t)"
proof (induction s rule: enc_chars.induct)
  case 1
  then show ?case by (simp add: dec_chars.simps(2))
next
  case (2 c s)
  then have v: "rune_len (c # s) \<noteq> 0" "utf8_valid (drop (rune_len (c # s)) (c # s))"
    using utf8_valid_step by blast+
  show ?case
  proof (cases "byte c < 0x80")
    case True
    with v "2.IH"(1) show ?thesis
      by (simp add: enc_chars.simps(2) dec_esc_ascii)
  next
    case False
    then have "dec_chars (enc_chars (drop (rune_len (c # s)) (c # s)) @ CHR 0x22 # t) =
      Some (drop (rune_len (c # s)) (c # s), t)" using v "2.IH"(3) by blast
    with False v show ?thesis
      by (simp add: enc_chars.simps(2) dec_esc_rune del: take_Cons' drop_Cons')
  qed
qed

lemma dec_item_enc:
  "utf8_valid x \<Longrightarrow> dec_item (enc_string x @ t) = Some (x, t)"
  by (simp add: dec_item_def enc_string_def Let_def json_ws_def HasPrefix_def dec_enc_chars)

lemma dec_items_enc:
  assumes "xs \<noteq> []" and "list_all utf8_valid xs" and "length xs \<le> n"
  shows "dec_items n (enc_items xs @ CHR '']'' # t) = Some (xs, t)"
  using assms
proof (induction xs arbitrary: n rule: enc_items.induct)
  case (2 x)
  then show ?case by (cases n) (auto simp: dec_item_enc json_ws_def)
next
  case (3 x y zs)
  then obtain m where "n = Suc m" by (cases n) auto
  with 3 show ?case by (auto simp: dec_item_enc json_ws_def)
qed simp

lemma length_enc_items: "length xs \<le> length (enc_items xs)"
  by (induction xs rule: enc_items.induct) (auto simp: enc_string_def)

lemma enc_items_head: "xs \<noteq> [] \<Longrightarrow> \<exists>s. enc_items xs = CHR 0x22 # s"
  by (cases xs rule: enc_items.cases) (auto simp: enc_string_def)

lemma unmarshal_empty: "unmarshal_strings ''null'' = Some []" "unmarshal_strings ''[]'' = Some []"
  by (simp_all add: unmarshal_strings_def Let_def json_ws_def HasPrefix_def at_end_def)

text \<open>
  The lists kept in Redis survive the trip through JSON: unmarshalling what
  \<open>json.Marshal\<close> wrote for a list of valid UTF-8 strings gives back the same list,
  whatever quotes, control characters, HTML characters or line separators the strings hold.
\<close>

theorem unmarshal_marshal_strings:
  assumes "list_all utf8_valid xs"
  shows "unmarshal_strings (marshal_strings xs) = Some xs"
proof (cases "xs = []")
  case True
  then show ?thesis
    by (simp add: marshal_strings_def unmarshal_strings_def Let_def json_ws_def HasPrefix_def at_end_def)
next
  case False
  obtain s where s: "enc_items xs = CHR 0x22 # s" using enc_items_head [OF False] by blast
  have "dec_items (Suc (Suc (length (enc_items xs)))) (enc_items xs @ '']'') = Some (xs, [])"
    using length_enc_items [of xs] by (intro dec_items_enc False assms) simp
  with False s show ?thesis
    by (simp add: marshal_strings_def unmarshal_strings_def Let_def json_ws_def HasPrefix_def at_end_def
        del: dec_items.simps)
qed

theorem unmarshal_marshal_strings_witness:
  "let xs = [''bob'', [CHR 0x22, CHR 0x5C, CHR 0x0A, CHR ''<'', CHR 0x01],
             [CHR 0xE2, CHR 0x80, CHR 0xA8, CHR 0xE4, CHR 0xBD, CHR 0xA0]] in
   list_all utf8_valid xs \<and> unmarshal_strings (marshal_strings xs) = Some xs"
proof -
  let ?xs = "[''bob'', [CHR 0x22, CHR 0x5C, CHR 0x0A, CHR ''<'', CHR 0x01],
             [CHR 0xE2, CHR 0x80, CHR 0xA8, CHR 0xE4, CHR 0xBD, CHR 0xA0]]"
  have "list_all utf8_valid ?xs" by code_simp
  with unmarshal_marshal_strings [of ?xs] show ?thesis unfolding Let_def by simp
qed

end
