(* ===== verification/Group_Manager.thy ===== *)
theory Group_Manager
  imports Go_Strings
begin

text \<open>
  The in-memory group manager (\<open>internal/server/group.go\<close>): groups with an owner and member
  roles, the nine operations of the \<open>GroupManagerAPI\<close> interface, each atomic under the
  manager's mutex. An operation returns its error (\<open>Inl\<close>) with the state unchanged, or the
  new state (\<open>Inr\<close>).
\<close>

section \<open>State\<close>

datatype GroupRole = GroupRoleMember | GroupRoleAdmin | GroupRoleOwner

primrec role_code :: "GroupRole \<Rightarrow> int" where
  "role_code GroupRoleMember = 0"
| "role_code GroupRoleAdmin = 1"
| "role_code GroupRoleOwner = 2"

lemma role_code_inj [simp]: "role_code a = role_code b \<longleftrightarrow> a = b"
  by (cases a; cases b) simp_all

text \<open>Go compares roles by their \<open>int8\<close> codes.\<close>

instantiation GroupRole :: linorder
begin

definition less_eq_GroupRole :: "GroupRole \<Rightarrow> GroupRole \<Rightarrow> bool" where
  "a \<le> b \<longleftrightarrow> role_code a \<le> role_code b"

definition less_GroupRole :: "GroupRole \<Rightarrow> GroupRole \<Rightarrow> bool" where
  "a < b \<longleftrightarrow> role_code a < role_code b"

instance
  by standard (auto simp: less_eq_GroupRole_def less_GroupRole_def)

end

lemmas role_order = less_eq_GroupRole_def less_GroupRole_def

record chat_group =
  g_ID :: string
  g_Owner :: string
  g_Members :: "GroupRole gomap"

type_synonym groups = "chat_group gomap"

datatype group_error =
  GroupIDOwnerEmpty | GroupIDOperatorEmpty | GroupIDUsernameEmpty
| GroupExists | GroupNotFound | OnlyOwnerDeletes | AlreadyMember
| OwnerCannotLeave | OperatorNotInGroup | InsufficientPermission
| TargetNotInGroup | CannotKickEqualOrHigher | OnlyOwnerGrants | OnlyOwnerRevokes

definition NewGroupManager :: groups where
  "NewGroupManager = []"

section \<open>Operations\<close>

definition Create :: "groups \<Rightarrow> string \<Rightarrow> string \<Rightarrow> group_error + groups" where
  "Create gm groupID owner =
     (let i = TrimSpace groupID; own = TrimSpace owner in
      if i = [] \<or> own = [] then Inl GroupIDOwnerEmpty
      else case map_of gm i of
        Some _ \<Rightarrow> Inl GroupExists
      | None \<Rightarrow>
          Inr (gput i \<lparr>g_ID = i, g_Owner = own, g_Members = [(own, GroupRoleOwner)]\<rparr> gm))"

definition Delete :: "groups \<Rightarrow> string \<Rightarrow> string \<Rightarrow> group_error + groups" where
  "Delete gm groupID operator =
     (let i = TrimSpace groupID; opr = TrimSpace operator in
      if i = [] \<or> opr = [] then Inl GroupIDOperatorEmpty
      else case map_of gm i of
        None \<Rightarrow> Inl GroupNotFound
      | Some g \<Rightarrow> if g_Owner g \<noteq> opr then Inl OnlyOwnerDeletes else Inr (gdel i gm))"

definition Join :: "groups \<Rightarrow> string \<Rightarrow> string \<Rightarrow> group_error + groups" where
  "Join gm groupID username =
     (let i = TrimSpace groupID; u = TrimSpace username in
      if i = [] \<or> u = [] then Inl GroupIDUsernameEmpty
      else case map_of gm i of
        None \<Rightarrow> Inl GroupNotFound
      | Some g \<Rightarrow>
          (case map_of (g_Members g) u of
             Some _ \<Rightarrow> Inl AlreadyMember
           | None \<Rightarrow> Inr (gput i (g\<lparr>g_Members := gput u GroupRoleMember (g_Members g)\<rparr>) gm)))"

definition Leave :: "groups \<Rightarrow> string \<Rightarrow> string \<Rightarrow> group_error + groups" where
  "Leave gm groupID username =
     (let i = TrimSpace groupID; u = TrimSpace username in
      if i = [] \<or> u = [] then Inl GroupIDUsernameEmpty
      else case map_of gm i of
        None \<Rightarrow> Inl GroupNotFound
      | Some g \<Rightarrow>
          if g_Owner g = u then Inl OwnerCannotLeave
          else Inr (gput i (g\<lparr>g_Members := gdel u (g_Members g)\<rparr>) gm))"

definition Kick :: "groups \<Rightarrow> string \<Rightarrow> string \<Rightarrow> string \<Rightarrow> group_error + groups" where
  "Kick gm groupID opr target =
     (let i = TrimSpace groupID in
      case map_of gm i of
        None \<Rightarrow> Inl GroupNotFound
      | Some g \<Rightarrow>
          (case map_of (g_Members g) opr of
             None \<Rightarrow> Inl OperatorNotInGroup
           | Some byRole \<Rightarrow>
               if byRole < GroupRoleAdmin then Inl InsufficientPermission
               else case map_of (g_Members g) target of
                 None \<Rightarrow> Inl TargetNotInGroup
               | Some targetRole \<Rightarrow>
                   if targetRole \<ge> byRole then Inl CannotKickEqualOrHigher
                   else Inr (gput i (g\<lparr>g_Members := gdel target (g_Members g)\<rparr>) gm)))"

definition GrantAdmin :: "groups \<Rightarrow> string \<Rightarrow> string \<Rightarrow> string \<Rightarrow> group_error + groups" where
  "GrantAdmin gm groupID opr target =
     (let i = TrimSpace groupID in
      case map_of gm i of
        None \<Rightarrow> Inl GroupNotFound
      | Some g \<Rightarrow>
          if g_Owner g \<noteq> opr then Inl OnlyOwnerGrants
          else case map_of (g_Members g) target of
            None \<Rightarrow> Inl TargetNotInGroup
          | Some _ \<Rightarrow>
              Inr (gput i (g\<lparr>g_Members := gput target GroupRoleAdmin (g_Members g)\<rparr>) gm))"

definition RevokeAdmin :: "groups \<Rightarrow> string \<Rightarrow> string \<Rightarrow> string \<Rightarrow> group_error + groups" where
  "RevokeAdmin gm groupID opr target =
     (let i = TrimSpace groupID in
      case map_of gm i of
        None \<Rightarrow> Inl GroupNotFound
      | Some g \<Rightarrow>
          if g_Owner g \<noteq> opr then Inl OnlyOwnerRevokes
          else case map_of (g_Members g) target of
            None \<Rightarrow> Inl TargetNotInGroup
          | Some _ \<Rightarrow>
              Inr (gput i (g\<lparr>g_Members := gput target GroupRoleMember (g_Members g)\<rparr>) gm))"

definition Members :: "rt \<Rightarrow> groups \<Rightarrow> string \<Rightarrow> string list" where
  "Members r gm groupID =
     (case map_of gm (TrimSpace groupID) of
        None \<Rightarrow> []
      | Some g \<Rightarrow> rng r (gkeys (g_Members g)))"

definition RoleOf :: "groups \<Rightarrow> string \<Rightarrow> string \<Rightarrow> string \<times> bool" where
  "RoleOf gm groupID username =
     (case map_of gm (TrimSpace groupID) of
        None \<Rightarrow> ([], False)
      | Some g \<Rightarrow>
          (case map_of (g_Members g) username of
             None \<Rightarrow> ([], False)
           | Some GroupRoleOwner \<Rightarrow> (''owner'', True)
           | Some GroupRoleAdmin \<Rightarrow> (''admin'', True)
           | Some GroupRoleMember \<Rightarrow> (''member'', True)))"

lemmas group_defs = Create_def Delete_def Join_def Leave_def Kick_def GrantAdmin_def
  RevokeAdmin_def Let_def

section \<open>The role view\<close>

text \<open>What a client of the interface observes: a user's role and a group's owner.\<close>

definition role :: "groups \<Rightarrow> string \<Rightarrow> string \<Rightarrow> GroupRole option" where
  "role gm i u = Option.bind (map_of gm i) (\<lambda>g. map_of (g_Members g) u)"

definition owner_of :: "groups \<Rightarrow> string \<Rightarrow> string option" where
  "owner_of gm i = map_option g_Owner (map_of gm i)"

lemmas view_defs = role_def owner_of_def

lemma role_gput_other [simp]: "j \<noteq> i \<Longrightarrow> role (gput i g gm) j = role gm j"
  by (simp add: role_def fun_eq_iff)

lemma RoleOf_iff_role: "snd (RoleOf gm groupID u) \<longleftrightarrow> role gm (TrimSpace groupID) u \<noteq> None"
  by (auto simp: RoleOf_def role_def split: option.splits GroupRole.splits)

lemma set_Members:
  "range_ok r \<Longrightarrow> set (Members r gm groupID) = {u. role gm (TrimSpace groupID) u \<noteq> None}"
  by (cases "map_of gm (TrimSpace groupID)")
    (auto simp: Members_def role_def in_gkeys_iff simp del: set_map)

text \<open>
  One lemma per operation: when it succeeds, and what it does to the view. These carry every
  later proof, which never unfolds an operation again.
\<close>

lemma Create_Inr_iff:
  "Create gm groupID owner = Inr gm' \<longleftrightarrow>
     TrimSpace groupID \<noteq> [] \<and> TrimSpace owner \<noteq> [] \<and> map_of gm (TrimSpace groupID) = None \<and>
     gm' = gput (TrimSpace groupID)
       \<lparr>g_ID = TrimSpace groupID, g_Owner = TrimSpace owner,
        g_Members = [(TrimSpace owner, GroupRoleOwner)]\<rparr> gm"
  by (auto simp: Create_def Let_def split: option.splits)

lemma Delete_Inr_iff:
  "Delete gm groupID opr = Inr gm' \<longleftrightarrow>
     TrimSpace groupID \<noteq> [] \<and> TrimSpace opr \<noteq> [] \<and>
     owner_of gm (TrimSpace groupID) = Some (TrimSpace opr) \<and>
     gm' = gdel (TrimSpace groupID) gm"
  by (auto simp: Delete_def Let_def owner_of_def split: option.splits)

lemma Join_Inr_iff:
  "Join gm groupID u = Inr gm' \<longleftrightarrow>
     TrimSpace groupID \<noteq> [] \<and> TrimSpace u \<noteq> [] \<and>
     (\<exists>g. map_of gm (TrimSpace groupID) = Some g \<and> map_of (g_Members g) (TrimSpace u) = None \<and>
        gm' = gput (TrimSpace groupID)
          (g\<lparr>g_Members := gput (TrimSpace u) GroupRoleMember (g_Members g)\<rparr>) gm)"
  by (auto simp: Join_def Let_def split: option.splits)

lemma Leave_Inr_iff:
  "Leave gm groupID u = Inr gm' \<longleftrightarrow>
     TrimSpace groupID \<noteq> [] \<and> TrimSpace u \<noteq> [] \<and>
     (\<exists>g. map_of gm (TrimSpace groupID) = Some g \<and> g_Owner g \<noteq> TrimSpace u \<and>
        gm' = gput (TrimSpace groupID)
          (g\<lparr>g_Members := gdel (TrimSpace u) (g_Members g)\<rparr>) gm)"
  by (auto simp: Leave_def Let_def split: option.splits)

lemma Kick_Inr_iff:
  "Kick gm groupID opr target = Inr gm' \<longleftrightarrow>
     (\<exists>g b t. map_of gm (TrimSpace groupID) = Some g \<and>
        map_of (g_Members g) opr = Some b \<and> GroupRoleAdmin \<le> b \<and>
        map_of (g_Members g) target = Some t \<and> t < b \<and>
        gm' = gput (TrimSpace groupID) (g\<lparr>g_Members := gdel target (g_Members g)\<rparr>) gm)"
  by (auto simp: Kick_def Let_def not_less not_le split: option.splits)

lemma GrantAdmin_Inr_iff:
  "GrantAdmin gm groupID opr target = Inr gm' \<longleftrightarrow>
     (\<exists>g t. map_of gm (TrimSpace groupID) = Some g \<and> g_Owner g = opr \<and>
        map_of (g_Members g) target = Some t \<and>
        gm' = gput (TrimSpace groupID)
          (g\<lparr>g_Members := gput target GroupRoleAdmin (g_Members g)\<rparr>) gm)"
  by (auto simp: GrantAdmin_def Let_def split: option.splits)

lemma RevokeAdmin_Inr_iff:
  "RevokeAdmin gm groupID opr target = Inr gm' \<longleftrightarrow>
     (\<exists>g t. map_of gm (TrimSpace groupID) = Some g \<and> g_Owner g = opr \<and>
        map_of (g_Members g) target = Some t \<and>
        gm' = gput (TrimSpace groupID)
          (g\<lparr>g_Members := gput target GroupRoleMember (g_Members g)\<rparr>) gm)"
  by (auto simp: RevokeAdmin_def Let_def split: option.splits)

lemmas group_Inr_iffs = Create_Inr_iff Delete_Inr_iff Join_Inr_iff Leave_Inr_iff
  Kick_Inr_iff GrantAdmin_Inr_iff RevokeAdmin_Inr_iff

section \<open>Operations as steps\<close>

text \<open>
  A command of the session layer calls one operation; when it fails the state is unchanged.
\<close>

datatype group_op =
  OpCreate string string | OpDelete string string | OpJoin string string
| OpLeave string string | OpKick string string string
| OpGrant string string string | OpRevoke string string string

fun exec_group :: "groups \<Rightarrow> group_op \<Rightarrow> group_error + groups" where
  "exec_group gm (OpCreate i u) = Create gm i u"
| "exec_group gm (OpDelete i u) = Delete gm i u"
| "exec_group gm (OpJoin i u) = Join gm i u"
| "exec_group gm (OpLeave i u) = Leave gm i u"
| "exec_group gm (OpKick i b t) = Kick gm i b t"
| "exec_group gm (OpGrant i b t) = GrantAdmin gm i b t"
| "exec_group gm (OpRevoke i b t) = RevokeAdmin gm i b t"

fun run_group :: "groups \<Rightarrow> group_op list \<Rightarrow> groups" where
  "run_group gm [] = gm"
| "run_group gm (x # xs) = run_group (case exec_group gm x of Inl _ \<Rightarrow> gm | Inr gm' \<Rightarrow> gm') xs"

primrec op_group :: "group_op \<Rightarrow> string" where
  "op_group (OpCreate i u) = TrimSpace i"
| "op_group (OpDelete i u) = TrimSpace i"
| "op_group (OpJoin i u) = TrimSpace i"
| "op_group (OpLeave i u) = TrimSpace i"
| "op_group (OpKick i b t) = TrimSpace i"
| "op_group (OpGrant i b t) = TrimSpace i"
| "op_group (OpRevoke i b t) = TrimSpace i"

lemma run_group_invariant:
  assumes "\<And>gm x gm'. I gm \<Longrightarrow> P x \<Longrightarrow> exec_group gm x = Inr gm' \<Longrightarrow> I gm'"
  shows "I gm \<Longrightarrow> list_all P xs \<Longrightarrow> I (run_group gm xs)"
proof (induction xs arbitrary: gm)
  case (Cons x xs)
  then show ?case using assms by (cases "exec_group gm x") auto
qed simp

text \<open>An operation touches one group only.\<close>

lemma exec_group_frame:
  "exec_group gm x = Inr gm' \<Longrightarrow> j \<noteq> op_group x \<Longrightarrow> map_of gm' j = map_of gm j"
  by (cases x) (auto simp: group_Inr_iffs)

section \<open>Well-formedness\<close>

text \<open>
  Every group is filed under its own trimmed, non-empty id, has a non-empty trimmed owner, lists
  no member twice, and gives the owner's role to nobody but the owner.
\<close>

definition group_wf :: "string \<Rightarrow> chat_group \<Rightarrow> bool" where
  "group_wf i g \<longleftrightarrow> g_ID g = i \<and> i \<noteq> [] \<and> TrimSpace i = i \<and>
     g_Owner g \<noteq> [] \<and> TrimSpace (g_Owner g) = g_Owner g \<and> distinct (gkeys (g_Members g)) \<and>
     (\<forall>u. map_of (g_Members g) u = Some GroupRoleOwner \<longrightarrow> u = g_Owner g)"

definition groups_wf :: "groups \<Rightarrow> bool" where
  "groups_wf gm \<longleftrightarrow> distinct (gkeys gm) \<and> (\<forall>i g. map_of gm i = Some g \<longrightarrow> group_wf i g)"

lemma groups_wf_init [inv_intros]: "groups_wf NewGroupManager"
  by (simp add: groups_wf_def NewGroupManager_def)

lemma groups_wfD: "groups_wf gm \<Longrightarrow> map_of gm i = Some g \<Longrightarrow> group_wf i g"
  by (simp add: groups_wf_def)

lemma groups_wf_gput [inv_intros]: "groups_wf gm \<Longrightarrow> group_wf i g \<Longrightarrow> groups_wf (gput i g gm)"
  by (auto simp: groups_wf_def)

lemma groups_wf_gdel [inv_intros]: "groups_wf gm \<Longrightarrow> groups_wf (gdel i gm)"
  by (auto simp: groups_wf_def)

lemma group_wf_new [inv_intros]:
  "TrimSpace i \<noteq> [] \<Longrightarrow> TrimSpace u \<noteq> [] \<Longrightarrow>
   group_wf (TrimSpace i) \<lparr>g_ID = TrimSpace i, g_Owner = TrimSpace u,
     g_Members = [(TrimSpace u, GroupRoleOwner)]\<rparr>"
  by (simp add: group_wf_def)

lemma group_wf_set_role [inv_intros]:
  "group_wf i g \<Longrightarrow> ro \<noteq> GroupRoleOwner \<Longrightarrow>
   group_wf i (g\<lparr>g_Members := gput u ro (g_Members g)\<rparr>)"
  by (auto simp: group_wf_def)

lemma group_wf_remove [inv_intros]:
  "group_wf i g \<Longrightarrow> group_wf i (g\<lparr>g_Members := gdel u (g_Members g)\<rparr>)"
  by (auto simp: group_wf_def)

lemma exec_group_wf:
  assumes "groups_wf gm" and "exec_group gm x = Inr gm'"
  shows "groups_wf gm'"
  using assms by (cases x) (auto simp: group_Inr_iffs dest: groups_wfD intro!: inv_intros)

section \<open>The owner's seat\<close>

text \<open>
  The owner stays a member with the owner's role as long as the owner does not run
  \<open>GrantAdmin\<close> or \<open>RevokeAdmin\<close> on a group's owner.
\<close>

definition owner_seated :: "groups \<Rightarrow> bool" where
  "owner_seated gm \<longleftrightarrow>
     (\<forall>i g. map_of gm i = Some g \<longrightarrow> map_of (g_Members g) (g_Owner g) = Some GroupRoleOwner)"

fun spares_owner :: "group_op \<Rightarrow> bool" where
  "spares_owner (OpGrant i b t) \<longleftrightarrow> b \<noteq> t"
| "spares_owner (OpRevoke i b t) \<longleftrightarrow> b \<noteq> t"
| "spares_owner _ \<longleftrightarrow> True"

lemma owner_seatedD:
  "owner_seated gm \<Longrightarrow> map_of gm i = Some g \<Longrightarrow>
   map_of (g_Members g) (g_Owner g) = Some GroupRoleOwner"
  by (simp add: owner_seated_def)

lemma owner_seated_gput:
  "owner_seated gm \<Longrightarrow> map_of (g_Members g) (g_Owner g) = Some GroupRoleOwner \<Longrightarrow>
   owner_seated (gput i g gm)"
  by (auto simp: owner_seated_def)

lemma not_above_owner: "\<not> GroupRoleOwner < b"
  by (cases b) (simp_all add: role_order)

lemma exec_group_owner_seated:
  assumes "owner_seated gm" and "spares_owner x" and "exec_group gm x = Inr gm'"
  shows "owner_seated gm'"
proof (cases x)
  case (OpDelete i u)
  with assms show ?thesis by (auto simp: Delete_Inr_iff owner_seated_def)
next
  case (OpJoin i u)
  with assms(3) obtain g where g: "map_of gm (TrimSpace i) = Some g"
    and new: "map_of (g_Members g) (TrimSpace u) = None"
    and gm': "gm' = gput (TrimSpace i)
      (g\<lparr>g_Members := gput (TrimSpace u) GroupRoleMember (g_Members g)\<rparr>) gm"
    by (auto simp: Join_Inr_iff)
  have seat: "map_of (g_Members g) (g_Owner g) = Some GroupRoleOwner"
    using assms(1) g by (rule owner_seatedD)
  with new have "TrimSpace u \<noteq> g_Owner g" by auto
  then show ?thesis unfolding gm' by (intro owner_seated_gput assms(1)) (simp add: seat)
next
  case (OpKick i b t)
  with assms(3) obtain g br tr where g: "map_of gm (TrimSpace i) = Some g"
    and tr: "map_of (g_Members g) t = Some tr" "tr < br"
    and gm': "gm' = gput (TrimSpace i) (g\<lparr>g_Members := gdel t (g_Members g)\<rparr>) gm"
    by (auto simp: Kick_Inr_iff)
  have seat: "map_of (g_Members g) (g_Owner g) = Some GroupRoleOwner"
    using assms(1) g by (rule owner_seatedD)
  then have "t \<noteq> g_Owner g" using tr not_above_owner by auto
  then show ?thesis unfolding gm' by (intro owner_seated_gput assms(1)) (simp add: seat)
qed (use assms in \<open>auto simp: group_Inr_iffs dest: owner_seatedD intro!: owner_seated_gput\<close>)

section \<open>The interface\<close>

text \<open>
  What the session layer relies on when it talks to \<open>svcapi.GroupManagerAPI\<close>: after a
  successful call, who is in the group, and that \<open>Members\<close> and \<open>RoleOf\<close> agree. A group
  message fans out to the members other than the sender.
\<close>

definition fan_out :: "string list \<Rightarrow> string \<Rightarrow> string list" where
  "fan_out members sender = filter (\<lambda>m. m \<noteq> sender) members"

locale group_api =
  fixes join :: "'s \<Rightarrow> string \<Rightarrow> string \<Rightarrow> 'e + 's"
    and leave :: "'s \<Rightarrow> string \<Rightarrow> string \<Rightarrow> 'e + 's"
    and dissolve :: "'s \<Rightarrow> string \<Rightarrow> string \<Rightarrow> 'e + 's"
    and kick :: "'s \<Rightarrow> string \<Rightarrow> string \<Rightarrow> string \<Rightarrow> 'e + 's"
    and members :: "rt \<Rightarrow> 's \<Rightarrow> string \<Rightarrow> string list"
    and role_name :: "'s \<Rightarrow> string \<Rightarrow> string \<Rightarrow> string \<times> bool"
  assumes join_in: "join s i u = Inr s' \<Longrightarrow> snd (role_name s' i (TrimSpace u))"
    and leave_out: "leave s i u = Inr s' \<Longrightarrow> \<not> snd (role_name s' i (TrimSpace u))"
    and kick_out: "kick s i b t = Inr s' \<Longrightarrow> \<not> snd (role_name s' i t)"
    and dissolve_out: "dissolve s i u = Inr s' \<Longrightarrow> \<not> snd (role_name s' i v)"
    and members_role: "range_ok r \<Longrightarrow> u \<in> set (members r s i) \<longleftrightarrow> snd (role_name s i u)"
begin

lemma in_fan_out:
  "range_ok r \<Longrightarrow>
   u \<in> set (fan_out (members r s i) sender) \<longleftrightarrow> snd (role_name s i u) \<and> u \<noteq> sender"
  by (auto simp: fan_out_def members_role)

lemma joined_receives:
  "range_ok r \<Longrightarrow> join s i u = Inr s' \<Longrightarrow> TrimSpace u \<noteq> sender \<Longrightarrow>
   TrimSpace u \<in> set (fan_out (members r s' i) sender)"
  by (simp add: in_fan_out join_in)

lemma removed_receives_nothing:
  assumes "range_ok r"
  shows "kick s i b t = Inr s' \<Longrightarrow> t \<notin> set (fan_out (members r s' i) sender)"
    and "leave s i u = Inr s' \<Longrightarrow> TrimSpace u \<notin> set (fan_out (members r s' i) sender)"
    and "dissolve s i u = Inr s' \<Longrightarrow> fan_out (members r s' i) sender = []"
proof -
  show "kick s i b t = Inr s' \<Longrightarrow> t \<notin> set (fan_out (members r s' i) sender)"
    using assms by (simp add: in_fan_out kick_out)
  show "leave s i u = Inr s' \<Longrightarrow> TrimSpace u \<notin> set (fan_out (members r s' i) sender)"
    using assms by (simp add: in_fan_out leave_out)
  assume "dissolve s i u = Inr s'"
  then have "v \<notin> set (fan_out (members r s' i) sender)" for v
    using assms by (simp add: in_fan_out dissolve_out)
  then have "set (fan_out (members r s' i) sender) = {}" by (simp add: set_eq_iff)
  then show "fan_out (members r s' i) sender = []" by simp
qed

end

interpretation gm: group_api Join Leave Delete Kick Members RoleOf
proof
  fix s s' i u b t v
  show "Join s i u = Inr s' \<Longrightarrow> snd (RoleOf s' i (TrimSpace u))"
    by (auto simp: Join_Inr_iff RoleOf_iff_role role_def)
  show "Leave s i u = Inr s' \<Longrightarrow> \<not> snd (RoleOf s' i (TrimSpace u))"
    by (auto simp: Leave_Inr_iff RoleOf_iff_role role_def)
  show "Kick s i b t = Inr s' \<Longrightarrow> \<not> snd (RoleOf s' i t)"
    by (auto simp: Kick_Inr_iff RoleOf_iff_role role_def)
  show "Delete s i u = Inr s' \<Longrightarrow> \<not> snd (RoleOf s' i v)"
    by (auto simp: Delete_Inr_iff RoleOf_iff_role role_def)
qed (simp add: set_Members RoleOf_iff_role)

section \<open>Properties\<close>

text \<open>
  After any sequence of group commands, from an empty manager, every group is filed
  under its own trimmed id, lists no member twice and gives the owner's role to nobody but its
  owner.
\<close>

theorem groups_wf_reachable: "groups_wf (run_group NewGroupManager xs)"
  by (rule run_group_invariant [where P = "\<lambda>_. True"])
    (auto intro: exec_group_wf groups_wf_init simp: list_all_iff)

text \<open>
  C28: in any sequence of group commands in which nobody runs \<open>ga\<close> or \<open>gr\<close> on their
  own name, every group's owner remains a member with the owner's role: no kick, leave or role
  change by others can remove or demote the owner.
\<close>

theorem owner_keeps_seat:
  assumes "list_all spares_owner xs"
  shows "owner_seated (run_group NewGroupManager xs)"
  by (rule run_group_invariant [OF exec_group_owner_seated _ assms])
    (auto simp: owner_seated_def NewGroupManager_def)

theorem owner_keeps_seat_witness:
  "let xs = [OpCreate ''g'' ''ann'', OpJoin ''g'' ''bob'', OpGrant ''g'' ''ann'' ''bob'',
             OpKick ''g'' ''bob'' ''ann''] in
   list_all spares_owner xs \<and> owner_seated (run_group NewGroupManager xs)"
  unfolding Let_def
  by (intro conjI owner_keeps_seat) simp_all

text \<open>
  The owner's seat is not protected from the owner: \<open>gr\<close> on the owner's own name
  demotes the owner to a plain member, after which an administrator can kick the owner out of
  the group that still names them as its owner.
\<close>

theorem owner_can_be_kicked:
  "let gm = run_group NewGroupManager
       [OpCreate ''g'' ''ann'', OpJoin ''g'' ''bob'', OpGrant ''g'' ''ann'' ''bob'',
        OpRevoke ''g'' ''ann'' ''ann'', OpKick ''g'' ''bob'' ''ann''] in
     owner_of gm ''g'' = Some ''ann'' \<and> role gm ''g'' ''ann'' = None \<and>
     role gm ''g'' ''bob'' = Some GroupRoleAdmin"
  by code_simp



text \<open>
  A kick succeeds exactly when the operator is an administrator or owner whose role is
  strictly above the target's, and then it removes the target from that group and changes no
  other membership of any group.
\<close>

theorem kick_iff_outranks:
  "(\<exists>gm'. Kick gm groupID b t = Inr gm' \<and>
      (\<forall>i u. role gm' i u = (if i = TrimSpace groupID \<and> u = t then None else role gm i u))) \<longleftrightarrow>
   (\<exists>br tr. role gm (TrimSpace groupID) b = Some br \<and> role gm (TrimSpace groupID) t = Some tr \<and>
      GroupRoleAdmin \<le> br \<and> tr < br)"
  (is "?L \<longleftrightarrow> ?R")
proof
  assume ?L
  then show ?R by (auto simp: Kick_Inr_iff role_def)
next
  assume ?R
  then obtain g where g: "map_of gm (TrimSpace groupID) = Some g"
    by (auto simp: role_def split: Option.bind_splits)
  let ?gm' = "gput (TrimSpace groupID) (g\<lparr>g_Members := gdel t (g_Members g)\<rparr>) gm"
  from \<open>?R\<close> g have "Kick gm groupID b t = Inr ?gm'" by (auto simp: Kick_Inr_iff role_def)
  moreover have "\<forall>i u. role ?gm' i u =
      (if i = TrimSpace groupID \<and> u = t then None else role gm i u)"
    using g by (simp add: role_def)
  ultimately show ?L by blast
qed

text \<open>
  A group message (\<open>gt\<close>) goes to exactly the users \<open>RoleOf\<close> admits, other than
  the sender: a user who just joined gets it, one who was kicked, left or whose group was
  dissolved does not.
\<close>

theorem group_fan_out:
  assumes "range_ok r"
  shows "(u \<in> set (fan_out (Members r s i) sender) \<longleftrightarrow> snd (RoleOf s i u) \<and> u \<noteq> sender) \<and>
    (Join s i v = Inr s' \<longrightarrow> TrimSpace v \<noteq> sender \<longrightarrow>
       TrimSpace v \<in> set (fan_out (Members r s' i) sender)) \<and>
    (Kick s i b t = Inr s' \<longrightarrow> t \<notin> set (fan_out (Members r s' i) sender)) \<and>
    (Leave s i v = Inr s' \<longrightarrow> TrimSpace v \<notin> set (fan_out (Members r s' i) sender)) \<and>
    (Delete s i v = Inr s' \<longrightarrow> fan_out (Members r s' i) sender = [])"
  by (intro conjI impI gm.in_fan_out gm.joined_receives gm.removed_receives_nothing assms)

theorem group_fan_out_witness:
  "let r = \<lparr>clk = (\<lambda>_. 0), rng = rev\<rparr>;
       s = run_group NewGroupManager [OpCreate ''g'' ''ann'', OpJoin ''g'' ''bob''];
       s' = run_group s [OpJoin ''g'' ''cat''] in
   range_ok r \<and> Join s ''g'' ''cat'' = Inr s' \<and>
   ''cat'' \<in> set (fan_out (Members r s' ''g'') ''ann'')"
proof -
  let ?r = "\<lparr>clk = (\<lambda>_. 0), rng = rev\<rparr>"
  let ?s = "run_group NewGroupManager [OpCreate ''g'' ''ann'', OpJoin ''g'' ''bob'']"
  let ?s' = "run_group ?s [OpJoin ''g'' ''cat'']"
  have r: "range_ok ?r" by (simp add: range_ok_def)
  have j: "Join ?s ''g'' ''cat'' = Inr ?s'" by code_simp
  have "TrimSpace ''cat'' = ''cat''" by code_simp
  with r j group_fan_out [OF r, of _ ?s' "''g''" "''ann''" "''cat''" ?s']
    group_fan_out [OF r, of _ ?s "''g''" "''ann''" "''cat''" ?s']
  show ?thesis unfolding Let_def by simp
qed

end
