(* ===== verification/Protocol.thy ===== *)
theory Protocol
  imports Go_Strings
begin

text \<open>
  The wire message (\<open>internal/protocol/protocol.go\<close>), the rows the program keeps in MySQL
  (\<open>internal/storage/model.go\<close>), the conversion between the two
  (\<open>internal/store/convert.go\<close>), and the helpers on messages and names that several
  components share (\<open>internal/store/helpers.go\<close>, \<open>internal/utils/helpers.go\<close>).
\<close>

section \<open>Messages\<close>

definition TypeSend :: string where "TypeSend = ''send''"
definition TypeSendAck :: string where "TypeSendAck = ''send_ack''"
definition TypeDeliver :: string where "TypeDeliver = ''deliver''"
definition TypeDeliverAck :: string where "TypeDeliverAck = ''deliver_ack''"
definition TypeReadAck :: string where "TypeReadAck = ''read_ack''"
definition TypeSync :: string where "TypeSync = ''sync''"

lemmas msg_types = TypeSend_def TypeSendAck_def TypeDeliver_def TypeDeliverAck_def
  TypeReadAck_def TypeSync_def

record Message =
  Type :: string
  ClientMsgID :: string
  ServerMsgID :: string
  ChatID :: string
  From :: string
  To :: string
  Seq :: "64 word"
  Status :: int
  Body :: string
  Ts :: int

text \<open>The zero value: a composite literal sets the fields it names and leaves the rest.\<close>

definition zero_Message :: Message where
  "zero_Message = \<lparr>Type = [], ClientMsgID = [], ServerMsgID = [], ChatID = [], From = [],
     To = [], Seq = 0, Status = 0, Body = [], Ts = 0\<rparr>"

section \<open>Database rows\<close>

text \<open>
  Instants are nanoseconds since the epoch; Go's zero \<open>time.Time\<close> is January 1, year 1.
\<close>

definition zero_time :: int where
  "zero_time = - 62135596800 * second"

record db_message =
  DM_ID :: nat
  DM_ClientMsgID :: string
  DM_ServerMsgID :: string
  DM_Seq :: "64 word"
  DM_ChatType :: int
  DM_ChatID :: string
  DM_SendID :: string
  DM_RecvID :: string
  DM_ContentType :: int
  DM_Content :: string
  DM_Status :: int
  DM_CreateTime :: int

record db_recipient =
  DR_ID :: nat
  DR_ServerMsgID :: string
  DR_ToUser :: string
  DR_Status :: int
  DR_RetryCount :: int
  DR_NextRetryAt :: "int option"
  DR_LastError :: string
  DR_LastSendAt :: "int option"
  DR_AckedAt :: "int option"
  DR_ReadAt :: "int option"
  DR_CreateTime :: int
  DR_UpdateTime :: int

record db_user =
  DU_ID :: nat
  DU_UserName :: string
  DU_PasswordHash :: string
  DU_NickName :: string
  DU_AvatarURL :: string
  DU_Status :: int
  DU_CreateTime :: int
  DU_UpdateTime :: int

text \<open>\<open>&storage.MessageRecipient{ServerMsgID: m, ToUser: to, Status: 0}\<close>.\<close>

definition new_recipient :: "string \<Rightarrow> string \<Rightarrow> db_recipient" where
  "new_recipient serverMsgID to =
     \<lparr>DR_ID = 0, DR_ServerMsgID = serverMsgID, DR_ToUser = to, DR_Status = 0, DR_RetryCount = 0,
      DR_NextRetryAt = None, DR_LastError = [], DR_LastSendAt = None, DR_AckedAt = None,
      DR_ReadAt = None, DR_CreateTime = zero_time, DR_UpdateTime = zero_time\<rparr>"

definition toDBMessage :: "Message \<Rightarrow> db_message" where
  "toDBMessage m =
     \<lparr>DM_ID = 0, DM_ClientMsgID = ClientMsgID m, DM_ServerMsgID = ServerMsgID m, DM_Seq = Seq m,
      DM_ChatType = 1, DM_ChatID = ChatID m, DM_SendID = From m, DM_RecvID = To m,
      DM_ContentType = 1, DM_Content = Body m, DM_Status = 0, DM_CreateTime = zero_time\<rparr>"

definition fromDBMessage :: "db_message \<Rightarrow> Message" where
  "fromDBMessage d =
     zero_Message\<lparr>Type := TypeDeliver, ClientMsgID := DM_ClientMsgID d,
       ServerMsgID := DM_ServerMsgID d, ChatID := DM_ChatID d, From := DM_SendID d,
       To := DM_RecvID d, Seq := DM_Seq d, Body := DM_Content d, Ts := unix (DM_CreateTime d)\<rparr>"

section \<open>Helpers\<close>

text \<open>\<open>dedupeStrings\<close>: the loop with its \<open>seen\<close> set and its output slice.\<close>

fun dedupe_loop :: "string list \<Rightarrow> unit gomap \<Rightarrow> string list \<Rightarrow> string list" where
  "dedupe_loop [] seen out = out"
| "dedupe_loop (item # rest) seen out =
     (if item = [] then dedupe_loop rest seen out
      else if map_of seen item \<noteq> None then dedupe_loop rest seen out
      else dedupe_loop rest (gput item () seen) (out @ [item]))"

definition dedupeStrings :: "string list \<Rightarrow> string list" where
  "dedupeStrings xs = dedupe_loop xs [] []"

text \<open>\<open>reverseMessages\<close>: the two-index swap loop, in place.\<close>

function reverse_loop :: "nat \<Rightarrow> int \<Rightarrow> 'a list \<Rightarrow> 'a list" where
  "reverse_loop i j xs =
     (if int i < j
      then reverse_loop (i + 1) (j - 1) (xs[i := xs ! nat j, nat j := xs ! i])
      else xs)"
  by pat_completeness auto
termination
  by (relation "measure (\<lambda>(i, j, xs). nat (j - int i))") auto

declare reverse_loop.simps [simp del]

definition reverseMessages :: "'a list \<Rightarrow> 'a list" where
  "reverseMessages xs = reverse_loop 0 (int (length xs) - 1) xs"

text \<open>Go compares strings byte by byte; \<open>\<le>\<close> on \<open>string\<close> is that order.\<close>

definition C2CChatID :: "string \<Rightarrow> string \<Rightarrow> string" where
  "C2CChatID a b =
     (if a \<le> b then ''c2c:'' @ a @ '':'' @ b else ''c2c:'' @ b @ '':'' @ a)"

section \<open>Properties of the helpers\<close>

text \<open>What \<open>dedupeStrings\<close> promises, as a specification: the first occurrences, in order.\<close>

fun first_occurrences :: "string list \<Rightarrow> string list" where
  "first_occurrences [] = []"
| "first_occurrences (x # xs) = x # filter (\<lambda>y. y \<noteq> x) (first_occurrences xs)"

lemma first_occurrences_filter:
  "first_occurrences (filter P xs) = filter P (first_occurrences xs)"
proof (induction xs)
  case (Cons x xs)
  then show ?case
    by (auto simp: filter_filter intro!: filter_cong)
qed simp

lemma set_first_occurrences [simp]: "set (first_occurrences xs) = set xs"
  by (induction xs) auto

lemma distinct_first_occurrences [simp]: "distinct (first_occurrences xs)"
  by (induction xs) auto

lemma dedupe_loop_spec:
  "dedupe_loop xs seen out =
     out @ first_occurrences (filter (\<lambda>x. x \<noteq> [] \<and> map_of seen x = None) xs)"
proof (induction xs arbitrary: seen out)
  case (Cons x xs)
  show ?case
  proof (cases "x \<noteq> [] \<and> map_of seen x = None")
    case True
    have "filter (\<lambda>y. y \<noteq> [] \<and> map_of (gput x () seen) y = None) xs =
        filter (\<lambda>y. y \<noteq> x) (filter (\<lambda>y. y \<noteq> [] \<and> map_of seen y = None) xs)"
      by (auto intro: filter_cong)
    with True Cons.IH [of "gput x () seen" "out @ [x]"] show ?thesis
      by (simp add: first_occurrences_filter del: filter_filter map_of_gput)
  next
    case False
    with Cons.IH show ?thesis by auto
  qed
qed simp

lemma dedupeStrings_spec: "dedupeStrings xs = first_occurrences (filter (\<lambda>x. x \<noteq> []) xs)"
  by (simp add: dedupeStrings_def dedupe_loop_spec)

lemma set_dedupeStrings [simp]: "set (dedupeStrings xs) = set xs - {[]}"
  by (auto simp: dedupeStrings_spec)

lemma distinct_dedupeStrings [simp]: "distinct (dedupeStrings xs)"
  by (simp add: dedupeStrings_spec)

lemma reverse_loop_nth:
  assumes "i + nat (j + 1) = length xs" and "-1 \<le> j" and "k < length xs"
  shows "reverse_loop i j xs ! k =
      (if int i \<le> int k \<and> int k \<le> j then xs ! (length xs - 1 - k) else xs ! k) \<and>
    length (reverse_loop i j xs) = length xs"
  using assms
proof (induction i j xs arbitrary: k rule: reverse_loop.induct)
  case (1 i j xs)
  show ?case
  proof (cases "int i < j")
    case False
    then have "int i \<le> int k \<and> int k \<le> j \<Longrightarrow> length xs - 1 - k = k" using "1.prems" by linarith
    with False show ?thesis by (auto simp: reverse_loop.simps [of i j xs])
  next
    case True
    let ?ys = "xs[i := xs ! nat j, nat j := xs ! i]"
    have bound: "i + 1 + nat (j - 1 + 1) = length ?ys" "-1 \<le> j - 1" "k < length ?ys"
      using "1.prems" True by auto
    note IH = "1.IH" [OF True bound]
    have ij: "nat j = length xs - 1 - i" "i < length xs" "nat j < length xs"
      using "1.prems" True by auto
    have "?ys ! (length xs - 1 - k) = xs ! (length xs - 1 - k)"
      if "int (i + 1) \<le> int k" "int k \<le> j - 1"
      using that ij by (subst nth_list_update_neq, linarith)+ simp
    moreover have "?ys ! k = xs ! (length xs - 1 - k)" if "k = i \<or> k = nat j"
      using that ij True by (auto simp: nth_list_update)
    moreover have "?ys ! k = xs ! k" if "k \<noteq> i" "k \<noteq> nat j"
      using that by simp
    ultimately show ?thesis
      using IH True ij by (auto simp: reverse_loop.simps [of i j xs])
  qed
qed

text \<open>
  The in-place swap loop of \<open>reverseMessages\<close> terminates and reverses the list.
\<close>

theorem reverseMessages_rev: "reverseMessages xs = rev xs"
proof (cases "xs = []")
  case True
  then show ?thesis by (simp add: reverseMessages_def reverse_loop.simps)
next
  case False
  then have "0 < length xs" by simp
  then have *: "k < length xs \<Longrightarrow> reverseMessages xs ! k = xs ! (length xs - 1 - k) \<and>
      length (reverseMessages xs) = length xs" for k
    using reverse_loop_nth [of 0 "int (length xs) - 1" xs k] by (simp add: reverseMessages_def)
  then have len: "length (reverseMessages xs) = length xs" using \<open>0 < length xs\<close> by blast
  with * show ?thesis by (intro nth_equalityI) (auto simp: rev_nth)
qed

text \<open>
  \<open>dedupeStrings\<close> keeps exactly the first occurrence of every non-empty string, in
  the order of the input.
\<close>

theorem dedupeStrings_first_occurrences:
  "dedupeStrings xs = first_occurrences (filter (\<lambda>x. x \<noteq> []) xs) \<and>
   distinct (dedupeStrings xs) \<and> set (dedupeStrings xs) = set xs - {[]}"
  by (simp add: dedupeStrings_spec) auto

text \<open>
  A private chat has one id whoever writes first: \<open>C2CChatID\<close> is symmetric.
\<close>

theorem C2CChatID_sym: "C2CChatID a b = C2CChatID b a"
  by (auto simp: C2CChatID_def)

lemma colon_split:
  assumes "CHR '':'' \<notin> set a" and "CHR '':'' \<notin> set c"
  shows "a @ CHR '':'' # b = c @ CHR '':'' # d \<longleftrightarrow> a = c \<and> b = d"
  using assms by (metis cut_at_append option.inject prod.inject)

text \<open>
  Two different pairs of colon-free users never share a private chat id.
\<close>

theorem C2CChatID_inj:
  assumes "CHR '':'' \<notin> set a \<union> set b \<union> set c \<union> set d"
  shows "C2CChatID a b = C2CChatID c d \<longleftrightarrow> {a, b} = {c, d}"
  using assms by (auto simp: C2CChatID_def colon_split doubleton_eq_iff)

theorem C2CChatID_inj_witness:
  "CHR '':'' \<notin> set ''ann'' \<union> set ''bob'' \<union> set ''bob'' \<union> set ''ann'' \<and>
   C2CChatID ''ann'' ''bob'' = C2CChatID ''bob'' ''ann''"
  using C2CChatID_inj [of "''ann''" "''bob''" "''bob''" "''ann''"] by auto

text \<open>
  User names may contain a colon (registration refuses only white space and the pipe),
  and then two different pairs of users can share one chat id, so one sequence of message
  numbers and one history key.
\<close>

theorem C2CChatID_collision:
  "C2CChatID ''a:b'' ''c'' = C2CChatID ''a'' ''b:c'' \<and> {''a:b'', ''c''} \<noteq> {''a'', ''b:c''}"
  by (simp add: C2CChatID_def doubleton_eq_iff)

text \<open>
  A message written to the database and read back is the delivered form of the
  original: every field the wire format carries survives, except that the type is
  \<open>deliver\<close>, the status is cleared and the time stamp is the row's creation time.
\<close>

theorem fromDB_toDB:
  "fromDBMessage ((toDBMessage m)\<lparr>DM_ID := i, DM_CreateTime := t\<rparr>) =
   m\<lparr>Type := TypeDeliver, Status := 0, Ts := unix t\<rparr>"
  by (simp add: fromDBMessage_def toDBMessage_def zero_Message_def)

end
