(* ===== verification/Backends.thy ===== *)
theory Backends
  imports Protocol Go_Json
begin

text \<open>
  The two services the program talks to, as parameters: the gorm handle to MySQL
  (\<open>storage.DB\<close>) and the optional Redis client (\<open>cache.Client()\<close>). Every call the
  program makes is one field of a record; what the server behind it does is not defined here.
  A query's \<open>WHERE\<close> text is the predicate it denotes, with string equality left to the
  column's collation (\<open>coll\<close>). The Redis keys (\<open>internal/cache/redis.go\<close>) are the
  program's own.
\<close>

section \<open>MySQL through gorm\<close>

datatype db_error = ErrRecordNotFound | DBError string

datatype 'r order = Unordered | Asc "'r \<Rightarrow> int" | Desc "'r \<Rightarrow> int"

text \<open>
  One table: \<open>Create\<close> (with the row as stored), \<open>Create\<close> with \<open>ON CONFLICT DO NOTHING\<close>,
  \<open>Find\<close> with condition, order, limit and offset, \<open>Take\<close>, \<open>First\<close>, and \<open>Updates\<close>
  with its count of affected rows.
\<close>

record ('d, 'r) table =
  t_create :: "'r \<Rightarrow> 'd \<Rightarrow> (db_error + 'r) \<times> 'd"
  t_create_ignore :: "'r \<Rightarrow> 'd \<Rightarrow> db_error option \<times> 'd"
  t_find :: "('r \<Rightarrow> bool) \<Rightarrow> 'r order \<Rightarrow> nat option \<Rightarrow> nat option \<Rightarrow> 'd \<Rightarrow>
    (db_error + 'r list) \<times> 'd"
  t_take :: "('r \<Rightarrow> bool) \<Rightarrow> 'd \<Rightarrow> (db_error + 'r) \<times> 'd"
  t_first :: "('r \<Rightarrow> bool) \<Rightarrow> 'd \<Rightarrow> (db_error + 'r) \<times> 'd"
  t_update :: "('r \<Rightarrow> bool) \<Rightarrow> ('r \<Rightarrow> 'r) \<Rightarrow> 'd \<Rightarrow> (db_error + nat) \<times> 'd"

text \<open>
  \<open>max_seq\<close> is \<open>SELECT COALESCE(MAX(seq), 0)\<close>, \<open>count_status\<close> is
  \<open>SELECT status, COUNT(*) ... GROUP BY status\<close>, \<open>transaction\<close> runs a body that
  returns an error or not.
\<close>

record 'd gorm_db =
  coll :: "string \<Rightarrow> string \<Rightarrow> bool"
  messages_t :: "('d, db_message) table"
  recipients_t :: "('d, db_recipient) table"
  users_t :: "('d, db_user) table"
  max_seq :: "(db_message \<Rightarrow> bool) \<Rightarrow> 'd \<Rightarrow> (db_error + 64 word) \<times> 'd"
  count_status :: "'d \<Rightarrow> (db_error + (int \<times> int) list) \<times> 'd"
  transaction :: "('d \<Rightarrow> db_error option \<times> 'd) \<Rightarrow> 'd \<Rightarrow> db_error option \<times> 'd"

text \<open>The \<open>Limit\<close> clause: present only for a positive limit.\<close>

definition limit_clause :: "int \<Rightarrow> nat option" where
  "limit_clause n = (if n > 0 then Some (nat n) else None)"

section \<open>Redis\<close>

text \<open>
  \<open>Get\<close> returns \<open>None\<close> for an error or a missing key; the errors of \<open>Set\<close> and
  \<open>Del\<close> are ignored by the program, so only their effect remains.
\<close>

record 'c redis =
  r_get :: "string \<Rightarrow> 'c \<Rightarrow> string option \<times> 'c"
  r_set :: "string \<Rightarrow> string \<Rightarrow> int \<Rightarrow> 'c \<Rightarrow> 'c"
  r_del :: "string \<Rightarrow> 'c \<Rightarrow> 'c"

definition UserKey :: "string \<Rightarrow> string" where
  "UserKey username = ''user:byname:'' @ username"

definition OnlineKey :: "string \<Rightarrow> string" where
  "OnlineKey username = ''user:online:'' @ username"

definition RecipientsKey :: "string \<Rightarrow> string" where
  "RecipientsKey serverMsgID = ''deliver:recips:'' @ serverMsgID"

definition PendingUserKey :: "string \<Rightarrow> string" where
  "PendingUserKey username = ''deliver:pending:user:'' @ username"

definition PendingDueKey :: string where
  "PendingDueKey = ''deliver:pending:due''"

definition PendingRecoverKey :: string where
  "PendingRecoverKey = ''deliver:pending:recover''"

lemmas key_defs = UserKey_def OnlineKey_def RecipientsKey_def PendingUserKey_def
  PendingDueKey_def PendingRecoverKey_def

text \<open>
  The cache keys of different kinds never collide, whatever the user names and message
  ids are, and within a kind the key determines the name.
\<close>

theorem cache_keys_disjoint:
  "distinct [UserKey u, OnlineKey v, RecipientsKey m, PendingUserKey w, PendingDueKey,
     PendingRecoverKey] \<and>
   inj UserKey \<and> inj OnlineKey \<and> inj RecipientsKey \<and> inj PendingUserKey"
  by (simp add: key_defs inj_def)

section \<open>A backend\<close>

record ('d, 'c) backend =
  gorm :: "'d gorm_db"
  client :: "'c redis option"

text \<open>Cache operations when a client is configured; without one nothing happens.\<close>

definition cache_del :: "('d, 'c) backend \<Rightarrow> string list \<Rightarrow> 'c \<Rightarrow> 'c" where
  "cache_del b ks c = (case client b of None \<Rightarrow> c | Some r \<Rightarrow> fold (r_del r) ks c)"

definition cache_set_strings ::
  "('d, 'c) backend \<Rightarrow> string \<Rightarrow> string list \<Rightarrow> int \<Rightarrow> 'c \<Rightarrow> 'c" where
  "cache_set_strings b k xs ttl c =
     (case client b of None \<Rightarrow> c | Some r \<Rightarrow> r_set r k (marshal_strings xs) ttl c)"

text \<open>
  \<open>if val, err := c.Get(...).Result(); err == nil && val != ""\<close> followed by
  \<open>json.Unmarshal\<close> into a \<open>[]string\<close>: the list when every step succeeds.
\<close>

definition cache_get_strings ::
  "('d, 'c) backend \<Rightarrow> string \<Rightarrow> 'c \<Rightarrow> string list option \<times> 'c" where
  "cache_get_strings b k c =
     (case client b of
        None \<Rightarrow> (None, c)
      | Some r \<Rightarrow>
          (case r_get r k c of
             (None, c') \<Rightarrow> (None, c')
           | (Some v, c') \<Rightarrow> (if v \<noteq> [] then unmarshal_strings v else None, c')))"

end
