(* ===== verification/Mem_Store.thy ===== *)
theory Mem_Store
  imports Backends
begin

text \<open>
  The message store (\<open>internal/store\<close>): \<open>InMemoryStore\<close> keeps sequence numbers, messages,
  the (sender, client id) index and the delivery entries in maps under one mutex, and, when
  \<open>storage.DB\<close> is set (\<open>persistent\<close>), writes through to MySQL with short-lived lists in
  Redis. This theory holds the state and the operations on sequence numbers and messages
  (\<open>messages.go\<close>) in both modes.

  A call is one step here. \<open>NextSeq\<close> holds the mutex throughout, query included, and so does every
  operation in memory mode. In database mode \<open>SaveMessageWithRecipients\<close> commits its transaction
  and writes the cache before it takes the mutex, and the two look-ups release it around their
  query; what another call does in between these parts is not covered.
\<close>

section \<open>State\<close>

record DeliveryEntry =
  E_To :: string
  Acked :: bool
  Read :: bool
  Dead :: bool
  Retry :: int
  LastSent :: int
  NextRetryAt :: int
  LastError :: string

definition new_entry :: "string \<Rightarrow> DeliveryEntry" where
  "new_entry to = \<lparr>E_To = to, Acked = False, Read = False, Dead = False, Retry = 0, LastSent = 0,
     NextRetryAt = 0, LastError = []\<rparr>"

text \<open>
  The fields of \<open>InMemoryStore\<close>, and the contents of the two services it writes to, which
  change with it.
\<close>

record ('d, 'c) store =
  nextSeq :: "64 word gomap"
  messages :: "Message gomap"
  byClient :: "Message gomap gomap"
  deliveries :: "DeliveryEntry gomap gomap"
  persistent :: bool
  db :: 'd
  cache :: 'c

definition NewInMemoryStore :: "bool \<Rightarrow> 'd \<Rightarrow> 'c \<Rightarrow> ('d, 'c) store" where
  "NewInMemoryStore dbSet d c = \<lparr>nextSeq = [], messages = [], byClient = [], deliveries = [],
     persistent = dbSet, db = d, cache = c\<rparr>"

datatype store_error = InvalidMessage | StoreDB db_error

record DeliveryStatusStats =
  Pending :: int
  Delivered :: int
  ReadCount :: int
  DeadCount :: int

section \<open>Internal steps\<close>

definition saveMessageUnsafe :: "Message \<Rightarrow> ('d, 'c) store \<Rightarrow> ('d, 'c) store" where
  "saveMessageUnsafe msg s =
     (let s1 = s\<lparr>messages := gput (ServerMsgID msg) msg (messages s)\<rparr> in
      if From msg \<noteq> [] \<and> ClientMsgID msg \<noteq> [] then
        (let inner = (case map_of (byClient s1) (From msg) of None \<Rightarrow> [] | Some m \<Rightarrow> m)
         in s1\<lparr>byClient := gput (From msg) (gput (ClientMsgID msg) msg inner) (byClient s1)\<rparr>)
      else s1)"

definition saveDeliveryUnsafe :: "string \<Rightarrow> string \<Rightarrow> ('d, 'c) store \<Rightarrow> ('d, 'c) store" where
  "saveDeliveryUnsafe serverMsgID to s =
     (let inner = (case map_of (deliveries s) serverMsgID of None \<Rightarrow> [] | Some m \<Rightarrow> m);
          inner' = (case map_of inner to of None \<Rightarrow> gput to (new_entry to) inner | Some _ \<Rightarrow> inner)
      in s\<lparr>deliveries := gput serverMsgID inner' (deliveries s)\<rparr>)"

text \<open>Mutation of an entry through the pointer found in the two nested maps.\<close>

definition mod_entry ::
  "string \<Rightarrow> string \<Rightarrow> (DeliveryEntry \<Rightarrow> DeliveryEntry) \<Rightarrow> ('d, 'c) store \<Rightarrow> ('d, 'c) store" where
  "mod_entry serverMsgID to f s =
     s\<lparr>deliveries := gmod serverMsgID (gmod to f) (deliveries s)\<rparr>"

definition find_entry :: "('d, 'c) store \<Rightarrow> string \<Rightarrow> string \<Rightarrow> DeliveryEntry option" where
  "find_entry s serverMsgID to =
     Option.bind (map_of (deliveries s) serverMsgID) (\<lambda>m. map_of m to)"

text \<open>The filter of \<open>GetRecipients\<close>: neither acknowledged, read nor dead.\<close>

definition undelivered :: "DeliveryEntry \<Rightarrow> bool" where
  "undelivered e \<longleftrightarrow> \<not> Acked e \<and> \<not> Read e \<and> \<not> Dead e"

text \<open>The row conditions of the queries on \<open>message_recipients\<close>.\<close>

definition row_is :: "('d, 'c) backend \<Rightarrow> string \<Rightarrow> string \<Rightarrow> db_recipient \<Rightarrow> bool" where
  "row_is b serverMsgID to row \<longleftrightarrow>
     coll (gorm b) (DR_ServerMsgID row) serverMsgID \<and> coll (gorm b) (DR_ToUser row) to"

text \<open>An \<open>UPDATE\<close> whose row count is ignored: its error, and the new contents.\<close>

definition update_recipients ::
  "('d, 'c) backend \<Rightarrow> (db_recipient \<Rightarrow> bool) \<Rightarrow> (db_recipient \<Rightarrow> db_recipient) \<Rightarrow>
   ('d, 'c) store \<Rightarrow> db_error option \<times> ('d, 'c) store" where
  "update_recipients b w f s =
     (case t_update (recipients_t (gorm b)) w f (db s) of
        (Inl e, d) \<Rightarrow> (Some e, s\<lparr>db := d\<rparr>)
      | (Inr _, d) \<Rightarrow> (None, s\<lparr>db := d\<rparr>))"

definition del_keys :: "('d, 'c) backend \<Rightarrow> string list \<Rightarrow> ('d, 'c) store \<Rightarrow> ('d, 'c) store" where
  "del_keys b ks s = s\<lparr>cache := cache_del b ks (cache s)\<rparr>"

section \<open>Messages (messages.go)\<close>

definition NextSeq ::
  "('d, 'c) backend \<Rightarrow> string \<Rightarrow> ('d, 'c) store \<Rightarrow> 64 word \<times> ('d, 'c) store" where
  "NextSeq b chatID0 s =
     (let chatID = (if chatID0 = [] then ''default'' else chatID0);
          s1 = (if map_of (nextSeq s) chatID = None \<and> persistent s then
                  (case max_seq (gorm b) (\<lambda>row. coll (gorm b) (DM_ChatID row) chatID) (db s) of
                     (Inl _, d) \<Rightarrow> s\<lparr>db := d\<rparr>
                   | (Inr m, d) \<Rightarrow> s\<lparr>db := d, nextSeq := gput chatID m (nextSeq s)\<rparr>)
                else s);
          seq = (case map_of (nextSeq s1) chatID of None \<Rightarrow> 0 | Some n \<Rightarrow> n) + 1
      in (seq, s1\<lparr>nextSeq := gput chatID seq (nextSeq s1)\<rparr>))"

text \<open>The recipient rows of the transaction, in order, up to the first error.\<close>

fun insert_recipients ::
  "('d, 'c) backend \<Rightarrow> string \<Rightarrow> string list \<Rightarrow> 'd \<Rightarrow> db_error option \<times> 'd" where
  "insert_recipients b serverMsgID [] d = (None, d)"
| "insert_recipients b serverMsgID (to # tos) d =
     (if to = [] then insert_recipients b serverMsgID tos d
      else case t_create_ignore (recipients_t (gorm b)) (new_recipient serverMsgID to) d of
        (Some e, d') \<Rightarrow> (Some e, d')
      | (None, d') \<Rightarrow> insert_recipients b serverMsgID tos d')"

definition save_tx ::
  "('d, 'c) backend \<Rightarrow> Message \<Rightarrow> string list \<Rightarrow> 'd \<Rightarrow> db_error option \<times> 'd" where
  "save_tx b msg recipients =
     transaction (gorm b) (\<lambda>d.
       case t_create_ignore (messages_t (gorm b)) (toDBMessage msg) d of
         (Some e, d') \<Rightarrow> (Some e, d')
       | (None, d') \<Rightarrow> insert_recipients b (ServerMsgID msg) recipients d')"

definition cache_saved ::
  "('d, 'c) backend \<Rightarrow> Message \<Rightarrow> string list \<Rightarrow> 'c \<Rightarrow> 'c" where
  "cache_saved b msg recipients c =
     cache_del b (map PendingUserKey (filter (\<lambda>to. to \<noteq> []) recipients) @
                  [PendingDueKey, PendingRecoverKey])
       (cache_set_strings b (RecipientsKey (ServerMsgID msg)) recipients (5 * second) c)"

definition SaveMessageWithRecipients ::
  "('d, 'c) backend \<Rightarrow> Message option \<Rightarrow> string list \<Rightarrow> ('d, 'c) store \<Rightarrow>
   store_error option \<times> ('d, 'c) store" where
  "SaveMessageWithRecipients b msgp recipients s =
     (case msgp of
        None \<Rightarrow> (Some InvalidMessage, s)
      | Some msg \<Rightarrow>
          if ServerMsgID msg = [] then (Some InvalidMessage, s)
          else
            (let (err, s1) =
               (if persistent s then
                  (case save_tx b msg recipients (db s) of
                     (Some e, d) \<Rightarrow> (Some (StoreDB e), s\<lparr>db := d\<rparr>)
                   | (None, d) \<Rightarrow>
                       (None, s\<lparr>db := d, cache := cache_saved b msg recipients (cache s)\<rparr>))
                else (None, s))
             in case err of
               Some e \<Rightarrow> (Some e, s1)
             | None \<Rightarrow>
                 (None, fold (saveDeliveryUnsafe (ServerMsgID msg)) recipients
                          (saveMessageUnsafe msg s1))))"

definition SaveMessage ::
  "('d, 'c) backend \<Rightarrow> Message option \<Rightarrow> ('d, 'c) store \<Rightarrow> store_error option \<times> ('d, 'c) store" where
  "SaveMessage b msgp s = SaveMessageWithRecipients b msgp [] s"

definition byClient_lookup :: "('d, 'c) store \<Rightarrow> string \<Rightarrow> string \<Rightarrow> Message option" where
  "byClient_lookup s from clientMsgID =
     Option.bind (map_of (byClient s) from) (\<lambda>m. map_of m clientMsgID)"

definition GetMessageByClientID ::
  "('d, 'c) backend \<Rightarrow> string \<Rightarrow> string \<Rightarrow> ('d, 'c) store \<Rightarrow> Message option \<times> ('d, 'c) store" where
  "GetMessageByClientID b from clientMsgID s =
     (case (if from \<noteq> [] \<and> clientMsgID \<noteq> [] then byClient_lookup s from clientMsgID else None) of
        Some msg \<Rightarrow> (Some msg, s)
      | None \<Rightarrow>
          if \<not> persistent s \<or> from = [] \<or> clientMsgID = [] then (None, s)
          else
            (case t_take (messages_t (gorm b))
                    (\<lambda>row. coll (gorm b) (DM_SendID row) from \<and>
                           coll (gorm b) (DM_ClientMsgID row) clientMsgID) (db s) of
               (Inl _, d) \<Rightarrow> (None, s\<lparr>db := d\<rparr>)
             | (Inr row, d) \<Rightarrow>
                 (let msg = fromDBMessage row
                  in (Some msg, saveMessageUnsafe msg (s\<lparr>db := d\<rparr>)))))"

definition markRecipientRowsDeadIfMessageMissing ::
  "('d, 'c) backend \<Rightarrow> string \<Rightarrow> string \<Rightarrow> ('d, 'c) store \<Rightarrow> ('d, 'c) store" where
  "markRecipientRowsDeadIfMessageMissing b serverMsgID reason0 s =
     (if \<not> persistent s \<or> serverMsgID = [] then s
      else
        (let reason = (if reason0 = [] then ''message not found'' else reason0)
         in snd (update_recipients b
              (\<lambda>row. coll (gorm b) (DR_ServerMsgID row) serverMsgID \<and> DR_Status row = 0)
              (\<lambda>row. row\<lparr>DR_Status := 3, DR_LastError := reason, DR_NextRetryAt := None\<rparr>) s)))"

definition GetMessageByServerID ::
  "('d, 'c) backend \<Rightarrow> string \<Rightarrow> ('d, 'c) store \<Rightarrow> Message option \<times> ('d, 'c) store" where
  "GetMessageByServerID b serverMsgID s =
     (case map_of (messages s) serverMsgID of
        Some msg \<Rightarrow> (Some msg, s)
      | None \<Rightarrow>
          if \<not> persistent s \<or> serverMsgID = [] then (None, s)
          else
            (case t_take (messages_t (gorm b))
                    (\<lambda>row. coll (gorm b) (DM_ServerMsgID row) serverMsgID) (db s) of
               (Inl ErrRecordNotFound, d) \<Rightarrow>
                 (None, markRecipientRowsDeadIfMessageMissing b serverMsgID
                          ''message not found'' (s\<lparr>db := d\<rparr>))
             | (Inl (DBError _), d) \<Rightarrow> (None, s\<lparr>db := d\<rparr>)
             | (Inr row, d) \<Rightarrow>
                 (let msg = fromDBMessage row
                  in (Some msg, saveMessageUnsafe msg (s\<lparr>db := d\<rparr>)))))"

end
