(* ===== verification/Conn_Security.thy ===== *)
theory Conn_Security
  imports Go_Strings
begin

text \<open>
  Admission control of new TCP connections (\<open>internal/server/conn_security.go\<close>): the IP
  black list read from the environment, the client address, and the sliding-window rate
  limiter, with the fields of \<open>Server\<close> it owns. \<open>acceptLoop\<close> asks \<open>allowConnection\<close>
  once per connection.
\<close>

section \<open>State and operations\<close>

record conn_sec =
  BlacklistIPs :: "unit gomap"
  rateWindow :: int
  rateLimit :: int
  attempts :: "int list gomap"

text \<open>\<open>loadBlacklistFromEnv\<close>, on the value of \<open>IM_BLACKLIST_IPS\<close> (empty when unset).\<close>

fun add_blacklist :: "string list \<Rightarrow> unit gomap \<Rightarrow> unit gomap" where
  "add_blacklist [] out = out"
| "add_blacklist (item # items) out =
     (let ip = TrimSpace item
      in add_blacklist items (if ip \<noteq> [] then gput ip () out else out))"

definition loadBlacklistFromEnv :: "string \<Rightarrow> unit gomap" where
  "loadBlacklistFromEnv value =
     (let raw = TrimSpace value
      in if raw = [] then [] else add_blacklist (Split CHR '','' raw) [])"

text \<open>\<open>net.SplitHostPort\<close>: the host, or \<open>None\<close> for its error.\<close>

fun index_of :: "char \<Rightarrow> string \<Rightarrow> nat option" where
  "index_of c [] = None"
| "index_of c (x # xs) = (if x = c then Some 0 else map_option Suc (index_of c xs))"

definition last_index :: "char \<Rightarrow> string \<Rightarrow> nat option" where
  "last_index c s = map_option (\<lambda>k. length s - 1 - k) (index_of c (rev s))"

definition SplitHostPort :: "string \<Rightarrow> string option" where
  "SplitHostPort s =
     (case last_index CHR '':'' s of
        None \<Rightarrow> None
      | Some i \<Rightarrow>
          if HasPrefix s ''['' then
            (case index_of CHR '']'' s of
               None \<Rightarrow> None
             | Some e \<Rightarrow>
                 if e + 1 \<noteq> i then None
                 else if CHR ''['' \<in> set (drop 1 s) \<or> CHR '']'' \<in> set (drop (e + 1) s) then None
                 else Some (take (e - 1) (drop 1 s)))
          else if CHR '':'' \<in> set (take i s) then None
          else if CHR ''['' \<in> set s \<or> CHR '']'' \<in> set s then None
          else Some (take i s))"

text \<open>\<open>parseIP\<close>: a missing address is the empty string.\<close>

definition parseIP :: "string option \<Rightarrow> string" where
  "parseIP addr =
     (case addr of
        None \<Rightarrow> []
      | Some a \<Rightarrow> (case SplitHostPort a of None \<Rightarrow> a | Some host \<Rightarrow> host))"

datatype reject = Blacklisted | RateLimited

text \<open>
  \<open>allowConnection\<close>: \<open>None\<close> admits the connection, \<open>Some\<close> gives the reason it is
  refused for. The whole body runs under \<open>attemptsMu\<close>.
\<close>

definition allowConnection :: "rt \<Rightarrow> string \<Rightarrow> conn_sec \<Rightarrow> reject option \<times> conn_sec" where
  "allowConnection r ip s =
     (if ip = [] then (None, s)
      else if map_of (BlacklistIPs s) ip \<noteq> None then (Some Blacklisted, s)
      else
        (let now = clk r 0;
             cutoff = now + i64 (- rateWindow s);
             records = (case map_of (attempts s) ip of None \<Rightarrow> [] | Some ts \<Rightarrow> ts);
             filtered = filter (\<lambda>t. t > cutoff) records
         in if int (length filtered) \<ge> rateLimit s
            then (Some RateLimited, s\<lparr>attempts := gput ip filtered (attempts s)\<rparr>)
            else (None, s\<lparr>attempts := gput ip (filtered @ [now]) (attempts s)\<rparr>)))"

section \<open>Black list\<close>

lemma map_of_add_blacklist:
  "map_of (add_blacklist items out) ip \<noteq> None \<longleftrightarrow>
     map_of out ip \<noteq> None \<or> ip \<noteq> [] \<and> (\<exists>item \<in> set items. TrimSpace item = ip)"
  by (induction items arbitrary: out) (auto simp: Let_def)

text \<open>
  The black list holds exactly the trimmed, non-empty entries of the comma-separated
  value of \<open>IM_BLACKLIST_IPS\<close>, and a connection from such an address is refused whatever
  the limiter's state and the clock say, without being counted.
\<close>

theorem blacklist_refuses:
  assumes "BlacklistIPs s = loadBlacklistFromEnv value"
  shows "(fst (allowConnection r ip s) = Some Blacklisted \<longleftrightarrow>
       ip \<noteq> [] \<and> TrimSpace value \<noteq> [] \<and>
       (\<exists>item \<in> set (Split CHR '','' (TrimSpace value)). TrimSpace item = ip)) \<and>
     (fst (allowConnection r ip s) = Some Blacklisted \<longrightarrow> snd (allowConnection r ip s) = s)"
proof -
  have "map_of (BlacklistIPs s) ip \<noteq> None \<longleftrightarrow> TrimSpace value \<noteq> [] \<and> ip \<noteq> [] \<and>
     (\<exists>item \<in> set (Split CHR '','' (TrimSpace value)). TrimSpace item = ip)"
    by (simp add: assms loadBlacklistFromEnv_def Let_def map_of_add_blacklist del: not_None_eq)
  then show ?thesis by (auto simp: allowConnection_def Let_def)
qed

theorem blacklist_refuses_witness:
  "let s = \<lparr>BlacklistIPs = loadBlacklistFromEnv '' 10.0.0.1 ,, ::1'', rateWindow = 60 * second,
            rateLimit = 30, attempts = []\<rparr>;
       r = \<lparr>clk = (\<lambda>_. 0), rng = id\<rparr> in
   fst (allowConnection r ''::1'' s) = Some Blacklisted \<and>
   snd (allowConnection r ''::1'' s) = s"
proof -
  let ?s = "\<lparr>BlacklistIPs = loadBlacklistFromEnv '' 10.0.0.1 ,, ::1'', rateWindow = 60 * second,
            rateLimit = 30, attempts = []\<rparr>"
  let ?r = "\<lparr>clk = (\<lambda>_. 0), rng = id\<rparr>"
  have "fst (allowConnection ?r ''::1'' ?s) = Some Blacklisted" by code_simp
  with blacklist_refuses [of ?s "'' 10.0.0.1 ,, ::1''" ?r "''::1''"]
  show ?thesis unfolding Let_def by simp
qed

section \<open>The rate limiter\<close>

text \<open>A history of connection attempts: what the limiter admits, and its final state.\<close>

fun admit_run :: "(int \<times> string) list \<Rightarrow> conn_sec \<Rightarrow> (int \<times> string) list \<times> conn_sec" where
  "admit_run [] s = ([], s)"
| "admit_run ((t, ip) # es) s =
     (case allowConnection \<lparr>clk = (\<lambda>_. t), rng = id\<rparr> ip s of (rej, s') \<Rightarrow>
      case admit_run es s' of (adm, s'') \<Rightarrow>
        ((if rej = None then (t, ip) # adm else adm), s''))"

definition admitted_in :: "int \<Rightarrow> int \<Rightarrow> int list \<Rightarrow> nat" where
  "admitted_in w t ts = length (filter (\<lambda>x. t - w < x \<and> x \<le> t) ts)"

definition recs :: "conn_sec \<Rightarrow> string \<Rightarrow> int list" where
  "recs s ip = (case map_of (attempts s) ip of None \<Rightarrow> [] | Some ts \<Rightarrow> ts)"

text \<open>
  Invariant for one address: above every cutoff from \<open>c\<close> on, the limiter's records are the
  admissions \<open>adm\<close> made so far, and no window holds more admissions than the limit.
\<close>

definition rate_inv :: "conn_sec \<Rightarrow> string \<Rightarrow> int list \<Rightarrow> int \<Rightarrow> bool" where
  "rate_inv s ip adm c \<longleftrightarrow>
     filter (\<lambda>x. c < x) (recs s ip) = filter (\<lambda>x. c < x) adm \<and>
     (\<forall>t. int (admitted_in (rateWindow s) t adm) \<le> rateLimit s)"

definition window_ok :: "conn_sec \<Rightarrow> bool" where
  "window_ok s \<longleftrightarrow> 0 < rateWindow s \<and> rateWindow s < 2 ^ 63"

lemma allowConnection_frame:
  "rateWindow (snd (allowConnection r ip s)) = rateWindow s \<and>
   rateLimit (snd (allowConnection r ip s)) = rateLimit s \<and>
   (j \<noteq> ip \<longrightarrow> recs (snd (allowConnection r ip s)) j = recs s j)"
  by (auto simp: allowConnection_def Let_def recs_def)

lemma allowConnection_admitD:
  assumes "fst (allowConnection r ip s) = None" and "ip \<noteq> []" and "window_ok s"
  shows "int (length (filter (\<lambda>x. clk r 0 - rateWindow s < x) (recs s ip))) < rateLimit s \<and>
    recs (snd (allowConnection r ip s)) ip =
      filter (\<lambda>x. clk r 0 - rateWindow s < x) (recs s ip) @ [clk r 0]"
proof -
  have "i64 (- rateWindow s) = - rateWindow s"
    using assms(3) by (intro i64_exact) (auto simp: window_ok_def)
  with assms show ?thesis
    by (auto simp: allowConnection_def Let_def recs_def not_le split: if_splits)
qed

lemma allowConnection_rejectD:
  assumes "fst (allowConnection r ip s) \<noteq> None" and "window_ok s"
  shows "recs (snd (allowConnection r ip s)) ip = recs s ip \<or>
    recs (snd (allowConnection r ip s)) ip = filter (\<lambda>x. clk r 0 - rateWindow s < x) (recs s ip)"
proof -
  have "i64 (- rateWindow s) = - rateWindow s"
    using assms(2) by (intro i64_exact) (auto simp: window_ok_def)
  with assms show ?thesis
    by (auto simp: allowConnection_def Let_def recs_def split: if_splits)
qed

lemma filter_above_mono:
  "(c::int) \<le> d \<Longrightarrow> filter (\<lambda>x. c < x) xs = filter (\<lambda>x. c < x) ys \<Longrightarrow>
   filter (\<lambda>x. d < x) xs = filter (\<lambda>x. d < x) ys"
proof -
  assume "c \<le> d" and eq: "filter (\<lambda>x. c < x) xs = filter (\<lambda>x. c < x) ys"
  then have "filter (\<lambda>x. d < x) zs = filter (\<lambda>x. d < x) (filter (\<lambda>x. c < x) zs)" for zs
    by (auto intro: filter_cong)
  with eq show ?thesis by metis
qed

lemma filter_filter_idem [simp]: "filter P (filter P xs) = filter P xs"
  by (simp add: filter_filter)

lemma rate_inv_step:
  assumes inv: "rate_inv s ip adm c" and ip: "ip \<noteq> []" and ok: "window_ok s"
    and c: "c \<le> clk r 0 - rateWindow s" and past: "\<forall>x \<in> set adm. x \<le> clk r 0"
  shows "rate_inv (snd (allowConnection r j s)) ip
    (adm @ (if j = ip \<and> fst (allowConnection r j s) = None then [clk r 0] else []))
    (clk r 0 - rateWindow s)"
proof -
  let ?s' = "snd (allowConnection r j s)" and ?c = "clk r 0 - rateWindow s" and ?t = "clk r 0"
  have W: "rateWindow ?s' = rateWindow s" "rateLimit ?s' = rateLimit s"
    using allowConnection_frame [of r j s] by auto
  have same: "filter (\<lambda>x. ?c < x) (recs s ip) = filter (\<lambda>x. ?c < x) adm"
    using c inv by (auto simp: rate_inv_def intro: filter_above_mono)
  have win: "int (admitted_in (rateWindow s) t adm) \<le> rateLimit s" for t
    using inv by (simp add: rate_inv_def)
  show ?thesis
  proof (cases "j = ip \<and> fst (allowConnection r j s) = None")
    case False
    then have "filter (\<lambda>x. ?c < x) (recs ?s' ip) = filter (\<lambda>x. ?c < x) (recs s ip)"
      using allowConnection_frame [of r j s ip] allowConnection_rejectD [OF _ ok, of r ip] by auto
    with False same win W show ?thesis by (auto simp: rate_inv_def)
  next
    case True
    then have few: "int (length (filter (\<lambda>x. ?c < x) adm)) < rateLimit s"
      and new: "recs ?s' ip = filter (\<lambda>x. ?c < x) adm @ [?t]"
      using allowConnection_admitD [of r ip s] ip ok same by auto
    have "int (admitted_in (rateWindow s) t (adm @ [?t])) \<le> rateLimit s" for t
    proof (cases "?t \<le> t")
      case False
      then show ?thesis using win [of t] by (simp add: admitted_in_def)
    next
      case True
      have "length (filter (\<lambda>x. t - rateWindow s < x \<and> x \<le> t) adm)
          \<le> length (filter (\<lambda>x. ?c < x) adm)"
        using True by (induction adm) auto
      then show ?thesis using few by (simp add: admitted_in_def)
    qed
    with True new W ok show ?thesis by (auto simp: rate_inv_def window_ok_def)
  qed
qed

lemma rate_inv_run:
  assumes "rate_inv s ip adm c" and "ip \<noteq> []" and "window_ok s" and "sorted (map fst es)"
    and "\<forall>x \<in> set adm. \<forall>e \<in> set es. x \<le> fst e" and "\<forall>e \<in> set es. c \<le> fst e - rateWindow s"
  shows "int (admitted_in (rateWindow s) t
    (adm @ map fst (filter (\<lambda>e. snd e = ip) (fst (admit_run es s))))) \<le> rateLimit s"
  using assms
proof (induction es arbitrary: s adm c)
  case Nil
  then show ?case by (simp add: rate_inv_def)
next
  case (Cons e es)
  obtain u j where e: "e = (u, j)" by force
  let ?r = "\<lparr>clk = (\<lambda>_. u), rng = id\<rparr>"
  let ?s' = "snd (allowConnection ?r j s)"
  let ?adm' = "adm @ (if j = ip \<and> fst (allowConnection ?r j s) = None then [u] else [])"
  have W: "rateWindow ?s' = rateWindow s" "rateLimit ?s' = rateLimit s"
    using allowConnection_frame [of ?r j s] by auto
  have "rate_inv ?s' ip ?adm' (u - rateWindow s)"
    using rate_inv_step [OF Cons.prems(1-3), of ?r j] Cons.prems(5,6) e by (simp cong: if_cong)
  then have "int (admitted_in (rateWindow ?s') t
      (?adm' @ map fst (filter (\<lambda>e. snd e = ip) (fst (admit_run es ?s'))))) \<le> rateLimit ?s'"
    using Cons.prems e W
    by (intro Cons.IH [where c = "u - rateWindow s"]) (auto simp: window_ok_def split: if_splits)
  then show ?case using W e
    by (auto simp: split_beta split: if_splits)
qed

text \<open>
  C30: the limiter keeps its promise over every history of connection attempts with a
  non-decreasing clock: from one address, no window of length \<open>rateWindow\<close> ever holds more
  than \<open>rateLimit\<close> admitted connections, whatever other addresses do in between.
\<close>

theorem rate_limit_respected:
  assumes "ip \<noteq> []" and "attempts s = []" and "window_ok s" and "0 \<le> rateLimit s"
    and "sorted (map fst es)"
  shows "int (admitted_in (rateWindow s) t
    (map fst (filter (\<lambda>e. snd e = ip) (fst (admit_run es s))))) \<le> rateLimit s"
proof -
  obtain c where c: "\<forall>e \<in> set es. c \<le> fst e - rateWindow s"
  proof (cases es)
    case (Cons e es')
    have "\<forall>e' \<in> set es. fst e - rateWindow s \<le> fst e' - rateWindow s"
      using assms(5) Cons by auto
    then show ?thesis by (rule that)
  qed simp
  have "rate_inv s ip [] c"
    using assms(2,4) by (simp add: rate_inv_def recs_def admitted_in_def)
  from rate_inv_run [OF this assms(1,3,5) _ c] show ?thesis by simp
qed

theorem rate_limit_respected_witness:
  "let s = \<lparr>BlacklistIPs = [], rateWindow = 10, rateLimit = 2, attempts = []\<rparr>;
       es = [(1, ''a''), (2, ''b''), (3, ''a''), (4, ''a''), (11, ''a''), (12, ''a'')] in
   fst (admit_run es s) = [(1, ''a''), (2, ''b''), (3, ''a''), (11, ''a'')] \<and>
   int (admitted_in (rateWindow s) 11
     (map fst (filter (\<lambda>e. snd e = ''a'') (fst (admit_run es s))))) \<le> rateLimit s"
proof -
  let ?s = "\<lparr>BlacklistIPs = [], rateWindow = 10, rateLimit = 2, attempts = []\<rparr>"
  let ?es = "[(1, ''a''), (2, ''b''), (3, ''a''), (4, ''a''), (11, ''a''), (12, ''a'')]"
  have "fst (admit_run ?es ?s) = [(1, ''a''), (2, ''b''), (3, ''a''), (11, ''a'')]" by code_simp
  with rate_limit_respected [of "''a''" ?s ?es 11]
  show ?thesis unfolding Let_def by (simp add: window_ok_def)
qed

end
