(* ===== verification/Config.thy ===== *)
theory Config
  imports Conn_Security
begin

text \<open>
  Configuration: numbers read from the environment (\<open>strconv\<close>), the \<open>.env.local\<close> loader
  (\<open>internal/utils/env.go\<close>), and the settings that \<open>main.go\<close>, \<open>NewServer\<close> and
  \<open>internal/cache/redis.go\<close> derive from environment variables.
\<close>

section \<open>Numbers\<close>

definition all_digits :: "string \<Rightarrow> bool" where
  "all_digits s \<longleftrightarrow> s \<noteq> [] \<and> list_all (\<lambda>c. CHR ''0'' \<le> c \<and> c \<le> CHR ''9'') s"

text \<open>\<open>strconv.Atoi\<close> on a 64-bit machine: an optional sign and digits, in range.\<close>

definition Atoi :: "string \<Rightarrow> int option" where
  "Atoi s =
     (let (neg, ds) = (if HasPrefix s ''-'' then (True, drop 1 s)
                       else if HasPrefix s ''+'' then (False, drop 1 s) else (False, s));
          n = (if neg then - int (decimal ds) else int (decimal ds))
      in if all_digits ds \<and> - (2 ^ 63) \<le> n \<and> n < 2 ^ 63 then Some n else None)"

text \<open>\<open>strconv.ParseUint(s, 10, 64)\<close>.\<close>

definition ParseUint :: "string \<Rightarrow> nat option" where
  "ParseUint s = (if all_digits s \<and> decimal s < 2 ^ 64 then Some (decimal s) else None)"

lemma digit_bounds: "d < 10 \<Longrightarrow> CHR ''0'' \<le> digit d \<and> digit d \<le> CHR ''9''"
  by (simp add: less_eq_char_def digit_def)

lemma all_digits_itoa [simp]: "all_digits (itoa n)"
proof (induction n rule: itoa.induct)
  case (1 n)
  then show ?case
    by (cases "n < 10") (auto simp: itoa.simps[of n] all_digits_def digit_bounds)
qed

lemma digits_no_sign: "all_digits ds \<Longrightarrow> \<not> HasPrefix ds ''-'' \<and> \<not> HasPrefix ds ''+''"
  by (cases ds) (auto simp: all_digits_def HasPrefix_def less_eq_char_def)

lemma Atoi_itoa_int:
  assumes "- (2 ^ 63) \<le> n" and "n < 2 ^ 63"
  shows "Atoi (itoa_int n) = Some n"
proof (cases "n < 0")
  case True
  then have "itoa_int n = CHR ''-'' # itoa (nat (- n))" by (simp add: itoa_int_def)
  then show ?thesis using True assms by (simp add: Atoi_def HasPrefix_def)
next
  case False
  then show ?thesis
    using assms digits_no_sign[OF all_digits_itoa, of "nat n"] by (simp add: Atoi_def itoa_int_def)
qed

lemma ParseUint_itoa: "n < 2 ^ 64 \<Longrightarrow> ParseUint (itoa n) = Some n"
  by (simp add: ParseUint_def)

section \<open>Environment files (env.go)\<close>

type_synonym env = "string gomap"

text \<open>\<open>os.Setenv\<close>, whose error the loader ignores: a name or value with a NUL is refused.\<close>

definition Setenv :: "string \<Rightarrow> string \<Rightarrow> env \<Rightarrow> env" where
  "Setenv key val e =
     (if key = [] \<or> CHR ''='' \<in> set key \<or> CHR 0x00 \<in> set key \<or> CHR 0x00 \<in> set val then e
      else gput key val e)"

definition Getenv :: "env \<Rightarrow> string \<Rightarrow> string" where
  "Getenv e key = (case map_of e key of None \<Rightarrow> [] | Some v \<Rightarrow> v)"

definition unquote :: "string \<Rightarrow> string" where
  "unquote v =
     (if length v \<ge> 2 \<and> (hd v = CHR 0x22 \<and> last v = CHR 0x22 \<or> hd v = CHR 0x27 \<and> last v = CHR 0x27)
      then butlast (tl v) else v)"

text \<open>The loop body for one line: the assignment it makes, if any.\<close>

definition env_binding :: "string \<Rightarrow> (string \<times> string) option" where
  "env_binding text =
     (let line0 = TrimSpace text in
      if line0 = [] \<or> HasPrefix line0 ''#'' then None
      else
        (let line = (if HasPrefix line0 ''export '' then TrimSpace (drop 7 line0) else line0) in
         case SplitN CHR ''='' 2 line of
           [k, v] \<Rightarrow> (let key = TrimSpace k in
                      if key = [] then None else Some (key, unquote (TrimSpace v)))
         | _ \<Rightarrow> None))"

definition env_line :: "string \<Rightarrow> env \<Rightarrow> env" where
  "env_line text e =
     (case env_binding text of
        None \<Rightarrow> e
      | Some (key, val) \<Rightarrow> (if map_of e key \<noteq> None then e else Setenv key val e))"

text \<open>
  \<open>bufio.Scanner\<close> with the default split function: lines without their end-of-line, a last
  line without one included; a line that does not fit the 64 KiB buffer ends the scan.
\<close>

function scan_lines :: "string \<Rightarrow> string list" where
  "scan_lines s =
     (case cut_at CHR 0x0A s of
        (a, None) \<Rightarrow> (if a = [] \<or> length a \<ge> 65536 then [] else [drop_cr a])
      | (a, Some rest) \<Rightarrow> (if length a \<ge> 65536 then [] else drop_cr a # scan_lines rest))"
  by auto
termination
  by (relation "measure length") (auto dest!: sym[of _ "cut_at _ _"] simp: cut_at_Some)

declare scan_lines.simps [simp del]

text \<open>\<open>loadOneEnvFileIfUnset\<close>: \<open>None\<close> is a file that cannot be opened.\<close>

definition loadOneEnvFileIfUnset :: "string option \<Rightarrow> env \<Rightarrow> env" where
  "loadOneEnvFileIfUnset file e =
     (case file of None \<Rightarrow> e | Some content \<Rightarrow> fold env_line (scan_lines content) e)"

definition LoadEnvFilesIfUnset :: "string option list \<Rightarrow> env \<Rightarrow> env" where
  "LoadEnvFilesIfUnset files e = fold loadOneEnvFileIfUnset files e"

lemma env_line_keeps: "map_of e key = Some v \<Longrightarrow> map_of (env_line text e) key = Some v"
  by (auto simp: env_line_def Setenv_def split: option.splits)

lemma env_lines_keep: "map_of e key = Some v \<Longrightarrow> map_of (fold env_line ls e) key = Some v"
  by (induction ls arbitrary: e) (simp_all add: env_line_keeps)

lemma load_keeps:
  "map_of e key = Some v \<Longrightarrow> map_of (LoadEnvFilesIfUnset files e) key = Some v"
  unfolding LoadEnvFilesIfUnset_def
  by (induction files arbitrary: e)
    (auto simp: loadOneEnvFileIfUnset_def env_lines_keep split: option.split)

text \<open>
  Environment files never override: a variable that is set keeps its value, however many
  files are loaded and whatever they contain; an unset variable gets the first binding of a
  file, and later lines that name it again are ignored.
\<close>

theorem env_files_never_override:
  assumes "map_of e key = Some v"
  shows "map_of (LoadEnvFilesIfUnset files e) key = Some v \<and>
    (env_binding text = Some (key', v') \<and> map_of e key' = None \<and>
       CHR ''='' \<notin> set key' \<and> CHR 0x00 \<notin> set key' \<and> CHR 0x00 \<notin> set v' \<and> key' \<noteq> [] \<longrightarrow>
     map_of (fold env_line (text # later) e) key' = Some v')"
proof (intro conjI impI)
  show "map_of (LoadEnvFilesIfUnset files e) key = Some v" by (rule load_keeps[OF assms])
  assume new: "env_binding text = Some (key', v') \<and> map_of e key' = None \<and>
       CHR ''='' \<notin> set key' \<and> CHR 0x00 \<notin> set key' \<and> CHR 0x00 \<notin> set v' \<and> key' \<noteq> []"
  then have "map_of (env_line text e) key' = Some v'"
    by (simp add: env_line_def Setenv_def)
  then show "map_of (fold env_line (text # later) e) key' = Some v'"
    by (simp add: env_lines_keep)
qed

theorem env_files_never_override_witness:
  "map_of (LoadEnvFilesIfUnset [Some ''IM_DB_DSN=x'', None] [(''IM_DB_DSN'', ''root'')]) ''IM_DB_DSN'' =
     Some ''root''"
  using env_files_never_override[of "[(''IM_DB_DSN'', ''root'')]" "''IM_DB_DSN''" "''root''"] by simp

section \<open>Settings\<close>

text \<open>\<open>if v := os.Getenv(name); v != "" { if n, err := strconv.Atoi(v); err == nil && n > 0 ... } }\<close>\<close>

definition positive_setting :: "string \<Rightarrow> int \<Rightarrow> int" where
  "positive_setting v dflt =
     (if v = [] then dflt
      else case Atoi v of Some n \<Rightarrow> (if n > 0 then n else dflt) | None \<Rightarrow> dflt)"

text \<open>The same, scaled to a \<open>time.Duration\<close>; the product wraps.\<close>

definition seconds_setting :: "string \<Rightarrow> int \<Rightarrow> int" where
  "seconds_setting v dflt =
     (if v = [] then dflt
      else case Atoi v of Some n \<Rightarrow> (if n > 0 then i64 (n * second) else dflt) | None \<Rightarrow> dflt)"

definition max_retry_setting :: "env \<Rightarrow> int" where
  "max_retry_setting e = positive_setting (Getenv e ''IM_MAX_RETRY'') 5"

definition retry_delay_setting :: "env \<Rightarrow> int" where
  "retry_delay_setting e = seconds_setting (Getenv e ''IM_RETRY_DELAY_SEC'') (2 * second)"

definition OnlineTTL :: "env \<Rightarrow> int" where
  "OnlineTTL e = seconds_setting (TrimSpace (Getenv e ''IM_USER_ONLINE_TTL_SEC'')) (60 * second)"

text \<open>The host name is a parameter: \<open>None\<close> when \<open>os.Hostname\<close> fails.\<close>

definition GatewayID :: "string option \<Rightarrow> env \<Rightarrow> string" where
  "GatewayID hostname e =
     (let i = TrimSpace (Getenv e ''IM_GATEWAY_ID'') in
      if i \<noteq> [] then i else case hostname of Some h \<Rightarrow> h | None \<Rightarrow> ''unknown'')"

text \<open>The connection limits that \<open>NewServer\<close> reads.\<close>

definition new_conn_sec :: "env \<Rightarrow> conn_sec" where
  "new_conn_sec e =
     \<lparr>BlacklistIPs = loadBlacklistFromEnv (Getenv e ''IM_BLACKLIST_IPS''),
      rateWindow = seconds_setting (TrimSpace (Getenv e ''IM_CONN_RATE_WINDOW_SEC'')) (60 * second),
      rateLimit = positive_setting (TrimSpace (Getenv e ''IM_CONN_RATE_LIMIT'')) 30,
      attempts = []\<rparr>"

lemma positive_setting_pos: "0 < dflt \<Longrightarrow> 0 < positive_setting v dflt"
  by (simp add: positive_setting_def split: option.split)

text \<open>Digits are not trimmed.\<close>

lemma lead_other: "c \<notin> hd ` set ps \<Longrightarrow> lead ps (c # s) = 0"
  by (induction ps) (auto simp: HasPrefix_def, metis list.sel(1) take_Cons' length_0_conv)

lemma spaces_no_digits:
  "list_all (\<lambda>p. \<not> (CHR ''0'' \<le> hd p \<and> hd p \<le> CHR ''9'') \<and> \<not> (CHR ''0'' \<le> hd (rev p) \<and> hd (rev p) \<le> CHR ''9''))
     space_encodings"
  by code_simp

lemma TrimSpace_digits:
  assumes "all_digits s"
  shows "TrimSpace s = s"
proof -
  have digit: "CHR ''0'' \<le> c \<and> c \<le> CHR ''9''" if "c \<in> set s" for c
    using assms that by (auto simp: all_digits_def list_all_iff)
  have front: "lead ps u = 0"
    if ps: "ps = space_encodings \<or> ps = map rev space_encodings" and ne: "u \<noteq> []" and sub: "set u \<subseteq> set s" for ps u
  proof -
    obtain c v where u: "u = c # v" using ne by (cases u) auto
    then have "CHR ''0'' \<le> c \<and> c \<le> CHR ''9''" using digit[of c] sub by simp
    then have "c \<notin> hd ` set ps" using ps spaces_no_digits by (auto simp: list_all_iff)
    then show ?thesis unfolding u by (rule lead_other)
  qed
  have ne: "s \<noteq> []" using assms by (simp add: all_digits_def)
  have "TrimLeft s = s" unfolding TrimLeft_def by (rule strip_stop) (rule front, use ne in simp_all)
  moreover have "strip (map rev space_encodings) (rev s) = rev s" by (rule strip_stop) (rule front, use ne in simp_all)
  ultimately show ?thesis by (simp add: TrimSpace_def TrimRight_def)
qed

lemma seconds_setting_number:
  assumes "0 < n" and "n < 2 ^ 63"
  shows "seconds_setting (itoa_int n) dflt = i64 (n * second)"
proof -
  have "itoa_int n \<noteq> []" using assms all_digits_itoa[of "nat n"] by (auto simp: itoa_int_def all_digits_def)
  then show ?thesis using assms by (simp add: seconds_setting_def Atoi_itoa_int)
qed

lemma TrimSpace_number: "0 < n \<Longrightarrow> TrimSpace (itoa_int n) = itoa_int n"
  by (simp add: itoa_int_def TrimSpace_digits)

text \<open>
  C33: the numeric settings. Whatever the environment holds, the maximum number of attempts and the connection limit
  are at least 1. Each of the three settings in seconds, the retry delay, the online
  time-to-live and the connection window, when set to a positive number that fits 63 bits, is that number times
  $10^9$ in 64-bit arithmetic without a check: the exact duration for numbers up to 9223372036,
  and a negative one from there up to 18446744073. For a negative online time-to-live
  \<open>time.NewTicker\<close> panics in the heartbeat.
\<close>

theorem settings_in_range:
  assumes "0 < n" and "n < 2 ^ 63"
  shows "1 \<le> max_retry_setting e \<and> 1 \<le> rateLimit (new_conn_sec e) \<and>
    retry_delay_setting (gput ''IM_RETRY_DELAY_SEC'' (itoa_int n) e) = i64 (n * second) \<and>
    OnlineTTL (gput ''IM_USER_ONLINE_TTL_SEC'' (itoa_int n) e) = i64 (n * second) \<and>
    rateWindow (new_conn_sec (gput ''IM_CONN_RATE_WINDOW_SEC'' (itoa_int n) e)) = i64 (n * second) \<and>
    (n \<le> 9223372036 \<longrightarrow> i64 (n * second) = n * second) \<and>
    (9223372036 < n \<and> n \<le> 18446744073 \<longrightarrow> i64 (n * second) < 0)"
proof (intro conjI impI)
  show "1 \<le> max_retry_setting e" and "1 \<le> rateLimit (new_conn_sec e)"
    using positive_setting_pos[of 5] positive_setting_pos[of 30]
    by (simp_all add: max_retry_setting_def new_conn_sec_def int_one_le_iff_zero_less)
  show "retry_delay_setting (gput ''IM_RETRY_DELAY_SEC'' (itoa_int n) e) = i64 (n * second)"
    using assms by (simp add: retry_delay_setting_def Getenv_def seconds_setting_number)
  show "OnlineTTL (gput ''IM_USER_ONLINE_TTL_SEC'' (itoa_int n) e) = i64 (n * second)"
    using assms by (simp add: OnlineTTL_def Getenv_def TrimSpace_number seconds_setting_number)
  show "rateWindow (new_conn_sec (gput ''IM_CONN_RATE_WINDOW_SEC'' (itoa_int n) e)) = i64 (n * second)"
    using assms by (simp add: new_conn_sec_def Getenv_def TrimSpace_number seconds_setting_number)
  show "i64 (n * second) = n * second" if "n \<le> 9223372036"
    using that assms(1) by (simp add: i64_def)
  show "i64 (n * second) < 0" if "9223372036 < n \<and> n \<le> 18446744073"
  proof -
    have n: "2 ^ 63 \<le> n * second" "n * second < 2 ^ 64" using that by simp_all
    then have "(n * second + 2 ^ 63) mod 2 ^ 64 = n * second + 2 ^ 63 - 2 ^ 64"
      by (subst minus_mod_self2[symmetric]) (rule mod_pos_pos_trivial, simp_all)
    then show ?thesis using n by (simp add: i64_def)
  qed
qed

theorem settings_in_range_witness:
  "retry_delay_setting (gput ''IM_RETRY_DELAY_SEC'' (itoa_int 7) []) = 7 * second \<and>
   OnlineTTL (gput ''IM_USER_ONLINE_TTL_SEC'' (itoa_int 9223372037) []) < 0"
  using settings_in_range[of 7 "[]"] settings_in_range[of 9223372037 "[]"] by simp

end
