(* ===== verification/Sample_Backend.thy ===== *)
theory Sample_Backend
  imports Backends
begin

text \<open>
  A concrete backend: tables as lists of rows with unique keys and ascending ids, transactions
  that roll back, and a key-value cache. It is not a model of MySQL or Redis; it shows that what
  theorems ask of a backend can hold, and it runs the model on concrete inputs.
\<close>

record tables =
  msg_rows :: "db_message list"
  recip_rows :: "db_recipient list"
  user_rows :: "db_user list"

definition no_tables :: tables where
  "no_tables = \<lparr>msg_rows = [], recip_rows = [], user_rows = []\<rparr>"

text \<open>A table, given by the access to its rows, its unique key and the assignment of an id.\<close>

definition list_table ::
  "(tables \<Rightarrow> 'r list) \<Rightarrow> ('r list \<Rightarrow> tables \<Rightarrow> tables) \<Rightarrow> ('r \<Rightarrow> 'r \<Rightarrow> bool) \<Rightarrow> (nat \<Rightarrow> 'r \<Rightarrow> 'r) \<Rightarrow>
   (tables, 'r) table" where
  "list_table get put clash set_id =
     (let insert_row = (\<lambda>row d. put (get d @ [set_id (Suc (length (get d))) row]) d) in
      \<lparr>t_create = (\<lambda>row d.
         if list_ex (clash row) (get d) then (Inl (DBError ''Duplicate entry''), d)
         else (Inr (set_id (Suc (length (get d))) row), insert_row row d)),
       t_create_ignore = (\<lambda>row d.
         if list_ex (clash row) (get d) then (None, d) else (None, insert_row row d)),
       t_find = (\<lambda>w ord lim off d.
         (let hits = filter w (get d);
              sorted_hits = (case ord of Unordered \<Rightarrow> hits | Asc k \<Rightarrow> sort_key k hits
                             | Desc k \<Rightarrow> sort_key (\<lambda>x. - k x) hits);
              from = (case off of None \<Rightarrow> sorted_hits | Some n \<Rightarrow> drop n sorted_hits)
          in (Inr (case lim of None \<Rightarrow> from | Some n \<Rightarrow> take n from), d))),
       t_take = (\<lambda>w d. (case filter w (get d) of [] \<Rightarrow> Inl ErrRecordNotFound | x # _ \<Rightarrow> Inr x, d)),
       t_first = (\<lambda>w d. (case filter w (get d) of [] \<Rightarrow> Inl ErrRecordNotFound | x # _ \<Rightarrow> Inr x, d)),
       t_update = (\<lambda>w f d. (Inr (length (filter w (get d))),
                             put (map (\<lambda>x. if w x then f x else x) (get d)) d))\<rparr>)"

definition sample_db :: "tables gorm_db" where
  "sample_db =
     \<lparr>coll = (=),
      messages_t = list_table msg_rows (\<lambda>xs d. d\<lparr>msg_rows := xs\<rparr>)
        (\<lambda>x y. DM_ServerMsgID x = DM_ServerMsgID y \<or>
           DM_SendID x = DM_SendID y \<and> DM_ClientMsgID x = DM_ClientMsgID y)
        (\<lambda>i x. x\<lparr>DM_ID := i\<rparr>),
      recipients_t = list_table recip_rows (\<lambda>xs d. d\<lparr>recip_rows := xs\<rparr>)
        (\<lambda>x y. DR_ServerMsgID x = DR_ServerMsgID y \<and> DR_ToUser x = DR_ToUser y)
        (\<lambda>i x. x\<lparr>DR_ID := i\<rparr>),
      users_t = list_table user_rows (\<lambda>xs d. d\<lparr>user_rows := xs\<rparr>)
        (\<lambda>x y. DU_UserName x = DU_UserName y) (\<lambda>i x. x\<lparr>DU_ID := i\<rparr>),
      max_seq = (\<lambda>w d. (Inr (fold (\<lambda>x m. max (DM_Seq x) m) (filter w (msg_rows d)) 0), d)),
      count_status = (\<lambda>d.
        (Inr (map (\<lambda>k. (k, int (length (filter (\<lambda>x. DR_Status x = k) (recip_rows d)))))
               (remdups (map DR_Status (recip_rows d)))), d)),
      transaction = (\<lambda>body d.
        (case body d of (None, d') \<Rightarrow> (None, d') | (Some e, _) \<Rightarrow> (Some e, d)))\<rparr>"

definition sample_redis :: "(string \<times> string) list redis" where
  "sample_redis =
     \<lparr>r_get = (\<lambda>k c. (map_of c k, c)), r_set = (\<lambda>k v ttl c. gput k v c),
      r_del = (\<lambda>k c. gdel k c)\<rparr>"

definition sample_backend :: "(tables, (string \<times> string) list) backend" where
  "sample_backend = \<lparr>gorm = sample_db, client = Some sample_redis\<rparr>"

text \<open>A clock that stands still and an iteration in insertion order.\<close>

definition sample_rt :: "int \<Rightarrow> rt" where
  "sample_rt t = \<lparr>clk = (\<lambda>_. t), rng = (\<lambda>ks. ks)\<rparr>"

lemma range_ok_sample [simp]: "range_ok (sample_rt t)"
  by (simp add: range_ok_def sample_rt_def)

lemmas sample_defs = no_tables_def list_table_def sample_db_def sample_redis_def
  sample_backend_def sample_rt_def

end
