(* ===== verification/Dao.thy ===== *)
theory Dao
  imports Mem_Store Config Sample_Backend
begin

text \<open>
  Database access objects (\<open>internal/dao\<close>): user accounts with their cache, and the direct
  queries on messages and recipients. They work on the database and the cache that the store
  also uses; \<open>storage.DB == nil\<close> is the store's \<open>persistent\<close> flag being off. The JSON form
  of a user row in the cache is a parameter of the model.
\<close>

datatype dao_error = NilArgument | DBNotInitialized | EmptyID | Gorm db_error

text \<open>\<open>json.Marshal\<close> and \<open>json.Unmarshal\<close> of a \<open>storage.User\<close>.\<close>

record user_json =
  enc_user :: "db_user \<Rightarrow> string option"
  dec_user :: "string \<Rightarrow> db_user option"

definition new_user :: "string \<Rightarrow> string \<Rightarrow> db_user" where
  "new_user name hash = \<lparr>DU_ID = 0, DU_UserName = name, DU_PasswordHash = hash, DU_NickName = [],
     DU_AvatarURL = [], DU_Status = 0, DU_CreateTime = zero_time, DU_UpdateTime = zero_time\<rparr>"

definition cache_user ::
  "('d, 'c) backend \<Rightarrow> user_json \<Rightarrow> string \<Rightarrow> db_user \<Rightarrow> ('d, 'c) store \<Rightarrow> ('d, 'c) store" where
  "cache_user b j name u s =
     (case (client b, enc_user j u) of
        (Some rd, Some t) \<Rightarrow> s\<lparr>cache := r_set rd (UserKey name) t (1800 * second) (cache s)\<rparr>
      | _ \<Rightarrow> s)"

section \<open>Users (user.go)\<close>

definition CreateUser ::
  "('d, 'c) backend \<Rightarrow> user_json \<Rightarrow> db_user option \<Rightarrow> ('d, 'c) store \<Rightarrow>
   dao_error option \<times> ('d, 'c) store" where
  "CreateUser b j userp s =
     (case userp of
        None \<Rightarrow> (Some NilArgument, s)
      | Some user \<Rightarrow>
          if \<not> persistent s then (Some DBNotInitialized, s)
          else case t_create (users_t (gorm b)) user (db s) of
            (Inl e, d) \<Rightarrow> (Some (Gorm e), s\<lparr>db := d\<rparr>)
          | (Inr row, d) \<Rightarrow> (None, cache_user b j (DU_UserName row) row (s\<lparr>db := d\<rparr>)))"

definition GetUserByID ::
  "('d, 'c) backend \<Rightarrow> nat \<Rightarrow> ('d, 'c) store \<Rightarrow> (dao_error + db_user) \<times> ('d, 'c) store" where
  "GetUserByID b i s =
     (if \<not> persistent s then (Inl DBNotInitialized, s)
      else case t_first (users_t (gorm b)) (\<lambda>row. DU_ID row = i) (db s) of
        (Inl e, d) \<Rightarrow> (Inl (Gorm e), s\<lparr>db := d\<rparr>)
      | (Inr row, d) \<Rightarrow> (Inr row, s\<lparr>db := d\<rparr>))"

text \<open>The lookup of a user in the cache.\<close>

definition cached_user ::
  "('d, 'c) backend \<Rightarrow> user_json \<Rightarrow> string \<Rightarrow> 'c \<Rightarrow> db_user option \<times> 'c" where
  "cached_user b j name c =
     (case client b of
        None \<Rightarrow> (None, c)
      | Some rd \<Rightarrow>
          (case r_get rd (UserKey name) c of
             (Some t, c') \<Rightarrow> (if t \<noteq> [] then dec_user j t else None, c')
           | (None, c') \<Rightarrow> (None, c')))"

definition GetUserByName ::
  "('d, 'c) backend \<Rightarrow> user_json \<Rightarrow> string \<Rightarrow> ('d, 'c) store \<Rightarrow>
   (dao_error + db_user) \<times> ('d, 'c) store" where
  "GetUserByName b j name s =
     (if \<not> persistent s then (Inl DBNotInitialized, s)
      else case cached_user b j name (cache s) of
        (Some u, c) \<Rightarrow> (Inr u, s\<lparr>cache := c\<rparr>)
      | (None, c) \<Rightarrow>
          (case t_first (users_t (gorm b)) (\<lambda>row. coll (gorm b) (DU_UserName row) name) (db s) of
             (Inl e, d) \<Rightarrow> (Inl (Gorm e), s\<lparr>cache := c, db := d\<rparr>)
           | (Inr row, d) \<Rightarrow> (Inr row, cache_user b j name row (s\<lparr>cache := c, db := d\<rparr>))))"

definition del_user_key :: "('d, 'c) backend \<Rightarrow> string \<Rightarrow> ('d, 'c) store \<Rightarrow> ('d, 'c) store" where
  "del_user_key b name s = s\<lparr>cache := cache_del b [UserKey name] (cache s)\<rparr>"

text \<open>The update of a status column, with the check of the number of rows.\<close>

definition set_status ::
  "('d, 'r) table \<Rightarrow> ('r \<Rightarrow> bool) \<Rightarrow> ('r \<Rightarrow> 'r) \<Rightarrow> ('d, 'c) store \<Rightarrow>
   dao_error option \<times> ('d, 'c) store" where
  "set_status tbl w f s =
     (case t_update tbl w f (db s) of
        (Inl e, d) \<Rightarrow> (Some (Gorm e), s\<lparr>db := d\<rparr>)
      | (Inr n, d) \<Rightarrow> (if n = 0 then Some (Gorm ErrRecordNotFound) else None, s\<lparr>db := d\<rparr>))"

definition UpdateUserStatus ::
  "('d, 'c) backend \<Rightarrow> string \<Rightarrow> int \<Rightarrow> ('d, 'c) store \<Rightarrow> dao_error option \<times> ('d, 'c) store" where
  "UpdateUserStatus b userID status s =
     (if \<not> persistent s then (Some DBNotInitialized, s)
      else if userID = [] then (Some EmptyID, s)
      else case ParseUint userID of
        Some i \<Rightarrow>
          (case set_status (users_t (gorm b)) (\<lambda>row. DU_ID row = i) (\<lambda>row. row\<lparr>DU_Status := status\<rparr>) s of
             (Some e, s1) \<Rightarrow> (Some e, s1)
           | (None, s1) \<Rightarrow>
               (None,
                if client b = None then s1
                else case GetUserByID b i s1 of
                  (Inr u, s2) \<Rightarrow> del_user_key b (DU_UserName u) s2
                | (Inl _, s2) \<Rightarrow> s2))
      | None \<Rightarrow>
          (case set_status (users_t (gorm b)) (\<lambda>row. coll (gorm b) (DU_UserName row) userID)
                  (\<lambda>row. row\<lparr>DU_Status := status\<rparr>) s of
             (Some e, s1) \<Rightarrow> (Some e, s1)
           | (None, s1) \<Rightarrow> (None, del_user_key b userID s1)))"

section \<open>Messages (message.go)\<close>

definition dao_SaveMessage ::
  "('d, 'c) backend \<Rightarrow> db_message option \<Rightarrow> ('d, 'c) store \<Rightarrow> dao_error option \<times> ('d, 'c) store" where
  "dao_SaveMessage b msg s =
     (case msg of
        None \<Rightarrow> (Some NilArgument, s)
      | Some row \<Rightarrow>
          if \<not> persistent s then (Some DBNotInitialized, s)
          else case t_create (messages_t (gorm b)) row (db s) of
            (Inl e, d) \<Rightarrow> (Some (Gorm e), s\<lparr>db := d\<rparr>)
          | (Inr _, d) \<Rightarrow> (None, s\<lparr>db := d\<rparr>))"

definition query ::
  "('d, 'r) table \<Rightarrow> ('r \<Rightarrow> bool) \<Rightarrow> 'r order \<Rightarrow> int \<Rightarrow> int \<Rightarrow> ('d, 'c) store \<Rightarrow>
   (dao_error + 'r list) \<times> ('d, 'c) store" where
  "query tbl w ord limit offset s =
     (case t_find tbl w ord (limit_clause limit) (limit_clause offset) (db s) of
        (Inl e, d) \<Rightarrow> (Inl (Gorm e), s\<lparr>db := d\<rparr>)
      | (Inr rows, d) \<Rightarrow> (Inr rows, s\<lparr>db := d\<rparr>))"

definition GetMessagesByChatID ::
  "('d, 'c) backend \<Rightarrow> string \<Rightarrow> int \<Rightarrow> int \<Rightarrow> ('d, 'c) store \<Rightarrow>
   (dao_error + db_message list) \<times> ('d, 'c) store" where
  "GetMessagesByChatID b chatID limit offset s =
     (if \<not> persistent s then (Inl DBNotInitialized, s)
      else query (messages_t (gorm b)) (\<lambda>row. coll (gorm b) (DM_ChatID row) chatID)
             (Desc (\<lambda>row. uint (DM_Seq row))) limit offset s)"

definition GetMessagesBySeq ::
  "('d, 'c) backend \<Rightarrow> string \<Rightarrow> 64 word \<Rightarrow> 64 word \<Rightarrow> ('d, 'c) store \<Rightarrow>
   (dao_error + db_message list) \<times> ('d, 'c) store" where
  "GetMessagesBySeq b chatID startSeq endSeq s =
     (if \<not> persistent s then (Inl DBNotInitialized, s)
      else if startSeq > endSeq then (Inr [], s)
      else query (messages_t (gorm b))
             (\<lambda>row. coll (gorm b) (DM_ChatID row) chatID \<and> DM_Seq row \<ge> startSeq \<and> DM_Seq row \<le> endSeq)
             (Asc (\<lambda>row. uint (DM_Seq row))) 0 0 s)"

definition UpdateMessageStatus ::
  "('d, 'c) backend \<Rightarrow> string \<Rightarrow> int \<Rightarrow> ('d, 'c) store \<Rightarrow> dao_error option \<times> ('d, 'c) store" where
  "UpdateMessageStatus b serverMsgID status s =
     (if \<not> persistent s then (Some DBNotInitialized, s)
      else if serverMsgID = [] then (Some EmptyID, s)
      else set_status (messages_t (gorm b)) (\<lambda>row. coll (gorm b) (DM_ServerMsgID row) serverMsgID)
             (\<lambda>row. row\<lparr>DM_Status := status\<rparr>) s)"

text \<open>\<open>Order("seq desc").Limit(1).Take(&m)\<close>: the first row of the ordered query.\<close>

definition GetLatestSeq ::
  "('d, 'c) backend \<Rightarrow> string \<Rightarrow> ('d, 'c) store \<Rightarrow> (dao_error + 64 word) \<times> ('d, 'c) store" where
  "GetLatestSeq b chatID s =
     (if \<not> persistent s then (Inl DBNotInitialized, s)
      else case query (messages_t (gorm b)) (\<lambda>row. coll (gorm b) (DM_ChatID row) chatID)
                  (Desc (\<lambda>row. uint (DM_Seq row))) 1 0 s of
        (Inl e, s1) \<Rightarrow> (Inl e, s1)
      | (Inr rows, s1) \<Rightarrow> (Inr (case rows of [] \<Rightarrow> 0 | m # _ \<Rightarrow> DM_Seq m), s1))"

section \<open>Recipients (recipient.go)\<close>

definition SaveMessageRecipient ::
  "('d, 'c) backend \<Rightarrow> db_recipient option \<Rightarrow> ('d, 'c) store \<Rightarrow> dao_error option \<times> ('d, 'c) store" where
  "SaveMessageRecipient b recipient s =
     (case recipient of
        None \<Rightarrow> (Some NilArgument, s)
      | Some row \<Rightarrow>
          if \<not> persistent s then (Some DBNotInitialized, s)
          else case t_create (recipients_t (gorm b)) row (db s) of
            (Inl e, d) \<Rightarrow> (Some (Gorm e), s\<lparr>db := d\<rparr>)
          | (Inr _, d) \<Rightarrow> (None, s\<lparr>db := d\<rparr>))"

definition MarkRecipientDelivered ::
  "('d, 'c) backend \<Rightarrow> rt \<Rightarrow> string \<Rightarrow> string \<Rightarrow> ('d, 'c) store \<Rightarrow>
   dao_error option \<times> ('d, 'c) store" where
  "MarkRecipientDelivered b r serverMsgID toUser s =
     (if \<not> persistent s then (Some DBNotInitialized, s)
      else set_status (recipients_t (gorm b)) (row_is b serverMsgID toUser)
             (\<lambda>row. row\<lparr>DR_Status := 1, DR_AckedAt := Some (clk r 0), DR_LastSendAt := Some (clk r 0)\<rparr>) s)"

definition MarkRecipientRead ::
  "('d, 'c) backend \<Rightarrow> rt \<Rightarrow> string \<Rightarrow> string \<Rightarrow> ('d, 'c) store \<Rightarrow>
   dao_error option \<times> ('d, 'c) store" where
  "MarkRecipientRead b r serverMsgID toUser s =
     (if \<not> persistent s then (Some DBNotInitialized, s)
      else set_status (recipients_t (gorm b)) (row_is b serverMsgID toUser)
             (\<lambda>row. row\<lparr>DR_Status := 2, DR_ReadAt := Some (clk r 0), DR_AckedAt := Some (clk r 0)\<rparr>) s)"

definition ListPendingByUser ::
  "('d, 'c) backend \<Rightarrow> string \<Rightarrow> int \<Rightarrow> ('d, 'c) store \<Rightarrow>
   (dao_error + db_recipient list) \<times> ('d, 'c) store" where
  "ListPendingByUser b toUser limit s =
     (if \<not> persistent s then (Inl DBNotInitialized, s)
      else query (recipients_t (gorm b)) (\<lambda>row. coll (gorm b) (DR_ToUser row) toUser \<and> DR_Status row = 0)
             (Asc (\<lambda>row. int (DR_ID row))) limit 0 s)"

section \<open>A user name is taken for an id\<close>

text \<open>
  \<open>UpdateUserStatus\<close> is called with user names but takes a name of decimal digits for a
  primary key: with the accounts \<open>alice\<close> (id 1) and \<open>1\<close> (id 2), setting the user named
  \<open>1\<close> online sets \<open>alice\<close> online instead.
\<close>

theorem numeric_name_updates_other_account:
  "let d = no_tables\<lparr>user_rows := [(new_user ''alice'' [])\<lparr>DU_ID := 1\<rparr>, (new_user ''1'' [])\<lparr>DU_ID := 2\<rparr>]\<rparr>;
       s = snd (UpdateUserStatus (sample_backend\<lparr>client := None\<rparr>) ''1'' 1 (NewInMemoryStore True d []))
   in map (\<lambda>u. (DU_UserName u, DU_Status u)) (user_rows (db s)) = [(''alice'', 1), (''1'', 0)]"
proof -
  have "ParseUint ''1'' = Some 1"
    by (simp add: ParseUint_def all_digits_def decimal_def digit_val_def less_eq_char_def)
  then show ?thesis
    by (simp add: UpdateUserStatus_def set_status_def NewInMemoryStore_def sample_defs new_user_def)
qed

end
