(* ===== verification/Texts.thy ===== *)
theory Texts
  imports Go_Json Group_Manager Dao
begin

text \<open>
  The fixed texts the server sends, as UTF-8 byte strings given by their code points, and the texts
  of the errors that are shown to a client (\<open>internal/session\<close>, \<open>internal/server/conn.go\<close>).
\<close>

definition runes :: "nat list \<Rightarrow> string" where
  "runes ns = concat (map utf8_enc ns)"

section \<open>Messages\<close>

definition txt_prompt_auth :: string where
  "txt_prompt_auth =
     runes [0x6B22, 0x8FCE, 0xFF0C, 0x8BF7, 0x5148, 0x6CE8, 0x518C, 0xFF1A] @ ''register|'' @
     runes [0x7528, 0x6237, 0x540D] @ ''|'' @ runes [0x5BC6, 0x7801] @ '' '' @ runes [0x6216] @
     '' '' @ runes [0x767B, 0x5F55, 0xFF1A] @ ''login|'' @ runes [0x7528, 0x6237, 0x540D] @ ''|''
     @ runes [0x5BC6, 0x7801, 10]"

definition txt_kicked :: string where
  "txt_kicked =
     runes [0x4F60, 0x88AB, 0x8E22, 0x4E86] @ ''!'' @ runes [10]"

definition txt_too_long_1 :: string where
  "txt_too_long_1 =
     runes [0x6D88, 0x606F, 0x957F, 0x5EA6, 0x8D85, 0x9650, 0xFF0C, 0x6700, 0x591A] @ '' ''"

definition txt_too_long_2 :: string where
  "txt_too_long_2 =
     '' '' @ runes [0x5B57, 0x8282, 0xFF0C, 0x672C, 0x6761, 0x5DF2, 0x4E22, 0x5F03, 0x3002, 10]"

definition txt_bad_json :: string where
  "txt_bad_json =
     runes [0x975E, 0x6CD5] @ '' JSON '' @ runes [0x534F, 0x8BAE] @ '': ''"

definition txt_register_usage :: string where
  "txt_register_usage =
     runes [0x6CE8, 0x518C, 0x683C, 0x5F0F, 0x9519, 0x8BEF, 0xFF0C, 0x6B63, 0x786E, 0x7528,
     0x6CD5, 0xFF1A] @ ''register|'' @ runes [0x7528, 0x6237, 0x540D] @ ''|'' @ runes [0x5BC6,
     0x7801, 10]"

definition txt_register_failed :: string where
  "txt_register_failed =
     runes [0x6CE8, 0x518C, 0x5931, 0x8D25, 0xFF1A]"

definition txt_registered :: string where
  "txt_registered =
     runes [0x6CE8, 0x518C, 0x5E76, 0x767B, 0x5F55, 0x6210, 0x529F, 0xFF0C, 0x6B22, 0x8FCE,
     0xFF1A]"

definition txt_login_usage :: string where
  "txt_login_usage =
     runes [0x767B, 0x5F55, 0x683C, 0x5F0F, 0x9519, 0x8BEF, 0xFF0C, 0x6B63, 0x786E, 0x7528,
     0x6CD5, 0xFF1A] @ ''login|'' @ runes [0x7528, 0x6237, 0x540D] @ ''|'' @ runes [0x5BC6,
     0x7801, 10]"

definition txt_login_failed :: string where
  "txt_login_failed =
     runes [0x767B, 0x5F55, 0x5931, 0x8D25, 0xFF1A]"

definition txt_logged_in :: string where
  "txt_logged_in =
     runes [0x767B, 0x5F55, 0x6210, 0x529F, 0xFF0C, 0x6B22, 0x8FCE, 0x56DE, 0x6765, 0xFF1A]"

definition txt_auth_first :: string where
  "txt_auth_first =
     runes [0x8BF7, 0x5148, 0x6CE8, 0x518C, 0x6216, 0x767B, 0x5F55, 0x3002, 0x6CE8, 0x518C] @
     '': register|'' @ runes [0x7528, 0x6237, 0x540D] @ ''|'' @ runes [0x5BC6, 0x7801] @ ''  '' @
     runes [0x767B, 0x5F55] @ '': login|'' @ runes [0x7528, 0x6237, 0x540D] @ ''|'' @ runes
     [0x5BC6, 0x7801, 10]"

definition txt_online :: string where
  "txt_online =
     '' '' @ runes [0x2705] @ '' '' @ runes [0x5DF2, 0x4E0A, 0x7EBF, 0xFF01]"

definition txt_offline :: string where
  "txt_offline =
     '' '' @ runes [0x274C] @ '' '' @ runes [0x5DF2, 0x4E0B, 0x7EBF, 0xFF01]"

definition txt_welcome :: string where
  "txt_welcome =
     ''----------------'' @ runes [0x1F44F, 0x6B22, 0x8FCE, 0x6765, 0x5230] @ '' 8H-Go '' @ runes
     [0x804A, 0x5929, 0x5BA4] @ ''----------------''"

definition txt_goodbye :: string where
  "txt_goodbye =
     runes [0x4F60, 0x5DF2, 0x6210, 0x529F, 0x4E0B, 0x7EBF, 0xFF0C, 0x6B22, 0x8FCE, 0x4E0B,
     0x6B21, 0x518D, 0x6765, 0x3002]"

definition err_bad_name :: string where
  "err_bad_name =
     runes [0x7528, 0x6237, 0x540D, 0x4E0D, 0x53EF, 0x4E3A, 0x7A7A, 0x6216, 0x5305, 0x542B,
     0x7A7A, 0x683C] @ ''/'' @ runes [0x7BA1, 0x9053, 0x7B26]"

definition err_name_online :: string where
  "err_name_online =
     runes [0x8BE5, 0x7528, 0x6237, 0x540D, 0x5DF2, 0x6709, 0x4EBA, 0x5728, 0x7EBF]"

definition err_user_exists :: string where
  "err_user_exists =
     runes [0x7528, 0x6237, 0x5DF2, 0x5B58, 0x5728, 0xFF0C, 0x8BF7, 0x76F4, 0x63A5, 0x767B,
     0x5F55]"

definition err_hash :: string where
  "err_hash =
     runes [0x5BC6, 0x7801, 0x52A0, 0x5BC6, 0x5931, 0x8D25] @ '': ''"

definition err_create :: string where
  "err_create =
     runes [0x521B, 0x5EFA, 0x7528, 0x6237, 0x5931, 0x8D25] @ '': ''"

definition err_name_empty :: string where
  "err_name_empty =
     runes [0x7528, 0x6237, 0x540D, 0x4E0D, 0x80FD, 0x4E3A, 0x7A7A]"

definition err_no_user :: string where
  "err_no_user =
     runes [0x7528, 0x6237, 0x4E0D, 0x5B58, 0x5728, 0xFF0C, 0x8BF7, 0x5148, 0x6CE8, 0x518C]"

definition err_password :: string where
  "err_password =
     runes [0x5BC6, 0x7801, 0x9519, 0x8BEF]"

definition err_logged_in :: string where
  "err_logged_in =
     runes [0x8BE5, 0x7528, 0x6237, 0x5DF2, 0x5728, 0x5176, 0x4ED6, 0x8FDE, 0x63A5, 0x767B,
     0x5F55]"

definition err_nil_user :: string where
  "err_nil_user =
     ''user '' @ runes [0x4E0D, 0x5B58, 0x5728]"

definition err_no_db :: string where
  "err_no_db =
     runes [0x6570, 0x636E, 0x5E93, 0x672A, 0x521D, 0x59CB, 0x5316]"

definition err_empty_id :: string where
  "err_empty_id =
     ''userID '' @ runes [0x4E3A, 0x7A7A]"

definition txt_who :: string where
  "txt_who =
     '':'' @ runes [0x5728, 0x7EBF, 0x4E2D] @ ''...'' @ runes [10]"

definition txt_rename_usage :: string where
  "txt_rename_usage =
     runes [0x547D, 0x4EE4, 0x683C, 0x5F0F, 0x9519, 0x8BEF, 0xFF0C, 0x6B63, 0x786E, 0x7528,
     0x6CD5, 0xFF1A] @ ''rename|'' @ runes [0x65B0, 0x6635, 0x79F0, 0xFF0C, 0x4F8B, 0x5982,
     0xFF1A] @ ''rename|alice'' @ runes [10]"

definition txt_name_long :: string where
  "txt_name_long =
     runes [0x6635, 0x79F0, 0x8FC7, 0x957F, 0xFF0C, 0x6700, 0x591A] @ '' 20 '' @ runes [0x4E2A,
     0x5B57, 0x7B26, 0x3002, 10]"

definition txt_name_chars :: string where
  "txt_name_chars =
     runes [0x6635, 0x79F0, 0x5305, 0x542B, 0x975E, 0x6CD5, 0x5B57, 0x7B26, 0xFF0C, 0x8BF7,
     0x907F, 0x514D, 0x7A7A, 0x683C, 0x6216] @ '' `|`'' @ runes [0x3002, 10]"

definition txt_renamed_1 :: string where
  "txt_renamed_1 =
     runes [0x5DF2, 0x5C06] @ '' ''"

definition txt_renamed_2 :: string where
  "txt_renamed_2 =
     '' '' @ runes [0x66F4, 0x6539, 0x4E3A] @ '': ''"

definition txt_chat_usage :: string where
  "txt_chat_usage =
     runes [0x547D, 0x4EE4, 0x683C, 0x5F0F, 0x9519, 0x8BEF, 0xFF0C, 0x6B63, 0x786E, 0x7528,
     0x6CD5, 0xFF1A] @ ''to|'' @ runes [0x7528, 0x6237, 0x540D] @ ''|'' @ runes [0x6D88, 0x606F,
     0xFF0C, 0x4F8B, 0x5982, 0xFF1A] @ ''to|bob|'' @ runes [0x4F60, 0x597D, 10]"

definition txt_chat_self :: string where
  "txt_chat_self =
     runes [0x4E0D, 0x80FD, 0x7ED9, 0x81EA, 0x5DF1, 0x53D1, 0x9001, 0x79C1, 0x804A, 0x6D88,
     0x606F, 0x3002, 10]"

definition txt_send_failed :: string where
  "txt_send_failed =
     runes [0x6D88, 0x606F, 0x53D1, 0x9001, 0x5931, 0x8D25] @ '': ''"

definition txt_chat_existing :: string where
  "txt_chat_existing =
     runes [0x79C1, 0x804A, 0x6D88, 0x606F, 0x5E42, 0x7B49, 0x547D, 0x4E2D] @ '': ''"

definition txt_chat_sent_1 :: string where
  "txt_chat_sent_1 =
     runes [0x5DF2, 0x5C06, 39]"

definition txt_chat_sent_2 :: string where
  "txt_chat_sent_2 =
     runes [39] @ '' '' @ runes [0x6D88, 0x606F, 0x53D1, 0x9001] @ '' --> ''"

definition txt_read_usage :: string where
  "txt_read_usage =
     runes [0x547D, 0x4EE4, 0x683C, 0x5F0F, 0x9519, 0x8BEF, 0xFF0C, 0x6B63, 0x786E, 0x7528,
     0x6CD5, 0xFF1A] @ ''read|server_msg_id'' @ runes [10]"

definition txt_read_done :: string where
  "txt_read_done =
     runes [0x5DF2, 0x4E0A, 0x62A5] @ '' read_ack: ''"

definition txt_bye :: string where
  "txt_bye =
     runes [0x518D, 0x89C1, 0xFF01, 0x6B22, 0x8FCE, 0x4E0B, 0x6B21, 0x518D, 0x6765] @ ''~'' @
     runes [10]"

definition txt_history_usage :: string where
  "txt_history_usage =
     runes [0x547D, 0x4EE4, 0x683C, 0x5F0F, 0x9519, 0x8BEF, 0xFF0C, 0x6B63, 0x786E, 0x7528,
     0x6CD5, 0xFF1A] @ ''history|'' @ runes [0x7528, 0x6237, 0x540D] @ ''|'' @ runes [0x6761,
     0x6570] @ ''('' @ runes [0x53EF, 0x9009] @ '')'' @ runes [10]"

definition txt_no_history :: string where
  "txt_no_history =
     runes [0x6682, 0x65E0, 0x5386, 0x53F2, 0x6D88, 0x606F, 0x3002, 10]"

definition txt_gc_usage :: string where
  "txt_gc_usage =
     runes [0x547D, 0x4EE4, 0x683C, 0x5F0F, 0x9519, 0x8BEF, 0xFF0C, 0x6B63, 0x786E, 0x7528,
     0x6CD5, 0xFF1A] @ ''gc|'' @ runes [0x7FA4] @ ''ID'' @ runes [10]"

definition txt_gc_failed :: string where
  "txt_gc_failed =
     runes [0x521B, 0x5EFA, 0x7FA4, 0x5931, 0x8D25] @ '': ''"

definition txt_gc_done :: string where
  "txt_gc_done =
     runes [0x521B, 0x5EFA, 0x7FA4, 0x6210, 0x529F] @ '': ''"

definition txt_gj_usage :: string where
  "txt_gj_usage =
     runes [0x547D, 0x4EE4, 0x683C, 0x5F0F, 0x9519, 0x8BEF, 0xFF0C, 0x6B63, 0x786E, 0x7528,
     0x6CD5, 0xFF1A] @ ''gj|'' @ runes [0x7FA4] @ ''ID'' @ runes [10]"

definition txt_gj_failed :: string where
  "txt_gj_failed =
     runes [0x52A0, 0x5165, 0x7FA4, 0x5931, 0x8D25] @ '': ''"

definition txt_gj_done :: string where
  "txt_gj_done =
     runes [0x52A0, 0x5165, 0x7FA4, 0x6210, 0x529F] @ '': ''"

definition txt_gl_usage :: string where
  "txt_gl_usage =
     runes [0x547D, 0x4EE4, 0x683C, 0x5F0F, 0x9519, 0x8BEF, 0xFF0C, 0x6B63, 0x786E, 0x7528,
     0x6CD5, 0xFF1A] @ ''gl|'' @ runes [0x7FA4] @ ''ID'' @ runes [10]"

definition txt_gl_failed :: string where
  "txt_gl_failed =
     runes [0x9000, 0x51FA, 0x7FA4, 0x5931, 0x8D25] @ '': ''"

definition txt_gl_done :: string where
  "txt_gl_done =
     runes [0x5DF2, 0x9000, 0x51FA, 0x7FA4] @ '': ''"

definition txt_gd_usage :: string where
  "txt_gd_usage =
     runes [0x547D, 0x4EE4, 0x683C, 0x5F0F, 0x9519, 0x8BEF, 0xFF0C, 0x6B63, 0x786E, 0x7528,
     0x6CD5, 0xFF1A] @ ''gd|'' @ runes [0x7FA4] @ ''ID'' @ runes [10]"

definition txt_gd_failed :: string where
  "txt_gd_failed =
     runes [0x89E3, 0x6563, 0x7FA4, 0x5931, 0x8D25] @ '': ''"

definition txt_gd_done :: string where
  "txt_gd_done =
     runes [0x5DF2, 0x89E3, 0x6563, 0x7FA4] @ '': ''"

definition txt_gk_usage :: string where
  "txt_gk_usage =
     runes [0x547D, 0x4EE4, 0x683C, 0x5F0F, 0x9519, 0x8BEF, 0xFF0C, 0x6B63, 0x786E, 0x7528,
     0x6CD5, 0xFF1A] @ ''gk|'' @ runes [0x7FA4] @ ''ID|'' @ runes [0x7528, 0x6237, 0x540D, 10]"

definition txt_gk_failed :: string where
  "txt_gk_failed =
     runes [0x8E22, 0x4EBA, 0x5931, 0x8D25] @ '': ''"

definition txt_gk_done :: string where
  "txt_gk_done =
     runes [0x8E22, 0x4EBA, 0x6210, 0x529F] @ '': ''"

definition txt_ga_usage :: string where
  "txt_ga_usage =
     runes [0x547D, 0x4EE4, 0x683C, 0x5F0F, 0x9519, 0x8BEF, 0xFF0C, 0x6B63, 0x786E, 0x7528,
     0x6CD5, 0xFF1A] @ ''ga|'' @ runes [0x7FA4] @ ''ID|'' @ runes [0x7528, 0x6237, 0x540D, 10]"

definition txt_ga_failed :: string where
  "txt_ga_failed =
     runes [0x8BBE, 0x7BA1, 0x7406, 0x5458, 0x5931, 0x8D25] @ '': ''"

definition txt_ga_done :: string where
  "txt_ga_done =
     runes [0x8BBE, 0x7BA1, 0x7406, 0x5458, 0x6210, 0x529F] @ '': ''"

definition txt_gr_usage :: string where
  "txt_gr_usage =
     runes [0x547D, 0x4EE4, 0x683C, 0x5F0F, 0x9519, 0x8BEF, 0xFF0C, 0x6B63, 0x786E, 0x7528,
     0x6CD5, 0xFF1A] @ ''gr|'' @ runes [0x7FA4] @ ''ID|'' @ runes [0x7528, 0x6237, 0x540D, 10]"

definition txt_gr_failed :: string where
  "txt_gr_failed =
     runes [0x64A4, 0x7BA1, 0x7406, 0x5458, 0x5931, 0x8D25] @ '': ''"

definition txt_gr_done :: string where
  "txt_gr_done =
     runes [0x64A4, 0x7BA1, 0x7406, 0x5458, 0x6210, 0x529F] @ '': ''"

definition txt_gm_usage :: string where
  "txt_gm_usage =
     runes [0x547D, 0x4EE4, 0x683C, 0x5F0F, 0x9519, 0x8BEF, 0xFF0C, 0x6B63, 0x786E, 0x7528,
     0x6CD5, 0xFF1A] @ ''gm|'' @ runes [0x7FA4] @ ''ID'' @ runes [10]"

definition txt_gm_none :: string where
  "txt_gm_none =
     runes [0x7FA4, 0x4E0D, 0x5B58, 0x5728, 0x6216, 0x65E0, 0x6210, 0x5458] @ '': ''"

definition txt_gm_members :: string where
  "txt_gm_members =
     runes [0x7FA4, 0x6210, 0x5458] @ ''(''"

definition txt_gt_usage :: string where
  "txt_gt_usage =
     runes [0x547D, 0x4EE4, 0x683C, 0x5F0F, 0x9519, 0x8BEF, 0xFF0C, 0x6B63, 0x786E, 0x7528,
     0x6CD5, 0xFF1A] @ ''gt|'' @ runes [0x7FA4] @ ''ID|'' @ runes [0x6D88, 0x606F, 10]"

definition txt_gt_not_member :: string where
  "txt_gt_not_member =
     runes [0x53D1, 0x9001, 0x5931, 0x8D25] @ '': '' @ runes [0x4F60, 0x4E0D, 0x5728, 0x8BE5,
     0x7FA4, 0x4E2D, 0x3002, 10]"

definition txt_gt_failed :: string where
  "txt_gt_failed =
     runes [0x53D1, 0x9001, 0x7FA4, 0x6D88, 0x606F, 0x5931, 0x8D25] @ '': ''"

definition txt_gt_existing :: string where
  "txt_gt_existing =
     runes [0x7FA4, 0x6D88, 0x606F, 0x5E42, 0x7B49, 0x547D, 0x4E2D] @ '': ''"

definition txt_gt_done :: string where
  "txt_gt_done =
     runes [0x7FA4, 0x6D88, 0x606F, 0x5DF2, 0x5165, 0x961F] @ '': ''"

definition txt_illegal_1 :: string where
  "txt_illegal_1 =
     runes [0x975E, 0x6CD5, 0x6307, 0x4EE4, 0xFF1A] @ ''(''"

definition txt_illegal_2 :: string where
  "txt_illegal_2 =
     '') '' @ runes [0x547D, 0x4EE4, 0x4E0D, 0x53EF, 0x8BC6, 0x522B] @ ''!'' @ runes [10, 0x8BF7,
     0x4F7F, 0x7528] @ '' help '' @ runes [0x67E5, 0x770B, 0x6307, 0x4EE4, 0x5E2E, 0x52A9,
     0x3002, 10]"

text \<open>The lines of the help text.\<close>

definition help_lines :: "string list" where
  "help_lines =
     [runes [0x53EF, 0x7528, 0x547D, 0x4EE4] @ '':'',
      ''  help                  '' @ runes [0x67E5, 0x770B, 0x5E2E, 0x52A9],
      ''  who                   '' @ runes [0x67E5, 0x770B, 0x5728, 0x7EBF, 0x7528, 0x6237],
      ''  rename|'' @ runes [0x65B0, 0x6635, 0x79F0] @ ''          '' @ runes [0x4FEE, 0x6539,
      0x6635, 0x79F0],
      ''  to|'' @ runes [0x7528, 0x6237, 0x540D] @ ''|'' @ runes [0x6D88, 0x606F] @ ''         ''
      @ runes [0x53D1, 0x9001, 0x79C1, 0x804A, 0x6D88, 0x606F],
      ''  gc|'' @ runes [0x7FA4] @ ''ID                '' @ runes [0x521B, 0x5EFA, 0x7FA4],
      ''  gj|'' @ runes [0x7FA4] @ ''ID                '' @ runes [0x52A0, 0x5165, 0x7FA4],
      ''  gl|'' @ runes [0x7FA4] @ ''ID                '' @ runes [0x9000, 0x51FA, 0x7FA4],
      ''  gd|'' @ runes [0x7FA4] @ ''ID                '' @ runes [0x89E3, 0x6563, 0x7FA4] @
      ''('' @ runes [0x4EC5, 0x7FA4, 0x4E3B] @ '')'',
      ''  gk|'' @ runes [0x7FA4] @ ''ID|'' @ runes [0x7528, 0x6237, 0x540D] @ ''          '' @
      runes [0x8E22, 0x4EBA] @ ''('' @ runes [0x7BA1, 0x7406, 0x5458] @ ''/'' @ runes [0x7FA4,
      0x4E3B] @ '')'',
      ''  ga|'' @ runes [0x7FA4] @ ''ID|'' @ runes [0x7528, 0x6237, 0x540D] @ ''          '' @
      runes [0x8BBE, 0x7BA1, 0x7406, 0x5458] @ ''('' @ runes [0x4EC5, 0x7FA4, 0x4E3B] @ '')'',
      ''  gr|'' @ runes [0x7FA4] @ ''ID|'' @ runes [0x7528, 0x6237, 0x540D] @ ''          '' @
      runes [0x64A4, 0x7BA1, 0x7406, 0x5458] @ ''('' @ runes [0x4EC5, 0x7FA4, 0x4E3B] @ '')'',
      ''  gm|'' @ runes [0x7FA4] @ ''ID                '' @ runes [0x67E5, 0x770B, 0x7FA4,
      0x6210, 0x5458],
      ''  gt|'' @ runes [0x7FA4] @ ''ID|'' @ runes [0x6D88, 0x606F] @ ''            '' @ runes
      [0x53D1, 0x9001, 0x7FA4, 0x6D88, 0x606F],
      ''  history|'' @ runes [0x7528, 0x6237, 0x540D] @ ''|'' @ runes [0x6761, 0x6570] @
      ''     '' @ runes [0x67E5, 0x8BE2, 0x79C1, 0x804A, 0x5386, 0x53F2, 0xFF08, 0x9ED8, 0x8BA4]
      @ ''20'' @ runes [0xFF09],
      ''  read|server_msg_id      '' @ runes [0x4E0A, 0x62A5, 0x5DF2, 0x8BFB, 0x56DE, 0x6267],
      ''  stats                 '' @ runes [0x67E5, 0x770B, 0x670D, 0x52A1, 0x7AEF, 0x8FD0,
      0x884C, 0x6307, 0x6807],
      ''  exit                  '' @ runes [0x9000, 0x51FA, 0x804A, 0x5929, 0x5BA4]]"

section \<open>Texts of errors\<close>

text \<open>\<open>err.Error()\<close> of the errors that reach a client.\<close>

definition group_error_text :: "group_error \<Rightarrow> string" where
  "group_error_text e = (case e of
     GroupIDOwnerEmpty \<Rightarrow> ''groupID/owner empty''
   | GroupIDOperatorEmpty \<Rightarrow> ''groupID/operator empty''
   | GroupIDUsernameEmpty \<Rightarrow> ''groupID/username empty''
   | GroupExists \<Rightarrow> ''group already exists''
   | GroupNotFound \<Rightarrow> ''group not found''
   | OnlyOwnerDeletes \<Rightarrow> ''only owner can delete group''
   | AlreadyMember \<Rightarrow> ''already a member''
   | OwnerCannotLeave \<Rightarrow> ''owner cannot leave, use delete instead''
   | OperatorNotInGroup \<Rightarrow> ''operator not in group''
   | InsufficientPermission \<Rightarrow> ''insufficient permission''
   | TargetNotInGroup \<Rightarrow> ''target not in group''
   | CannotKickEqualOrHigher \<Rightarrow> ''cannot kick member with equal or higher role''
   | OnlyOwnerGrants \<Rightarrow> ''only owner can grant admin''
   | OnlyOwnerRevokes \<Rightarrow> ''only owner can revoke admin'')"

definition db_error_text :: "db_error \<Rightarrow> string" where
  "db_error_text e = (case e of ErrRecordNotFound \<Rightarrow> ''record not found'' | DBError t \<Rightarrow> t)"

definition dao_error_text :: "dao_error \<Rightarrow> string" where
  "dao_error_text e = (case e of
     NilArgument \<Rightarrow> err_nil_user | DBNotInitialized \<Rightarrow> err_no_db | EmptyID \<Rightarrow> err_empty_id
   | Gorm g \<Rightarrow> db_error_text g)"

lemmas txt_defs = txt_prompt_auth_def txt_kicked_def txt_too_long_1_def txt_too_long_2_def txt_bad_json_def
  txt_register_usage_def txt_register_failed_def txt_registered_def txt_login_usage_def txt_login_failed_def
  txt_logged_in_def txt_auth_first_def txt_online_def txt_offline_def txt_welcome_def
  txt_goodbye_def err_bad_name_def err_name_online_def err_user_exists_def err_hash_def
  err_create_def err_name_empty_def err_no_user_def err_password_def err_logged_in_def
  err_nil_user_def err_no_db_def err_empty_id_def txt_who_def txt_rename_usage_def
  txt_name_long_def txt_name_chars_def txt_renamed_1_def txt_renamed_2_def txt_chat_usage_def
  txt_chat_self_def txt_send_failed_def txt_chat_existing_def txt_chat_sent_1_def txt_chat_sent_2_def
  txt_read_usage_def txt_read_done_def txt_bye_def txt_history_usage_def txt_no_history_def
  txt_gc_usage_def txt_gc_failed_def txt_gc_done_def txt_gj_usage_def txt_gj_failed_def
  txt_gj_done_def txt_gl_usage_def txt_gl_failed_def txt_gl_done_def txt_gd_usage_def
  txt_gd_failed_def txt_gd_done_def txt_gk_usage_def txt_gk_failed_def txt_gk_done_def
  txt_ga_usage_def txt_ga_failed_def txt_ga_done_def txt_gr_usage_def txt_gr_failed_def
  txt_gr_done_def txt_gm_usage_def txt_gm_none_def txt_gm_members_def txt_gt_usage_def
  txt_gt_not_member_def txt_gt_failed_def txt_gt_existing_def txt_gt_done_def txt_illegal_1_def
  txt_illegal_2_def

end
