(* ===== verification/Json_Message.thy ===== *)
theory Json_Message
  imports Protocol Go_Json Config
begin

text \<open>
  The JSON form of a wire message: \<open>json.Unmarshal\<close> into a \<open>Message\<close>
  (\<open>internal/server/conn.go\<close>, \<open>processRawLine\<close>) and \<open>json.Marshal\<close> of one
  (\<open>internal/session/session.go\<close>, \<open>SendJSON\<close>), with the field tags of
  \<open>internal/protocol/protocol.go\<close>.
\<close>

section \<open>Values\<close>

text \<open>A number is kept as its literal: how it is read depends on the field it is for.\<close>

datatype json =
    JNull
  | JBool bool
  | JNum string
  | JStr string
  | JArr "json list"
  | JObj "(string \<times> json) list"

definition is_digit :: "char \<Rightarrow> bool" where
  "is_digit c \<longleftrightarrow> CHR ''0'' \<le> c \<and> c \<le> CHR ''9''"

definition exp_ok :: "string \<Rightarrow> bool" where
  "exp_ok s =
     (case s of
        [] \<Rightarrow> True
      | e # t \<Rightarrow> (e = CHR ''e'' \<or> e = CHR ''E'') \<and>
          all_digits (if HasPrefix t ''+'' \<or> HasPrefix t ''-'' then drop 1 t else t))"

definition frac_ok :: "string \<Rightarrow> bool" where
  "frac_ok s =
     (if HasPrefix s ''.'' then
        takeWhile is_digit (drop 1 s) \<noteq> [] \<and> exp_ok (dropWhile is_digit (drop 1 s))
      else exp_ok s)"

definition number_ok :: "string \<Rightarrow> bool" where
  "number_ok s =
     (let ds = (if HasPrefix s ''-'' then drop 1 s else s);
          whole = takeWhile is_digit ds
      in whole \<noteq> [] \<and> (hd whole = CHR ''0'' \<longrightarrow> length whole = 1) \<and>
         frac_ok (dropWhile is_digit ds))"

definition number_char :: "char \<Rightarrow> bool" where
  "number_char c \<longleftrightarrow> is_digit c \<or> c \<in> set ''+-.eE''"

definition p_scalar :: "string \<Rightarrow> (json \<times> string) option" where
  "p_scalar s =
     (if HasPrefix s ''true'' then Some (JBool True, drop 4 s)
      else if HasPrefix s ''false'' then Some (JBool False, drop 5 s)
      else if HasPrefix s ''null'' then Some (JNull, drop 4 s)
      else if number_ok (takeWhile number_char s)
        then Some (JNum (takeWhile number_char s), dropWhile number_char s)
      else None)"

text \<open>
  A value at the head of a string and what follows it. The first argument bounds the number of
  values and members on the way; the length of the input is always enough (\<open>p_value_fuel\<close>).
\<close>

fun p_value :: "nat \<Rightarrow> string \<Rightarrow> (json \<times> string) option"
  and p_elems :: "nat \<Rightarrow> string \<Rightarrow> (json list \<times> string) option"
  and p_members :: "nat \<Rightarrow> string \<Rightarrow> ((string \<times> json) list \<times> string) option"
where
  "p_value 0 s = None"
| "p_value (Suc n) s =
     (case skip_ws s of
        [] \<Rightarrow> None
      | c # t \<Rightarrow>
          if c = CHR 0x22 then map_option (apfst JStr) (dec_chars t)
          else if c = CHR ''{'' then
            (if HasPrefix (skip_ws t) ''}'' then Some (JObj [], drop 1 (skip_ws t))
             else map_option (apfst JObj) (p_members n t))
          else if c = CHR ''['' then
            (if HasPrefix (skip_ws t) '']'' then Some (JArr [], drop 1 (skip_ws t))
             else map_option (apfst JArr) (p_elems n t))
          else p_scalar (c # t))"
| "p_elems 0 s = None"
| "p_elems (Suc n) s =
     (case p_value n s of
        None \<Rightarrow> None
      | Some (v, t) \<Rightarrow>
          (case skip_ws t of
             [] \<Rightarrow> None
           | c # u \<Rightarrow>
               if c = CHR '']'' then Some ([v], u)
               else if c = CHR '','' then map_option (apfst (Cons v)) (p_elems n u)
               else None))"
| "p_members 0 s = None"
| "p_members (Suc n) s =
     (case skip_ws s of
        [] \<Rightarrow> None
      | q # t \<Rightarrow>
          if q \<noteq> CHR 0x22 then None
          else case dec_chars t of
            None \<Rightarrow> None
          | Some (k, t1) \<Rightarrow>
              if \<not> HasPrefix (skip_ws t1) '':'' then None
              else case p_value n (drop 1 (skip_ws t1)) of
                None \<Rightarrow> None
              | Some (v, t2) \<Rightarrow>
                  (case skip_ws t2 of
                     [] \<Rightarrow> None
                   | c # u \<Rightarrow>
                       if c = CHR ''}'' then Some ([(k, v)], u)
                       else if c = CHR '','' then map_option (apfst (Cons (k, v))) (p_members n u)
                       else None))"

declare p_value.simps [simp del] p_elems.simps [simp del] p_members.simps [simp del]

text \<open>The whole input: one value, then only white space.\<close>

definition parse_json :: "string \<Rightarrow> json option" where
  "parse_json s =
     (case p_value (2 * length s + 1) s of
        Some (v, t) \<Rightarrow> (if skip_ws t = [] then Some v else None)
      | None \<Rightarrow> None)"

section \<open>Messages\<close>

text \<open>
  A member is stored in the field whose tag is its key, exactly or else up to the case folding
  of \<open>encoding/json\<close> (ASCII letters, the long s and the Kelvin sign); unknown keys are
  ignored, null leaves the field, and a value of the wrong kind or out of range is an error.
\<close>

fun fold_name :: "string \<Rightarrow> string" where
  "fold_name [] = []"
| "fold_name (c # s) =
     (if HasPrefix (c # s) [CHR 0xC5, CHR 0xBF] then CHR ''s'' # fold_name (drop 1 s)
      else if HasPrefix (c # s) [CHR 0xE2, CHR 0x84, CHR 0xAA] then CHR ''k'' # fold_name (drop 2 s)
      else (if CHR ''A'' \<le> c \<and> c \<le> CHR ''Z'' then char_of (byte c + 32) else c) # fold_name s)"

definition dec_text :: "json \<Rightarrow> string \<Rightarrow> string option" where
  "dec_text v old = (case v of JNull \<Rightarrow> Some old | JStr x \<Rightarrow> Some x | _ \<Rightarrow> None)"

definition dec_int :: "int \<Rightarrow> int \<Rightarrow> json \<Rightarrow> int \<Rightarrow> int option" where
  "dec_int lo hi v old =
     (case v of
        JNull \<Rightarrow> Some old
      | JNum lit \<Rightarrow> (case Atoi lit of
          Some n \<Rightarrow> (if lo \<le> n \<and> n < hi then Some n else None) | None \<Rightarrow> None)
      | _ \<Rightarrow> None)"

definition dec_uint64 :: "json \<Rightarrow> 64 word \<Rightarrow> 64 word option" where
  "dec_uint64 v old =
     (case v of
        JNull \<Rightarrow> Some old
      | JNum lit \<Rightarrow> map_option of_nat (ParseUint lit)
      | _ \<Rightarrow> None)"

definition set_field :: "string \<Rightarrow> json \<Rightarrow> Message \<Rightarrow> Message option" where
  "set_field key v m =
     (let k = fold_name key in
      if k = ''type'' then map_option (\<lambda>x. m\<lparr>Type := x\<rparr>) (dec_text v (Type m))
      else if k = ''client_msg_id'' then map_option (\<lambda>x. m\<lparr>ClientMsgID := x\<rparr>) (dec_text v (ClientMsgID m))
      else if k = ''server_msg_id'' then map_option (\<lambda>x. m\<lparr>ServerMsgID := x\<rparr>) (dec_text v (ServerMsgID m))
      else if k = ''chat_id'' then map_option (\<lambda>x. m\<lparr>ChatID := x\<rparr>) (dec_text v (ChatID m))
      else if k = ''from'' then map_option (\<lambda>x. m\<lparr>From := x\<rparr>) (dec_text v (From m))
      else if k = ''to'' then map_option (\<lambda>x. m\<lparr>To := x\<rparr>) (dec_text v (To m))
      else if k = ''seq'' then map_option (\<lambda>x. m\<lparr>Seq := x\<rparr>) (dec_uint64 v (Seq m))
      else if k = ''status'' then map_option (\<lambda>x. m\<lparr>Status := x\<rparr>) (dec_int (- 128) 128 v (Status m))
      else if k = ''body'' then map_option (\<lambda>x. m\<lparr>Body := x\<rparr>) (dec_text v (Body m))
      else if k = ''ts'' then map_option (\<lambda>x. m\<lparr>Ts := x\<rparr>) (dec_int (- (2 ^ 63)) (2 ^ 63) v (Ts m))
      else Some m)"

fun set_fields :: "(string \<times> json) list \<Rightarrow> Message \<Rightarrow> Message option" where
  "set_fields [] m = Some m"
| "set_fields ((k, v) # kvs) m = Option.bind (set_field k v m) (set_fields kvs)"

text \<open>\<open>var pm Message; json.Unmarshal(b, &pm)\<close>: \<open>None\<close> when it returns an error.\<close>

definition unmarshal_message :: "string \<Rightarrow> Message option" where
  "unmarshal_message s =
     (case parse_json s of
        Some (JObj kvs) \<Rightarrow> set_fields kvs zero_Message
      | Some JNull \<Rightarrow> Some zero_Message
      | _ \<Rightarrow> None)"

text \<open>\<open>json.Marshal\<close>: the fields in order, those with \<open>omitempty\<close> only when not zero.\<close>

fun enc_scalar :: "json \<Rightarrow> string" where
  "enc_scalar (JStr x) = enc_string x"
| "enc_scalar (JNum lit) = lit"
| "enc_scalar _ = ''null''"

definition opt_field :: "string \<Rightarrow> bool \<Rightarrow> json \<Rightarrow> (string \<times> json) list" where
  "opt_field k zero v = (if zero then [] else [(k, v)])"

definition message_fields :: "Message \<Rightarrow> (string \<times> json) list" where
  "message_fields m =
     (''type'', JStr (Type m)) #
     opt_field ''client_msg_id'' (ClientMsgID m = []) (JStr (ClientMsgID m)) @
     opt_field ''server_msg_id'' (ServerMsgID m = []) (JStr (ServerMsgID m)) @
     opt_field ''chat_id'' (ChatID m = []) (JStr (ChatID m)) @
     opt_field ''from'' (From m = []) (JStr (From m)) @
     opt_field ''to'' (To m = []) (JStr (To m)) @
     opt_field ''seq'' (Seq m = 0) (JNum (itoa (unat (Seq m)))) @
     opt_field ''status'' (Status m = 0) (JNum (itoa_int (Status m))) @
     opt_field ''body'' (Body m = []) (JStr (Body m)) @
     opt_field ''ts'' (Ts m = 0) (JNum (itoa_int (Ts m)))"

definition enc_member :: "string \<times> json \<Rightarrow> string" where
  "enc_member kv = enc_string (fst kv) @ '':'' @ enc_scalar (snd kv)"

definition marshal_message :: "Message \<Rightarrow> string" where
  "marshal_message m = ''{'' @ join '','' (map enc_member (message_fields m)) @ ''}''"

section \<open>The parser never runs out of fuel\<close>

lemma dec_chars_shorter: "dec_chars s = Some (x, t) \<Longrightarrow> length t < length s"
proof (induction s arbitrary: x rule: dec_chars.induct)
  case (2 c s)
  show ?case
  proof (cases "c = CHR 0x22 \<or> byte c < 32")
    case True
    with "2.prems" show ?thesis by (auto simp: dec_chars.simps(2) split: if_splits)
  next
    case False
    with "2.prems" "2.IH" show ?thesis
      by (fastforce simp: dec_chars.simps(2) split: if_splits option.splits prod.splits
          dest: dec_escape_shorter)
  qed
qed simp

lemma is_digit_number_char: "is_digit c \<Longrightarrow> number_char c"
  by (simp add: number_char_def)

lemma p_scalar_shorter:
  assumes "p_scalar s = Some (v, t)"
  shows "length t < length s"
proof (cases "v = JNum (takeWhile number_char s) \<and> number_ok (takeWhile number_char s)")
  case True
  then have ne: "takeWhile number_char s \<noteq> []" by (auto simp: number_ok_def HasPrefix_def)
  have "t = dropWhile number_char s"
    using assms True by (auto simp: p_scalar_def split: if_splits)
  moreover have "length s = length (takeWhile number_char s) + length (dropWhile number_char s)"
    by (metis length_append takeWhile_dropWhile_id)
  ultimately show ?thesis using ne by simp
next
  case False
  with assms show ?thesis
    by (auto simp: p_scalar_def HasPrefix_def split: if_splits dest: arg_cong[where f = length])
qed

lemma skip_ws_le: "length (skip_ws s) \<le> length s"
  by (rule length_dropWhile_le)

lemma skip_ws_Cons: "skip_ws s = c # t \<Longrightarrow> length t < length s"
  using skip_ws_le[of s] by simp

lemma parsers_shorter:
  "p_value n s = Some (v, t) \<Longrightarrow> length t < length s"
  "p_elems n s = Some (vs, t) \<Longrightarrow> length t < length s"
  "p_members n s = Some (kvs, t) \<Longrightarrow> length t < length s"
proof (induction n s and n s and n s arbitrary: v t and vs t and kvs t
    rule: p_value_p_elems_p_members.induct)
  case (2 n s)
  then obtain c r where c: "skip_ws s = c # r" by (auto simp: p_value.simps split: list.splits)
  have r: "length r < length s" using c by (rule skip_ws_Cons)
  consider "c = CHR 0x22" | "c = CHR ''{''" | "c = CHR ''[''"
    | "c \<noteq> CHR 0x22" "c \<noteq> CHR ''{''" "c \<noteq> CHR ''[''" by blast
  then show ?case
  proof cases
    case 1
    with "2.prems" c r show ?thesis by (auto simp: p_value.simps dest!: dec_chars_shorter)
  next
    case 2
    with "2.prems" c r skip_ws_le[of r] "2.IH"(1)[OF c] show ?thesis
      by (fastforce simp: p_value.simps split: if_splits)
  next
    case 3
    with "2.prems" c r skip_ws_le[of r] "2.IH"(2)[OF c] show ?thesis
      by (fastforce simp: p_value.simps split: if_splits)
  next
    case 4
    with "2.prems" c have "p_scalar (c # r) = Some (v, t)" by (simp add: p_value.simps)
    then show ?thesis using p_scalar_shorter c skip_ws_le[of s] by fastforce
  qed
next
  case (4 n s)
  then obtain v r where v: "p_value n s = Some (v, r)" by (auto simp: p_elems.simps split: option.splits)
  with 4 have r: "length r < length s" by blast
  from "4.prems" v obtain c u where c: "skip_ws r = c # u"
    by (auto simp: p_elems.simps split: list.splits)
  have u: "length u < length r" using c by (rule skip_ws_Cons)
  from "4.prems" v c r u "4.IH"(2)[OF v refl c] show ?case
    by (fastforce simp: p_elems.simps split: if_splits)
next
  case (6 n s)
  then obtain q r where q: "skip_ws s = q # r" "q = CHR 0x22"
    by (auto simp: p_members.simps split: list.splits if_splits)
  have r: "length r < length s" using q(1) by (rule skip_ws_Cons)
  from 6 q obtain k t1 where k: "dec_chars r = Some (k, t1)" by (auto simp: p_members.simps split: option.splits)
  have t1: "length t1 < length r" using k by (rule dec_chars_shorter)
  from "6.prems" q k obtain v t2 where col: "HasPrefix (skip_ws t1) '':''"
    and v: "p_value n (drop 1 (skip_ws t1)) = Some (v, t2)"
    by (auto simp: p_members.simps split: option.splits if_splits)
  from "6.IH"(1)[OF q(1) _ k refl _ v] q(2) col skip_ws_le[of t1] have t2: "length t2 < length t1" by simp
  from "6.prems" q k col v obtain c u where c: "skip_ws t2 = c # u"
    by (auto simp: p_members.simps split: list.splits)
  have u: "length u < length t2" using c by (rule skip_ws_Cons)
  show ?case
  proof (cases "c = CHR '',''")
    case True
    with "6.prems" q k col v c obtain kvs' where "p_members n u = Some (kvs', t)"
      by (auto simp: p_members.simps)
    with "6.IH"(2)[OF q(1) _ k refl _ v refl c] q(2) col True r t1 t2 u show ?thesis by simp
  next
    case False
    with "6.prems" q k col v c r t1 t2 u show ?thesis by (auto simp: p_members.simps split: if_splits)
  qed
qed (simp_all add: p_value.simps p_elems.simps p_members.simps)

lemma more_fuel:
  "2 * length s + 1 \<le> n \<Longrightarrow> 2 * length s + 1 \<le> m \<Longrightarrow> p_value n s = p_value m s"
  "2 * length s + 2 \<le> n \<Longrightarrow> 2 * length s + 2 \<le> m \<Longrightarrow> p_elems n s = p_elems m s"
  "2 * length s + 2 \<le> n \<Longrightarrow> 2 * length s + 2 \<le> m \<Longrightarrow> p_members n s = p_members m s"
proof (induction n s and n s and n s arbitrary: m and m and m
    rule: p_value_p_elems_p_members.induct)
  case (2 n s)
  from "2.prems" obtain m' where m: "m = Suc m'" by (cases m) auto
  show ?case
  proof (cases "skip_ws s")
    case Nil
    then show ?thesis by (simp only: m p_value.simps list.case)
  next
    case (Cons c r)
    then have r: "length r < length s" by (rule skip_ws_Cons)
    have fuel: "2 * length r + 2 \<le> n" "2 * length r + 2 \<le> m'" using "2.prems" r m by auto
    have "p_members n r = p_members m' r" if "c = CHR ''{''" "\<not> HasPrefix (skip_ws r) ''}''"
      using "2.IH"(1)[OF Cons _ _ _ fuel] that by simp
    moreover have "p_elems n r = p_elems m' r" if "c = CHR ''[''" "\<not> HasPrefix (skip_ws r) '']''"
      using "2.IH"(2)[OF Cons _ _ _ _ fuel] that by simp
    ultimately show ?thesis using m Cons by (simp add: p_value.simps)
  qed
next
  case (4 n s)
  from "4.prems" obtain m' where m: "m = Suc m'" by (cases m) auto
  have v: "p_value n s = p_value m' s"
    by (rule "4.IH"(1)) (use "4.prems" in \<open>simp_all add: m\<close>)
  show ?case
  proof (cases "p_value n s")
    case (Some x)
    then obtain w r where x: "p_value n s = Some (w, r)" by (cases x) auto
    have r: "length r < length s" using x by (rule parsers_shorter)
    have rest: "p_elems n u = p_elems m' u" if c: "skip_ws r = CHR '','' # u" for u
    proof (rule "4.IH"(2)[OF x refl c _ refl])
      show "CHR '','' \<noteq> CHR '']''" by simp
      have "2 * length u + 2 \<le> 2 * length s" using skip_ws_Cons[OF c] r by linarith
      then show "2 * length u + 2 \<le> n" "2 * length u + 2 \<le> m'" using "4.prems" m by linarith+
    qed
    have "p_value m' s = Some (w, r)" using x v by simp
    with x rest show ?thesis
      unfolding m by (cases "skip_ws r") (simp_all only: p_elems.simps option.case prod.case list.case, auto)
  qed (use v m in \<open>simp add: p_elems.simps\<close>)
next
  case (6 n s)
  from "6.prems" obtain m' where m: "m = Suc m'" by (cases m) auto
  show ?case
  proof (cases "\<exists>r k t1. skip_ws s = CHR 0x22 # r \<and> dec_chars r = Some (k, t1) \<and> HasPrefix (skip_ws t1) '':''")
    case False
    then show ?thesis
      unfolding m by (auto simp: p_members.simps split: list.split option.split)
  next
    case True
    then obtain r k t1 where q: "skip_ws s = CHR 0x22 # r" and k: "dec_chars r = Some (k, t1)"
      and col: "HasPrefix (skip_ws t1) '':''" by blast
    have r: "length r < length s" using q by (rule skip_ws_Cons)
    have t1: "length t1 < length r" using k by (rule dec_chars_shorter)
    let ?t = "drop 1 (skip_ws t1)"
    have t: "length ?t \<le> length t1" using skip_ws_le[of t1] by simp
    have v: "p_value n ?t = p_value m' ?t"
    proof (rule "6.IH"(1)[OF q _ k refl])
      show "\<not> CHR 0x22 \<noteq> CHR 0x22" "\<not> \<not> HasPrefix (skip_ws t1) '':''" using col by simp_all
      have "2 * length ?t + 1 \<le> 2 * length s" using t t1 r by linarith
      then show "2 * length ?t + 1 \<le> n" "2 * length ?t + 1 \<le> m'" using "6.prems" m by linarith+
    qed
    show ?thesis
    proof (cases "p_value n ?t")
      case None
      then show ?thesis using q k col v unfolding m by (simp add: p_members.simps)
    next
      case (Some x)
      then obtain w t2 where x: "p_value n ?t = Some (w, t2)" by (cases x) auto
      have t2: "length t2 < length ?t" using x by (rule parsers_shorter)
      have rest: "p_members n u = p_members m' u" if c: "skip_ws t2 = CHR '','' # u" for u
      proof (rule "6.IH"(2)[OF q _ k refl _ x refl c _ refl])
        show "\<not> CHR 0x22 \<noteq> CHR 0x22" "\<not> \<not> HasPrefix (skip_ws t1) '':''" using col by simp_all
        show "CHR '','' \<noteq> CHR ''}''" by simp
        have "2 * length u + 2 \<le> 2 * length s"
          using skip_ws_Cons[OF c] r t t1 t2 by linarith
        then show "2 * length u + 2 \<le> n" "2 * length u + 2 \<le> m'" using "6.prems" m by linarith+
      qed
      have "p_value m' ?t = Some (w, t2)" using x v by simp
      with q k col x rest show ?thesis
        unfolding m
        by (cases "skip_ws t2")
          (simp_all only: p_members.simps option.case prod.case list.case simp_thms if_False, auto)
    qed
  qed
qed simp_all

text \<open>
  Reading a message always terminates with a definite answer: the bound on the number of
  parsing steps, twice the length of the input and one, is never what stops the parser. With any
  larger bound the result is the same, so \<open>None\<close> means that the input is not JSON.
\<close>

theorem json_fuel_suffices:
  assumes "2 * length s + 1 \<le> n"
  shows "parse_json s = (case p_value n s of
      Some (v, t) \<Rightarrow> (if skip_ws t = [] then Some v else None) | None \<Rightarrow> None)"
  using more_fuel(1)[OF assms order.refl] by (simp add: parse_json_def)

theorem json_fuel_suffices_witness:
  "parse_json ''{}'' = (case p_value 1000 ''{}'' of
      Some (v, t) \<Rightarrow> (if skip_ws t = [] then Some v else None) | None \<Rightarrow> None)"
  by (rule json_fuel_suffices) simp

section \<open>Round trip\<close>

lemma skip_ws_stop: "\<not> json_ws c \<Longrightarrow> skip_ws (c # s) = c # s"
  by simp

text \<open>Decimal numbers are JSON numbers, and nothing after them is taken for a part of them.\<close>

lemma is_digit_digit: "d < 10 \<Longrightarrow> is_digit (digit d)"
  by (simp add: is_digit_def digit_bounds)

lemma is_digit_itoa: "list_all is_digit (itoa n)"
proof (induction n rule: itoa.induct)
  case (1 n)
  then show ?case by (cases "n < 10") (auto simp: itoa.simps[of n] is_digit_digit)
qed

lemma hd_itoa: "0 < n \<Longrightarrow> hd (itoa n) \<noteq> CHR ''0''"
proof (induction n rule: itoa.induct)
  case (1 n)
  show ?case
  proof (cases "n < 10")
    case True
    have "digit n \<noteq> CHR ''0''"
    proof
      assume "digit n = CHR ''0''"
      then have "digit_val (digit n) = 0" by (simp add: digit_val_def)
      with True "1.prems" show False by simp
    qed
    with True show ?thesis by (simp add: itoa.simps[of n])
  next
    case False
    with 1 show ?thesis by (simp add: itoa.simps[of n])
  qed
qed

lemma digits_take_drop:
  "list_all is_digit s \<Longrightarrow> takeWhile is_digit s = s \<and> dropWhile is_digit s = []"
  by (induction s) auto

lemma number_ok_digits: "number_ok (itoa n)"
proof -
  have "\<not> HasPrefix (itoa n) ''-''" using digits_no_sign[OF all_digits_itoa] by blast
  moreover have "hd (itoa n) = CHR ''0'' \<longrightarrow> length (itoa n) = 1"
    using hd_itoa[of n] by (cases "n = 0") (auto simp: itoa.simps[of 0])
  moreover have "takeWhile is_digit (itoa n) = itoa n" "dropWhile is_digit (itoa n) = []"
    using digits_take_drop[OF is_digit_itoa, of n] by blast+
  ultimately show ?thesis
    by (simp only: number_ok_def Let_def if_False itoa_ne) (simp add: frac_ok_def HasPrefix_def exp_ok_def)
qed

lemma number_ok_itoa_int: "number_ok (itoa_int n)"
proof (cases "n < 0")
  case True
  have "number_ok (CHR ''-'' # ds) = number_ok ds" if "list_all is_digit ds" for ds
    using that by (cases ds) (auto simp: number_ok_def Let_def HasPrefix_def is_digit_def less_eq_char_def)
  with True number_ok_digits[of "nat (- n)"] is_digit_itoa show ?thesis by (simp add: itoa_int_def)
qed (simp add: itoa_int_def number_ok_digits)

lemma number_chars_itoa_int: "list_all number_char (itoa_int n)"
proof -
  have "list_all number_char (itoa k)" for k
    using is_digit_itoa[of k] by (auto simp: list_all_iff is_digit_number_char)
  moreover have "number_char CHR ''-''" by (simp add: number_char_def)
  ultimately show ?thesis by (simp add: itoa_int_def)
qed

lemma itoa_as_int: "itoa n = itoa_int (int n)"
  by (simp add: itoa_int_def)

lemma number_head:
  assumes "number_ok lit"
  obtains c t where "lit = c # t" and "c = CHR ''-'' \<or> is_digit c"
proof (cases lit)
  case Nil
  with assms show thesis by (simp add: number_ok_def HasPrefix_def)
next
  case (Cons c t)
  have "is_digit c" if "c \<noteq> CHR ''-''"
    using assms that Cons by (auto simp: number_ok_def Let_def HasPrefix_def split: if_splits)
  with Cons that show thesis by blast
qed

lemma p_value_number:
  assumes "number_ok lit" and "list_all number_char lit" and "\<not> number_char d"
  shows "p_value (Suc n) (lit @ d # t) = Some (JNum lit, d # t)"
proof -
  obtain c r where lit: "lit = c # r" and c: "c = CHR ''-'' \<or> is_digit c"
    using number_head[OF assms(1)] by blast
  then have c': "\<not> json_ws c" "c \<noteq> CHR 0x22" "c \<noteq> CHR ''{''" "c \<noteq> CHR ''[''"
    "c \<noteq> CHR ''t''" "c \<noteq> CHR ''f''" "c \<noteq> CHR ''n''"
    by (auto simp: json_ws_def is_digit_def less_eq_char_def)
  have tw: "takeWhile number_char (lit @ d # t) = lit" "dropWhile number_char (lit @ d # t) = d # t"
    using assms(2,3) by (induction lit) auto
  have "p_scalar (lit @ d # t) = Some (JNum lit, d # t)"
    using assms(1) tw c' by (simp add: p_scalar_def lit HasPrefix_def)
  with c' show ?thesis by (simp add: p_value.simps lit)
qed

lemma p_value_text:
  "utf8_valid x \<Longrightarrow> p_value (Suc n) (enc_string x @ t) = Some (JStr x, t)"
  by (simp add: p_value.simps enc_string_def json_ws_def dec_enc_chars)

text \<open>The scalars that occur in a message.\<close>

fun scalar_ok :: "json \<Rightarrow> bool" where
  "scalar_ok (JStr x) = utf8_valid x"
| "scalar_ok (JNum lit) = (number_ok lit \<and> list_all number_char lit)"
| "scalar_ok _ = False"

lemma p_value_scalar:
  assumes "scalar_ok v" and "d = CHR '','' \<or> d = CHR ''}''"
  shows "p_value (Suc n) (enc_scalar v @ d # t) = Some (v, d # t)"
proof (cases v)
  case (JNum lit)
  with assms show ?thesis
    by (auto intro!: p_value_number simp: number_char_def is_digit_def less_eq_char_def)
qed (use assms in \<open>simp_all add: p_value_text\<close>)

lemma p_members_enc:
  assumes "kvs \<noteq> []" and "\<forall>(k, v) \<in> set kvs. utf8_valid k \<and> scalar_ok v" and "length kvs < n"
  shows "p_members n (join '','' (map enc_member kvs) @ ''}'' @ t) = Some (kvs, t)"
  using assms
proof (induction kvs arbitrary: n)
  case (Cons kv kvs)
  obtain k v where kv: "kv = (k, v)" by (cases kv)
  have ok: "utf8_valid k" "scalar_ok v" using Cons.prems(2) kv by auto
  obtain m where n: "n = Suc (Suc m)" using Cons.prems(3) by (cases n; cases "n - 1") auto
  have head: "p_members n (enc_member kv @ d # u) =
      (if d = CHR ''}'' then Some ([(k, v)], u)
       else map_option (apfst (Cons (k, v))) (p_members (Suc m) u))"
    if "d = CHR '','' \<or> d = CHR ''}''" for d u
    using p_value_scalar[OF ok(2) that, of m u] ok(1) that
    by (auto simp: n p_members.simps enc_member_def kv enc_string_def json_ws_def dec_enc_chars
        HasPrefix_def)
  show ?case
  proof (cases kvs)
    case Nil
    then show ?thesis using head[of "CHR ''}''" t] by (simp add: kv)
  next
    case (Cons kv' kvs')
    then have "join '','' (map enc_member (kv # kvs)) = enc_member kv @ CHR '','' #
        join '','' (map enc_member kvs)" by simp
    moreover have "p_members (Suc m) (join '','' (map enc_member kvs) @ ''}'' @ t) = Some (kvs, t)"
      using Cons.prems Cons n by (intro Cons.IH) auto
    ultimately show ?thesis
      using head[of "CHR '',''" "join '','' (map enc_member kvs) @ ''}'' @ t"] by (simp add: kv)
  qed
qed simp

lemma length_join_members: "2 * length kvs \<le> length (join '','' (map enc_member kvs))"
proof -
  have two: "2 \<le> length (enc_member kv)" for kv by (simp add: enc_member_def enc_string_def)
  show ?thesis
  proof (induction kvs)
    case (Cons kv kvs)
    then show ?case
      using two[of kv] by (cases kvs) (auto intro: add_mono)
  qed simp
qed

lemma parse_object:
  assumes "kvs \<noteq> []" and "\<forall>(k, v) \<in> set kvs. utf8_valid k \<and> scalar_ok v"
  shows "parse_json (''{'' @ join '','' (map enc_member kvs) @ ''}'') = Some (JObj kvs)"
proof -
  let ?s = "join '','' (map enc_member kvs)"
  have "\<exists>u. ?s = CHR 0x22 # u"
    using assms(1) by (cases kvs; cases "tl kvs") (auto simp: enc_member_def enc_string_def)
  then have head: "\<not> HasPrefix (skip_ws (?s @ ''}'')) ''}''" by (auto simp: HasPrefix_def json_ws_def)
  have "p_members (2 * length (''{'' @ ?s @ ''}'')) (?s @ ''}'') = Some (kvs, [])"
    using p_members_enc[OF assms, of _ "[]"] length_join_members[of kvs] assms(1) by simp
  then have "p_value (Suc (2 * length (''{'' @ ?s @ ''}''))) (''{'' @ ?s @ ''}'') = Some (JObj kvs, [])"
    using head by (simp add: p_value.simps json_ws_def del: HasPrefix_def)
  then show ?thesis by (simp add: parse_json_def)
qed

lemma fold_names:
  "fold_name ''type'' = ''type''" "fold_name ''client_msg_id'' = ''client_msg_id''"
  "fold_name ''server_msg_id'' = ''server_msg_id''" "fold_name ''chat_id'' = ''chat_id''"
  "fold_name ''from'' = ''from''" "fold_name ''to'' = ''to''" "fold_name ''seq'' = ''seq''"
  "fold_name ''status'' = ''status''" "fold_name ''body'' = ''body''" "fold_name ''ts'' = ''ts''"
  by code_simp+

declare fold_name.simps [simp del]

lemma set_fields_append: "set_fields (xs @ ys) m = Option.bind (set_fields xs m) (set_fields ys)"
  by (induction xs m rule: set_fields.induct) (auto split: Option.bind_split)

text \<open>An omitted field is one whose value is the zero value that the field already has.\<close>

lemma set_opt_field:
  "set_fields (opt_field k z v) m = (if z then Some m else set_field k v m)"
  by (cases "set_field k v m") (simp_all add: opt_field_def)

lemma set_text:
  "set_field ''type'' (JStr x) m = Some (m\<lparr>Type := x\<rparr>)"
  "set_field ''client_msg_id'' (JStr x) m = Some (m\<lparr>ClientMsgID := x\<rparr>)"
  "set_field ''server_msg_id'' (JStr x) m = Some (m\<lparr>ServerMsgID := x\<rparr>)"
  "set_field ''chat_id'' (JStr x) m = Some (m\<lparr>ChatID := x\<rparr>)"
  "set_field ''from'' (JStr x) m = Some (m\<lparr>From := x\<rparr>)"
  "set_field ''to'' (JStr x) m = Some (m\<lparr>To := x\<rparr>)"
  "set_field ''body'' (JStr x) m = Some (m\<lparr>Body := x\<rparr>)"
  by (simp_all add: set_field_def fold_names dec_text_def)

lemma set_number:
  "set_field ''seq'' (JNum (itoa (unat n))) m = Some (m\<lparr>Seq := n\<rparr>)"
  "- 128 \<le> k \<Longrightarrow> k < 128 \<Longrightarrow> set_field ''status'' (JNum (itoa_int k)) m = Some (m\<lparr>Status := k\<rparr>)"
  "- (2 ^ 63) \<le> t \<Longrightarrow> t < 2 ^ 63 \<Longrightarrow> set_field ''ts'' (JNum (itoa_int t)) m = Some (m\<lparr>Ts := t\<rparr>)"
proof -
  have "unat n < 2 ^ 64" using unsigned_less[of n] by simp
  then show "set_field ''seq'' (JNum (itoa (unat n))) m = Some (m\<lparr>Seq := n\<rparr>)"
    by (simp add: set_field_def fold_names dec_uint64_def ParseUint_itoa)
qed (simp_all add: set_field_def fold_names dec_int_def Atoi_itoa_int)

definition wire_ok :: "Message \<Rightarrow> bool" where
  "wire_ok m \<longleftrightarrow> list_all utf8_valid [Type m, ClientMsgID m, ServerMsgID m, ChatID m, From m, To m, Body m] \<and>
     - 128 \<le> Status m \<and> Status m < 128 \<and> - (2 ^ 63) \<le> Ts m \<and> Ts m < 2 ^ 63"

lemma message_fields_ok:
  assumes "wire_ok m"
  shows "\<forall>(k, v) \<in> set (message_fields m). utf8_valid k \<and> scalar_ok v"
proof -
  have "list_all utf8_valid [''type'', ''client_msg_id'', ''server_msg_id'', ''chat_id'', ''from'',
      ''to'', ''seq'', ''status'', ''body'', ''ts'']"
    by (simp add: utf8_valid_ascii)
  moreover have "number_ok (itoa (unat (Seq m))) \<and> list_all number_char (itoa (unat (Seq m)))"
    by (simp add: itoa_as_int number_ok_itoa_int number_chars_itoa_int)
  ultimately show ?thesis
    using assms
    by (simp add: message_fields_def opt_field_def wire_ok_def number_ok_itoa_int
        number_chars_itoa_int)
qed

text \<open>
  C35: messages survive the wire: unmarshalling what \<open>json.Marshal\<close> wrote for a message gives
  back the same message, omitted fields included, for all texts in valid UTF-8, all 64-bit sequence
  numbers and all values of the \<open>int8\<close> and \<open>int64\<close> fields.
\<close>

theorem message_roundtrip:
  assumes "wire_ok m"
  shows "unmarshal_message (marshal_message m) = Some m"
proof -
  have "parse_json (marshal_message m) = Some (JObj (message_fields m))"
    unfolding marshal_message_def
    by (rule parse_object[OF _ message_fields_ok[OF assms]]) (simp add: message_fields_def)
  moreover have "set_fields (message_fields m) zero_Message = Some m"
    using assms
    by (simp add: message_fields_def set_fields_append set_opt_field set_text set_number wire_ok_def
        zero_Message_def)
  ultimately show ?thesis by (simp add: unmarshal_message_def)
qed

theorem message_roundtrip_witness:
  "let m = zero_Message\<lparr>Type := TypeSend, From := ''ann'', Body := [CHR 0x22, CHR 0x0A, CHR ''}''],
       Seq := - 1, Status := - 128, Ts := - 5\<rparr>
   in unmarshal_message (marshal_message m) = Some m"
proof -
  let ?m = "zero_Message\<lparr>Type := TypeSend, From := ''ann'', Body := [CHR 0x22, CHR 0x0A, CHR ''}''],
       Seq := - 1, Status := - 128, Ts := - 5\<rparr>"
  have "wire_ok ?m"
    by (simp add: wire_ok_def zero_Message_def TypeSend_def utf8_valid_ascii)
  with message_roundtrip[of ?m] show ?thesis by (simp add: Let_def)
qed

end
