(* ===== verification/Store_Delivery.thy ===== *)
theory Store_Delivery
  imports Mem_Store
begin

text \<open>
  The delivery half of the store: recording recipients, acknowledgements and read receipts,
  retry scheduling with exponential back-off and dead letters, the three scans that feed the
  delivery queue, statistics and history (\<open>delivery.go\<close>, \<open>retry.go\<close>, \<open>history.go\<close>).

  A call is one step here. The source holds the mutex only while it reads or changes the maps: in database
  mode \<open>GetRecipients\<close>, \<open>ScheduleRetry\<close>, the acknowledgements and the scans release it around each
  query of the database and the cache, and what another call does in between is not covered.
\<close>

section \<open>Deliveries (delivery.go)\<close>

definition SaveDelivery ::
  "('d, 'c) backend \<Rightarrow> string \<Rightarrow> string \<Rightarrow> ('d, 'c) store \<Rightarrow>
   store_error option \<times> ('d, 'c) store" where
  "SaveDelivery b serverMsgID to s =
     (if serverMsgID = [] \<or> to = [] then (None, s)
      else
        (let s1 = saveDeliveryUnsafe serverMsgID to s in
         if \<not> persistent s then (None, s1)
         else case t_create_ignore (recipients_t (gorm b)) (new_recipient serverMsgID to) (db s1) of
           (Some e, d) \<Rightarrow> (Some (StoreDB e), s1\<lparr>db := d\<rparr>)
         | (None, d) \<Rightarrow>
             (None, del_keys b [RecipientsKey serverMsgID, PendingUserKey to] (s1\<lparr>db := d\<rparr>))))"

text \<open>The in-memory scan of one message's entries, in iteration order.\<close>

definition mem_recipients :: "rt \<Rightarrow> ('d, 'c) store \<Rightarrow> string \<Rightarrow> string list" where
  "mem_recipients r s serverMsgID =
     (case map_of (deliveries s) serverMsgID of
        None \<Rightarrow> []
      | Some m \<Rightarrow>
          filter (\<lambda>to. case map_of m to of None \<Rightarrow> False | Some e \<Rightarrow> undelivered e)
            (rng r (gkeys m)))"

definition GetRecipients ::
  "('d, 'c) backend \<Rightarrow> rt \<Rightarrow> string \<Rightarrow> ('d, 'c) store \<Rightarrow> string list \<times> ('d, 'c) store" where
  "GetRecipients b r serverMsgID s =
     (let res = mem_recipients r s serverMsgID in
      if res \<noteq> [] \<or> \<not> persistent s then (res, s)
      else case cache_get_strings b (RecipientsKey serverMsgID) (cache s) of
        (Some out, c) \<Rightarrow> (out, fold (saveDeliveryUnsafe serverMsgID) out (s\<lparr>cache := c\<rparr>))
      | (None, c) \<Rightarrow>
          (case t_find (recipients_t (gorm b))
                  (\<lambda>row. coll (gorm b) (DR_ServerMsgID row) serverMsgID \<and> DR_Status row = 0)
                  Unordered None None (db s) of
             (Inl _, d) \<Rightarrow> ([], s\<lparr>cache := c, db := d\<rparr>)
           | (Inr rows, d) \<Rightarrow>
               (let tos = map DR_ToUser rows;
                    s1 = fold (\<lambda>row. saveDeliveryUnsafe (DR_ServerMsgID row) (DR_ToUser row)) rows
                           (s\<lparr>cache := c, db := d\<rparr>)
                in (tos,
                    if tos \<noteq> []
                    then s1\<lparr>cache := cache_set_strings b (RecipientsKey serverMsgID) tos
                              (5 * second) (cache s1)\<rparr>
                    else s1))))"

definition MarkDeliverySent ::
  "('d, 'c) backend \<Rightarrow> rt \<Rightarrow> string \<Rightarrow> string \<Rightarrow> string option \<Rightarrow> ('d, 'c) store \<Rightarrow>
   store_error option \<times> ('d, 'c) store" where
  "MarkDeliverySent b r serverMsgID to sendErr s =
     (let s1 = mod_entry serverMsgID to
                 (\<lambda>e. e\<lparr>Retry := Retry e + 1, LastSent := unix (clk r 0)\<rparr>) s in
      if \<not> persistent s \<or> serverMsgID = [] \<or> to = [] then (None, s1)
      else case update_recipients b (row_is b serverMsgID to)
             (\<lambda>row. row\<lparr>DR_RetryCount := DR_RetryCount row + 1, DR_LastSendAt := Some (clk r 1),
                        DR_LastError := (case sendErr of None \<Rightarrow> [] | Some t \<Rightarrow> t)\<rparr>) s1 of
        (e, s2) \<Rightarrow> (map_option StoreDB e, s2))"

definition MarkDeliveryAcked ::
  "('d, 'c) backend \<Rightarrow> rt \<Rightarrow> string \<Rightarrow> string \<Rightarrow> ('d, 'c) store \<Rightarrow>
   store_error option \<times> ('d, 'c) store" where
  "MarkDeliveryAcked b r serverMsgID to s =
     (let s1 = mod_entry serverMsgID to (\<lambda>e. e\<lparr>Acked := True\<rparr>) s in
      if \<not> persistent s then (None, s1)
      else case update_recipients b (row_is b serverMsgID to)
             (\<lambda>row. row\<lparr>DR_Status := (if DR_Status row < 1 then 1 else DR_Status row),
                        DR_AckedAt := Some (clk r 0)\<rparr>) s1 of
        (Some e, s2) \<Rightarrow> (Some (StoreDB e), s2)
      | (None, s2) \<Rightarrow> (None, del_keys b [RecipientsKey serverMsgID, PendingUserKey to] s2))"

definition MarkDeliveryRead ::
  "('d, 'c) backend \<Rightarrow> rt \<Rightarrow> string \<Rightarrow> string \<Rightarrow> ('d, 'c) store \<Rightarrow>
   store_error option \<times> ('d, 'c) store" where
  "MarkDeliveryRead b r serverMsgID to s =
     (let s1 = mod_entry serverMsgID to (\<lambda>e. e\<lparr>Acked := True, Read := True\<rparr>) s in
      if \<not> persistent s then (None, s1)
      else case update_recipients b (row_is b serverMsgID to)
             (\<lambda>row. row\<lparr>DR_Status := 2, DR_AckedAt := Some (clk r 0),
                        DR_ReadAt := Some (clk r 0)\<rparr>) s1 of
        (Some e, s2) \<Rightarrow> (Some (StoreDB e), s2)
      | (None, s2) \<Rightarrow> (None, del_keys b [RecipientsKey serverMsgID, PendingUserKey to] s2))"

text \<open>The counting loop over all entries, and the reading of the grouped counts.\<close>

definition count_entry :: "DeliveryEntry \<Rightarrow> DeliveryStatusStats \<Rightarrow> DeliveryStatusStats" where
  "count_entry e st =
     (if Dead e then st\<lparr>DeadCount := DeadCount st + 1\<rparr>
      else if Read e then st\<lparr>ReadCount := ReadCount st + 1\<rparr>
      else if Acked e then st\<lparr>Delivered := Delivered st + 1\<rparr>
      else st\<lparr>Pending := Pending st + 1\<rparr>)"

definition zero_stats :: DeliveryStatusStats where
  "zero_stats = \<lparr>Pending = 0, Delivered = 0, ReadCount = 0, DeadCount = 0\<rparr>"

definition all_entries :: "('d, 'c) store \<Rightarrow> DeliveryEntry list" where
  "all_entries s = concat (map (\<lambda>(_, m). map snd m) (deliveries s))"

definition count_row :: "int \<times> int \<Rightarrow> DeliveryStatusStats \<Rightarrow> DeliveryStatusStats" where
  "count_row row st =
     (if fst row = 0 then st\<lparr>Pending := snd row\<rparr>
      else if fst row = 1 then st\<lparr>Delivered := snd row\<rparr>
      else if fst row = 2 then st\<lparr>ReadCount := snd row\<rparr>
      else if fst row = 3 then st\<lparr>DeadCount := snd row\<rparr>
      else st)"

definition DeliveryStats ::
  "('d, 'c) backend \<Rightarrow> ('d, 'c) store \<Rightarrow> DeliveryStatusStats \<times> ('d, 'c) store" where
  "DeliveryStats b s =
     (if \<not> persistent s then (fold count_entry (all_entries s) zero_stats, s)
      else case count_status (gorm b) (db s) of
        (Inl _, d) \<Rightarrow> (zero_stats, s\<lparr>db := d\<rparr>)
      | (Inr rows, d) \<Rightarrow> (fold count_row rows zero_stats, s\<lparr>db := d\<rparr>))"

section \<open>Retries (retry.go)\<close>

text \<open>
  \<open>baseBackoff * time.Duration(1<<exp)\<close> with \<open>exp = min(n - 1, 6)\<close>, a wrapping product
  of 64-bit durations.
\<close>

definition backoff :: "int \<Rightarrow> int \<Rightarrow> int" where
  "backoff base n = i64 (base * 2 ^ nat (if n - 1 > 6 then 6 else n - 1))"

text \<open>
  The update of a recipient's row to the dead-letter state, and the second half of
  \<open>ScheduleRetry\<close>, which works on the database row.
\<close>

definition bury_rows ::
  "('d, 'c) backend \<Rightarrow> (db_recipient \<Rightarrow> bool) \<Rightarrow> int \<Rightarrow> string \<Rightarrow> ('d, 'c) store \<Rightarrow>
   db_error option \<times> ('d, 'c) store" where
  "bury_rows b w retries errText s =
     update_recipients b w
       (\<lambda>row. row\<lparr>DR_Status := 3, DR_RetryCount := retries, DR_LastError := errText,
                  DR_NextRetryAt := None\<rparr>) s"

definition retry_keys :: "string \<Rightarrow> string \<Rightarrow> string list" where
  "retry_keys serverMsgID to =
     [RecipientsKey serverMsgID, PendingUserKey to, PendingDueKey, PendingRecoverKey]"

definition schedule_row ::
  "('d, 'c) backend \<Rightarrow> string \<Rightarrow> string \<Rightarrow> string \<Rightarrow> int \<Rightarrow> int \<Rightarrow> int \<Rightarrow> ('d, 'c) store \<Rightarrow>
   (bool \<times> store_error option) \<times> ('d, 'c) store" where
  "schedule_row b serverMsgID to errText maxRetries baseBackoff now s1 =
     (case t_take (recipients_t (gorm b)) (row_is b serverMsgID to) (db s1) of
        (Inl e, d) \<Rightarrow> ((False, Some (StoreDB e)), s1\<lparr>db := d\<rparr>)
      | (Inr row, d) \<Rightarrow>
          (let s2 = s1\<lparr>db := d\<rparr> in
           if DR_Status row \<ge> 1 then ((False, None), s2)
           else
             (let nextRetryCount = DR_RetryCount row + 1 in
              if nextRetryCount \<ge> maxRetries then
                (case bury_rows b (\<lambda>row'. DR_ID row' = DR_ID row) nextRetryCount errText s2 of
                   (Some e, s3) \<Rightarrow> ((False, Some (StoreDB e)), s3)
                 | (None, s3) \<Rightarrow> ((True, None), del_keys b (retry_keys serverMsgID to) s3))
              else
                (case update_recipients b (\<lambda>row'. DR_ID row' = DR_ID row)
                        (\<lambda>row'. row'\<lparr>DR_RetryCount := nextRetryCount, DR_LastError := errText,
                                    DR_NextRetryAt :=
                                      Some (now + backoff baseBackoff nextRetryCount)\<rparr>) s2 of
                   (Some e, s3) \<Rightarrow> ((False, Some (StoreDB e)), s3)
                 | (None, s3) \<Rightarrow>
                     ((False, None), del_keys b [PendingDueKey, PendingRecoverKey] s3)))))"

definition ScheduleRetry ::
  "('d, 'c) backend \<Rightarrow> rt \<Rightarrow> string \<Rightarrow> string \<Rightarrow> string option \<Rightarrow> int \<Rightarrow> int \<Rightarrow>
   ('d, 'c) store \<Rightarrow> (bool \<times> store_error option) \<times> ('d, 'c) store" where
  "ScheduleRetry b r serverMsgID to lastErr maxRetries0 baseBackoff0 s =
     (if serverMsgID = [] \<or> to = [] then ((False, None), s)
      else
        (let maxRetries = (if maxRetries0 \<le> 0 then 5 else maxRetries0);
             baseBackoff = (if baseBackoff0 \<le> 0 then 2 * second else baseBackoff0);
             errText = (case lastErr of None \<Rightarrow> ''delivery failed'' | Some t \<Rightarrow> t);
             now = clk r 0;
             entry = find_entry s serverMsgID to;
             retries = (case entry of None \<Rightarrow> 0 | Some e \<Rightarrow> Retry e + 1)
         in if entry \<noteq> None \<and> retries \<ge> maxRetries then
              (let s1 = mod_entry serverMsgID to
                          (\<lambda>e. e\<lparr>Retry := retries, LastError := errText, Dead := True\<rparr>) s in
               if \<not> persistent s then ((True, None), s1)
               else case bury_rows b (row_is b serverMsgID to) retries errText s1 of
                 (Some e, s2) \<Rightarrow> ((True, Some (StoreDB e)), s2)
               | (None, s2) \<Rightarrow> ((True, None), del_keys b (retry_keys serverMsgID to) s2))
            else
              (let s1 = mod_entry serverMsgID to
                          (\<lambda>e. e\<lparr>Retry := retries, LastError := errText,
                                 NextRetryAt := unix (now + backoff baseBackoff retries)\<rparr>) s in
               if \<not> persistent s then ((False, None), s1)
               else schedule_row b serverMsgID to errText maxRetries baseBackoff now s1)))"

text \<open>
  The loop bodies \<open>_ = s.SaveDelivery(row.ServerMsgID, row.ToUser); out = append(out,
  row.ServerMsgID)\<close> of the three scans.
\<close>

fun save_rows ::
  "('d, 'c) backend \<Rightarrow> db_recipient list \<Rightarrow> ('d, 'c) store \<Rightarrow> string list \<times> ('d, 'c) store" where
  "save_rows b [] s = ([], s)"
| "save_rows b (row # rows) s =
     (case save_rows b rows (snd (SaveDelivery b (DR_ServerMsgID row) (DR_ToUser row) s)) of
        (out, s') \<Rightarrow> (DR_ServerMsgID row # out, s'))"

text \<open>The query, the loop and the refill of the cached list, common to the three scans.\<close>

definition scan_rows ::
  "('d, 'c) backend \<Rightarrow> string \<Rightarrow> (db_recipient \<Rightarrow> bool) \<Rightarrow> db_recipient order \<Rightarrow> int \<Rightarrow>
   ('d, 'c) store \<Rightarrow> string list \<times> ('d, 'c) store" where
  "scan_rows b key w ord limit s =
     (case t_find (recipients_t (gorm b)) w ord (limit_clause limit) None (db s) of
        (Inl _, d) \<Rightarrow> ([], s\<lparr>db := d\<rparr>)
      | (Inr rows, d) \<Rightarrow>
          (case save_rows b rows (s\<lparr>db := d\<rparr>) of
             (out, s1) \<Rightarrow>
               (dedupeStrings out,
                if out \<noteq> []
                then s1\<lparr>cache := cache_set_strings b key out (2 * second) (cache s1)\<rparr>
                else s1)))"

definition due :: "int \<Rightarrow> DeliveryEntry \<Rightarrow> bool" where
  "due now e \<longleftrightarrow> undelivered e \<and> NextRetryAt e > 0 \<and> NextRetryAt e \<le> unix now"

text \<open>Ids of the messages that have an entry satisfying \<open>P\<close>, in iteration order.\<close>

definition mem_scan :: "rt \<Rightarrow> (DeliveryEntry \<Rightarrow> bool) \<Rightarrow> ('d, 'c) store \<Rightarrow> string list" where
  "mem_scan r P s =
     filter (\<lambda>i. case map_of (deliveries s) i of
                   None \<Rightarrow> False
                 | Some m \<Rightarrow> list_ex P (map snd m))
       (rng r (gkeys (deliveries s)))"

definition next_retry_key :: "db_recipient \<Rightarrow> int" where
  "next_retry_key row = (case DR_NextRetryAt row of None \<Rightarrow> 0 | Some t \<Rightarrow> t)"

definition GetDueRetryServerMsgIDs ::
  "('d, 'c) backend \<Rightarrow> rt \<Rightarrow> int \<Rightarrow> ('d, 'c) store \<Rightarrow> string list \<times> ('d, 'c) store" where
  "GetDueRetryServerMsgIDs b r limit s =
     (let now = clk r 0 in
      if \<not> persistent s then (dedupeStrings (limit_to limit (mem_scan r (due now) s)), s)
      else case cache_get_strings b PendingDueKey (cache s) of
        (Some out, c) \<Rightarrow> (dedupeStrings out, s\<lparr>cache := c\<rparr>)
      | (None, c) \<Rightarrow>
          scan_rows b PendingDueKey
            (\<lambda>row. DR_Status row = 0 \<and>
               (case DR_NextRetryAt row of None \<Rightarrow> False | Some t \<Rightarrow> t \<le> now))
            (Asc next_retry_key) limit (s\<lparr>cache := c\<rparr>))"

definition RecoverPendingServerMsgIDs ::
  "('d, 'c) backend \<Rightarrow> rt \<Rightarrow> int \<Rightarrow> ('d, 'c) store \<Rightarrow> string list \<times> ('d, 'c) store" where
  "RecoverPendingServerMsgIDs b r limit s =
     (if \<not> persistent s
      then (dedupeStrings (mem_scan r (\<lambda>e. \<not> Acked e \<and> \<not> Read e) s), s)
      else case cache_get_strings b PendingRecoverKey (cache s) of
        (Some out, c) \<Rightarrow> (dedupeStrings out, s\<lparr>cache := c\<rparr>)
      | (None, c) \<Rightarrow>
          scan_rows b PendingRecoverKey (\<lambda>row. DR_Status row = 0)
            (Asc (\<lambda>row. int (DR_ID row))) limit (s\<lparr>cache := c\<rparr>))"

definition ListPendingServerMsgIDsByUser ::
  "('d, 'c) backend \<Rightarrow> rt \<Rightarrow> string \<Rightarrow> int \<Rightarrow> ('d, 'c) store \<Rightarrow> string list \<times> ('d, 'c) store" where
  "ListPendingServerMsgIDsByUser b r toUser limit s =
     (if toUser = [] then ([], s)
      else if \<not> persistent s then
        (limit_to limit
           (filter (\<lambda>i. case find_entry s i toUser of
                          None \<Rightarrow> False
                        | Some e \<Rightarrow> \<not> Acked e \<and> \<not> Read e)
              (rng r (gkeys (deliveries s)))), s)
      else case cache_get_strings b (PendingUserKey toUser) (cache s) of
        (Some out, c) \<Rightarrow> (limit_to limit out, s\<lparr>cache := c\<rparr>)
      | (None, c) \<Rightarrow>
          scan_rows b (PendingUserKey toUser)
            (\<lambda>row. coll (gorm b) (DR_ToUser row) toUser \<and> DR_Status row = 0)
            (Asc (\<lambda>row. int (DR_ID row))) limit (s\<lparr>cache := c\<rparr>))"

section \<open>History (history.go)\<close>

definition between_users :: "string \<Rightarrow> string \<Rightarrow> Message \<Rightarrow> bool" where
  "between_users userA userB m \<longleftrightarrow>
     From m = userA \<and> To m = userB \<or> From m = userB \<and> To m = userA"

text \<open>
  \<open>sort.Slice\<close> is not stable; a stable sort after an arbitrary iteration order gives every
  order of ties it can give.
\<close>

definition getC2CHistoryFromMemory ::
  "rt \<Rightarrow> string \<Rightarrow> string \<Rightarrow> int \<Rightarrow> ('d, 'c) store \<Rightarrow> Message list" where
  "getC2CHistoryFromMemory r userA userB limit s =
     (let found = filter (between_users userA userB)
                    (List.map_filter (map_of (messages s)) (rng r (gkeys (messages s))));
          out = sort_key Seq found
      in if limit > 0 \<and> int (length out) > limit
         then drop (length out - nat limit) out else out)"

text \<open>The per-row lookup of the recipient's status.\<close>

fun history_rows ::
  "('d, 'c) backend \<Rightarrow> string \<Rightarrow> string \<Rightarrow> db_message list \<Rightarrow> 'd \<Rightarrow> Message list \<times> 'd" where
  "history_rows b userA userB [] d = ([], d)"
| "history_rows b userA userB (row # rows) d =
     (let msg = fromDBMessage row;
          toUser = (if From msg = userA then userB else userA)
      in case t_take (recipients_t (gorm b)) (row_is b (ServerMsgID msg) toUser) d of
           (res, d1) \<Rightarrow>
             (case history_rows b userA userB rows d1 of
                (out, d2) \<Rightarrow>
                  ((case res of Inl _ \<Rightarrow> msg | Inr rc \<Rightarrow> msg\<lparr>Status := DR_Status rc\<rparr>) # out, d2)))"

definition GetC2CHistory ::
  "('d, 'c) backend \<Rightarrow> rt \<Rightarrow> string \<Rightarrow> string \<Rightarrow> int \<Rightarrow> ('d, 'c) store \<Rightarrow>
   Message list \<times> ('d, 'c) store" where
  "GetC2CHistory b r userA userB limit s =
     (if userA = [] \<or> userB = [] then ([], s)
      else if \<not> persistent s then (getC2CHistoryFromMemory r userA userB limit s, s)
      else case t_find (messages_t (gorm b))
             (\<lambda>row. coll (gorm b) (DM_SendID row) userA \<and> coll (gorm b) (DM_RecvID row) userB \<or>
                    coll (gorm b) (DM_SendID row) userB \<and> coll (gorm b) (DM_RecvID row) userA)
             (Desc (\<lambda>row. uint (DM_Seq row))) (limit_clause limit) None (db s) of
        (Inl _, d) \<Rightarrow> ([], s\<lparr>db := d\<rparr>)
      | (Inr rows, d) \<Rightarrow>
          (case history_rows b userA userB rows d of
             (out, d') \<Rightarrow> (reverseMessages out, s\<lparr>db := d'\<rparr>)))"

end
