(* ===== verification/Store_Runs.thy ===== *)
theory Store_Runs
  imports Store_Delivery
begin

text \<open>
  What every run of the store keeps. Each operation, in both modes and against any backend,
  is a sequence of elementary steps on the shared maps (the lines between \<open>s.mu.Lock()\<close> and
  \<open>s.mu.Unlock()\<close>) and of changes in the two services; the invariant and the monotonicity of
  acknowledgements are proved of the elementary steps and so hold for all sixteen operations.
\<close>

section \<open>Well-formed stores\<close>

definition gall :: "(string \<Rightarrow> 'v \<Rightarrow> bool) \<Rightarrow> 'v gomap \<Rightarrow> bool" where
  "gall P m \<longleftrightarrow> list_all (\<lambda>(k, v). P k v) m"

lemma gall_Nil [simp]: "gall P []"
  by (simp add: gall_def)

lemma gall_lookup: "gall P m \<Longrightarrow> map_of m k = Some v \<Longrightarrow> P k v"
  by (auto simp: gall_def list_all_iff dest: map_of_SomeD)

lemma gall_gput [intro]: "gall P m \<Longrightarrow> P k v \<Longrightarrow> gall P (gput k v m)"
  by (induction m) (auto simp: gall_def)

lemma gall_gmod [intro]:
  "gall P m \<Longrightarrow> (\<And>v. map_of m k = Some v \<Longrightarrow> P k v \<Longrightarrow> P k (f v)) \<Longrightarrow> gall P (gmod k f m)"
  by (auto simp: gmod_def split: option.splits dest: gall_lookup)

text \<open>
  An entry sits under its own recipient, is acknowledged when it is read, and counts attempts.
\<close>

definition entry_ok :: "string \<Rightarrow> DeliveryEntry \<Rightarrow> bool" where
  "entry_ok to e \<longleftrightarrow> E_To e = to \<and> (Read e \<longrightarrow> Acked e) \<and> 0 \<le> Retry e"

definition store_wf :: "('d, 'c) store \<Rightarrow> bool" where
  "store_wf s \<longleftrightarrow>
     distinct (gkeys (nextSeq s)) \<and>
     distinct (gkeys (messages s)) \<and> gall (\<lambda>i m. ServerMsgID m = i) (messages s) \<and>
     distinct (gkeys (byClient s)) \<and>
     gall (\<lambda>f m. f \<noteq> [] \<and> distinct (gkeys m) \<and>
                 gall (\<lambda>c msg. c \<noteq> [] \<and> From msg = f \<and> ClientMsgID msg = c) m) (byClient s) \<and>
     distinct (gkeys (deliveries s)) \<and>
     gall (\<lambda>i m. distinct (gkeys m) \<and> gall entry_ok m) (deliveries s)"

lemma store_wf_new [inv_intros]: "store_wf (NewInMemoryStore p d c)"
  by (simp add: store_wf_def NewInMemoryStore_def)

lemma store_wf_services [inv_intros]: "store_wf s \<Longrightarrow> store_wf (s\<lparr>db := d, cache := c\<rparr>)"
  by (simp add: store_wf_def)

lemma store_wf_seq [inv_intros]: "store_wf s \<Longrightarrow> store_wf (s\<lparr>nextSeq := gput k n (nextSeq s)\<rparr>)"
  by (simp add: store_wf_def)

lemma store_wf_saveMessageUnsafe [inv_intros]:
  assumes "store_wf s"
  shows "store_wf (saveMessageUnsafe msg s)"
proof (cases "map_of (byClient s) (From msg)")
  case None
  with assms show ?thesis
    by (auto simp: store_wf_def saveMessageUnsafe_def Let_def gall_def[of _ "[_]"]
        intro!: gall_gput)
next
  case (Some m)
  with assms have "distinct (gkeys m)"
    and "gall (\<lambda>c msg'. c \<noteq> [] \<and> From msg' = From msg \<and> ClientMsgID msg' = c) m"
    by (auto simp: store_wf_def dest: gall_lookup)
  with Some assms show ?thesis
    by (auto simp: store_wf_def saveMessageUnsafe_def Let_def intro!: gall_gput)
qed

lemma entry_ok_new [simp]: "entry_ok to (new_entry to)"
  by (simp add: entry_ok_def new_entry_def)

lemma store_wf_saveDeliveryUnsafe [inv_intros]:
  assumes "store_wf s"
  shows "store_wf (saveDeliveryUnsafe i to s)"
proof (cases "map_of (deliveries s) i")
  case None
  with assms show ?thesis
    by (auto simp: store_wf_def saveDeliveryUnsafe_def Let_def gall_def[of _ "[_]"]
        intro!: gall_gput)
next
  case (Some m)
  with assms have "distinct (gkeys m)" and "gall entry_ok m"
    by (auto simp: store_wf_def dest: gall_lookup)
  with Some assms show ?thesis
    by (auto simp: store_wf_def saveDeliveryUnsafe_def Let_def intro!: gall_gput
        split: option.splits)
qed

text \<open>
  What an operation may do to an entry: the attempt count and the flags only grow, the
  recipient stays.
\<close>

definition entry_le :: "DeliveryEntry \<Rightarrow> DeliveryEntry \<Rightarrow> bool" where
  "entry_le e e' \<longleftrightarrow> E_To e' = E_To e \<and> (Acked e \<longrightarrow> Acked e') \<and> (Read e \<longrightarrow> Read e') \<and>
     (Dead e \<longrightarrow> Dead e') \<and> Retry e \<le> Retry e' \<and> (Read e' \<longrightarrow> Read e \<or> Acked e')"

lemma entry_le_refl [simp]: "entry_le e e"
  by (simp add: entry_le_def)

lemma entry_le_ok: "entry_le e e' \<Longrightarrow> entry_ok to e \<Longrightarrow> entry_ok to e'"
  by (auto simp: entry_le_def entry_ok_def)

lemma store_wf_mod_entry [inv_intros]:
  assumes "store_wf s" and "\<And>e. find_entry s i to = Some e \<Longrightarrow> entry_le e (f e)"
  shows "store_wf (mod_entry i to f s)"
proof -
  have "gall entry_ok (gmod to f m)" if "map_of (deliveries s) i = Some m" "gall entry_ok m" for m
    using that assms(2) by (auto simp: find_entry_def intro!: gall_gmod intro: entry_le_ok)
  then have "gall (\<lambda>i m. distinct (gkeys m) \<and> gall entry_ok m) (gmod i (gmod to f) (deliveries s))"
    if "gall (\<lambda>i m. distinct (gkeys m) \<and> gall entry_ok m) (deliveries s)"
    using that by (rule_tac gall_gmod) simp_all
  with assms(1) show ?thesis
    by (simp add: store_wf_def mod_entry_def)
qed

section \<open>Elementary steps\<close>

inductive mem_step :: "('d, 'c) store \<Rightarrow> ('d, 'c) store \<Rightarrow> bool" where
  services: "mem_step s (s\<lparr>db := d, cache := c\<rparr>)"
| message: "mem_step s (saveMessageUnsafe msg s)"
| delivery: "mem_step s (saveDeliveryUnsafe i to s)"
| entry: "(\<And>e. find_entry s i to = Some e \<Longrightarrow> entry_le e (f e)) \<Longrightarrow>
    mem_step s (mod_entry i to f s)"

abbreviation mem_steps :: "('d, 'c) store \<Rightarrow> ('d, 'c) store \<Rightarrow> bool" where
  "mem_steps \<equiv> mem_step\<^sup>*\<^sup>*"

lemma mem_steps_services: "mem_steps s (s\<lparr>db := d, cache := c\<rparr>)"
  by (rule r_into_rtranclp) (rule services)

lemma mem_steps_db: "mem_steps s s' \<Longrightarrow> mem_steps s (s'\<lparr>db := d\<rparr>)"
  using services[of s' "cache s'" d] by (simp add: rtranclp.rtrancl_into_rtrancl)

lemma mem_steps_cache: "mem_steps s s' \<Longrightarrow> mem_steps s (s'\<lparr>cache := c\<rparr>)"
  using services[of s' c "db s'"] by (simp add: rtranclp.rtrancl_into_rtrancl)

lemma mem_steps_message: "mem_steps s s' \<Longrightarrow> mem_steps s (saveMessageUnsafe msg s')"
  by (erule rtranclp.rtrancl_into_rtrancl) (rule message)

lemma mem_steps_delivery: "mem_steps s s' \<Longrightarrow> mem_steps s (saveDeliveryUnsafe i to s')"
  by (erule rtranclp.rtrancl_into_rtrancl) (rule delivery)

lemma mem_steps_deliveries:
  "mem_steps s s' \<Longrightarrow> mem_steps s (fold (\<lambda>x. saveDeliveryUnsafe (g x) (h x)) xs s')"
  by (induction xs arbitrary: s') (auto intro: mem_steps_delivery)

lemma mem_steps_entry:
  "mem_steps s s' \<Longrightarrow> (\<And>e. find_entry s' i to = Some e \<Longrightarrow> entry_le e (f e)) \<Longrightarrow>
   mem_steps s (mod_entry i to f s')"
  by (erule rtranclp.rtrancl_into_rtrancl) (rule entry)

lemma mem_steps_del_keys: "mem_steps s s' \<Longrightarrow> mem_steps s (del_keys b ks s')"
  by (simp add: del_keys_def mem_steps_cache)

lemma mem_steps_update:
  "mem_steps s s' \<Longrightarrow> mem_steps s (snd (update_recipients b w f s'))"
  by (auto simp: update_recipients_def intro: mem_steps_db split: prod.splits sum.splits)

lemma mem_steps_update':
  "update_recipients b w f s' = (e, s'') \<Longrightarrow> mem_steps s s' \<Longrightarrow> mem_steps s s''"
  using mem_steps_update[of s s' b w f] by simp

lemma update_then_steps:
  assumes "mem_steps s s'"
  shows "mem_steps s (snd (case update_recipients b w f s' of
    (Some e, s2) \<Rightarrow> (g e, s2) | (None, s2) \<Rightarrow> (h, del_keys b ks s2)))"
  using mem_steps_update[OF assms, of b w f]
  by (simp add: case_prod_beta mem_steps_del_keys split: option.split)

lemmas mem_steps_intros =
  mem_steps_db mem_steps_cache mem_steps_message mem_steps_delivery mem_steps_deliveries
  mem_steps_del_keys rtranclp.rtrancl_refl

section \<open>Every operation is a sequence of elementary steps\<close>

lemma SaveMessageWithRecipients_steps:
  "mem_steps s (snd (SaveMessageWithRecipients b m rs s))"
proof -
  have "mem_steps s (fold (saveDeliveryUnsafe i) rs (saveMessageUnsafe msg s'))"
    if "mem_steps s s'" for i msg s'
    using mem_steps_deliveries[of s _ "\<lambda>_. i" "\<lambda>x. x", OF mem_steps_message, OF that] .
  then show ?thesis
    by (auto simp: SaveMessageWithRecipients_def Let_def intro: mem_steps_intros
        mem_steps_services split: option.splits prod.splits)
qed

lemma GetMessageByClientID_steps: "mem_steps s (snd (GetMessageByClientID b f c s))"
  by (auto simp: GetMessageByClientID_def Let_def intro: mem_steps_intros
      split: option.splits prod.splits sum.splits)

lemma GetMessageByServerID_steps: "mem_steps s (snd (GetMessageByServerID b i s))"
  by (auto simp: GetMessageByServerID_def markRecipientRowsDeadIfMessageMissing_def Let_def
      intro: mem_steps_intros mem_steps_update
      split: option.splits prod.splits sum.splits db_error.splits)

lemma SaveDelivery_steps: "mem_steps s s' \<Longrightarrow> mem_steps s (snd (SaveDelivery b i to s'))"
  by (auto simp: SaveDelivery_def Let_def intro: mem_steps_intros
      split: option.splits prod.splits)

lemma GetRecipients_steps: "mem_steps s (snd (GetRecipients b r i s))"
proof -
  have "mem_steps s (fold (saveDeliveryUnsafe i) xs s')" if "mem_steps s s'" for i xs s'
    using mem_steps_deliveries[of s s' "\<lambda>_. i" "\<lambda>x. x", OF that] .
  then show ?thesis
    by (auto simp: GetRecipients_def Let_def intro!: mem_steps_intros
        split: option.splits prod.splits sum.splits)
qed

lemma MarkDeliverySent_steps: "mem_steps s (snd (MarkDeliverySent b r i to err s))"
  by (auto simp: MarkDeliverySent_def Let_def entry_le_def
      intro!: mem_steps_entry elim!: mem_steps_update' split: prod.splits)

lemma MarkDeliveryAcked_steps: "mem_steps s (snd (MarkDeliveryAcked b r i to s))"
  by (auto simp: MarkDeliveryAcked_def Let_def entry_le_def
      intro!: mem_steps_entry mem_steps_del_keys elim!: mem_steps_update'
      split: prod.splits option.splits)

lemma MarkDeliveryRead_steps: "mem_steps s (snd (MarkDeliveryRead b r i to s))"
  by (auto simp: MarkDeliveryRead_def Let_def entry_le_def
      intro!: mem_steps_entry mem_steps_del_keys elim!: mem_steps_update'
      split: prod.splits option.splits)

lemma DeliveryStats_steps: "mem_steps s (snd (DeliveryStats b s))"
  by (auto simp: DeliveryStats_def intro: mem_steps_intros split: prod.splits sum.splits)

lemma schedule_row_steps:
  assumes "mem_steps s s'"
  shows "mem_steps s (snd (schedule_row b i to t mx base now s'))"
proof -
  have "mem_steps s (s'\<lparr>db := d\<rparr>)" for d
    using assms by (rule mem_steps_db)
  then show ?thesis
    unfolding schedule_row_def bury_rows_def Let_def
    by (cases "t_take (recipients_t (gorm b)) (row_is b i to) (db s')")
      (auto intro!: update_then_steps split: sum.split)
qed

lemma ScheduleRetry_steps: "mem_steps s (snd (ScheduleRetry b r i to err mx base s))"
proof -
  define n where "n = (case find_entry s i to of None \<Rightarrow> 0 | Some e \<Rightarrow> Retry e + 1)"
  have "mem_steps s (mod_entry i to (\<lambda>e. e\<lparr>Retry := n, LastError := t, Dead := True\<rparr>) s)"
    and "mem_steps s (mod_entry i to
      (\<lambda>e. e\<lparr>Retry := n, LastError := t, NextRetryAt := u\<rparr>) s)" for t u
    by (auto simp: n_def entry_le_def intro!: mem_steps_entry)
  then show ?thesis
    unfolding ScheduleRetry_def bury_rows_def Let_def n_def[symmetric]
    by (auto intro!: update_then_steps schedule_row_steps)
qed

lemma save_rows_steps: "mem_steps s s' \<Longrightarrow> mem_steps s (snd (save_rows b rows s'))"
proof (induction rows arbitrary: s')
  case (Cons row rows)
  then have "mem_steps s (snd (save_rows b rows
      (snd (SaveDelivery b (DR_ServerMsgID row) (DR_ToUser row) s'))))"
    by (intro Cons.IH SaveDelivery_steps)
  then show ?case by (simp add: case_prod_beta)
qed simp

lemma scan_rows_steps:
  assumes "mem_steps s s'"
  shows "mem_steps s (snd (scan_rows b k w ord n s'))"
proof -
  have "mem_steps s (snd (save_rows b rows (s'\<lparr>db := d\<rparr>)))" for rows d
    by (intro save_rows_steps mem_steps_db assms)
  with assms show ?thesis
    by (simp add: scan_rows_def case_prod_beta mem_steps_db mem_steps_cache split: sum.split)
qed

lemma GetDueRetryServerMsgIDs_steps: "mem_steps s (snd (GetDueRetryServerMsgIDs b r n s))"
  by (auto simp: GetDueRetryServerMsgIDs_def Let_def intro!: mem_steps_cache scan_rows_steps
      split: prod.split option.split)

lemma RecoverPendingServerMsgIDs_steps: "mem_steps s (snd (RecoverPendingServerMsgIDs b r n s))"
  by (auto simp: RecoverPendingServerMsgIDs_def intro!: mem_steps_cache scan_rows_steps
      split: prod.split option.split)

lemma ListPendingServerMsgIDsByUser_steps:
  "mem_steps s (snd (ListPendingServerMsgIDsByUser b r u n s))"
  by (auto simp: ListPendingServerMsgIDsByUser_def intro!: mem_steps_cache scan_rows_steps
      split: prod.split option.split)

lemma GetC2CHistory_steps: "mem_steps s (snd (GetC2CHistory b r u v n s))"
  by (auto simp: GetC2CHistory_def intro!: mem_steps_db split: prod.split sum.split)

section \<open>Runs\<close>

text \<open>One call of the interface, with the readings of the clock and the map orders it sees.\<close>

datatype store_op =
    OpNextSeq string
  | OpSaveMessage "Message option"
  | OpSave "Message option" "string list"
  | OpByClient string string
  | OpByServer string
  | OpSaveDelivery string string
  | OpRecipients string
  | OpSent string string "string option"
  | OpAcked string string
  | OpRead string string
  | OpRetry string string "string option" int int
  | OpDue int
  | OpStats
  | OpRecover int
  | OpPending string int
  | OpHistory string string int

fun exec_store ::
  "('d, 'c) backend \<Rightarrow> rt \<times> store_op \<Rightarrow> ('d, 'c) store \<Rightarrow> ('d, 'c) store" where
  "exec_store b (r, OpNextSeq chat) s = snd (NextSeq b chat s)"
| "exec_store b (r, OpSaveMessage m) s = snd (SaveMessage b m s)"
| "exec_store b (r, OpSave m rs) s = snd (SaveMessageWithRecipients b m rs s)"
| "exec_store b (r, OpByClient f c) s = snd (GetMessageByClientID b f c s)"
| "exec_store b (r, OpByServer i) s = snd (GetMessageByServerID b i s)"
| "exec_store b (r, OpSaveDelivery i to) s = snd (SaveDelivery b i to s)"
| "exec_store b (r, OpRecipients i) s = snd (GetRecipients b r i s)"
| "exec_store b (r, OpSent i to err) s = snd (MarkDeliverySent b r i to err s)"
| "exec_store b (r, OpAcked i to) s = snd (MarkDeliveryAcked b r i to s)"
| "exec_store b (r, OpRead i to) s = snd (MarkDeliveryRead b r i to s)"
| "exec_store b (r, OpRetry i to err mx base) s = snd (ScheduleRetry b r i to err mx base s)"
| "exec_store b (r, OpDue n) s = snd (GetDueRetryServerMsgIDs b r n s)"
| "exec_store b (r, OpStats) s = snd (DeliveryStats b s)"
| "exec_store b (r, OpRecover n) s = snd (RecoverPendingServerMsgIDs b r n s)"
| "exec_store b (r, OpPending u n) s = snd (ListPendingServerMsgIDsByUser b r u n s)"
| "exec_store b (r, OpHistory u v n) s = snd (GetC2CHistory b r u v n s)"

definition run_store ::
  "('d, 'c) backend \<Rightarrow> (rt \<times> store_op) list \<Rightarrow> ('d, 'c) store \<Rightarrow> ('d, 'c) store" where
  "run_store b ops s = fold (exec_store b) ops s"

lemma run_store_simps [simp]:
  "run_store b [] s = s"
  "run_store b (x # xs) s = run_store b xs (exec_store b x s)"
  "run_store b (xs @ ys) s = run_store b ys (run_store b xs s)"
  by (simp_all add: run_store_def)

definition seq_request :: "store_op \<Rightarrow> string option" where
  "seq_request op = (case op of
     OpNextSeq c \<Rightarrow> Some (if c = [] then ''default'' else c) | _ \<Rightarrow> None)"

lemma exec_store_steps:
  "seq_request op = None \<Longrightarrow> mem_steps s (exec_store b (r, op) s)"
  by (cases op) (simp_all add: seq_request_def SaveMessage_def SaveMessageWithRecipients_steps
      GetMessageByClientID_steps GetMessageByServerID_steps SaveDelivery_steps
      GetRecipients_steps MarkDeliverySent_steps MarkDeliveryAcked_steps MarkDeliveryRead_steps
      ScheduleRetry_steps GetDueRetryServerMsgIDs_steps DeliveryStats_steps
      RecoverPendingServerMsgIDs_steps ListPendingServerMsgIDsByUser_steps GetC2CHistory_steps)

text \<open>A call of \<open>NextSeq\<close> touches only the counters and the database handle.\<close>

lemma NextSeq_frame:
  "messages (snd (NextSeq b c s)) = messages s \<and> byClient (snd (NextSeq b c s)) = byClient s \<and>
   deliveries (snd (NextSeq b c s)) = deliveries s \<and>
   persistent (snd (NextSeq b c s)) = persistent s"
  by (auto simp: NextSeq_def Let_def split: prod.split sum.split)

lemma store_wf_NextSeq: "store_wf s \<Longrightarrow> store_wf (snd (NextSeq b c s))"
  by (auto simp: NextSeq_def Let_def store_wf_def split: prod.split sum.split)

lemma store_wf_steps: "mem_steps s s' \<Longrightarrow> store_wf s \<Longrightarrow> store_wf s'"
  by (induction rule: rtranclp_induct) (auto elim!: mem_step.cases intro: inv_intros)

lemma store_wf_exec: "store_wf s \<Longrightarrow> store_wf (exec_store b x s)"
proof (cases x)
  case (Pair r op)
  then show "store_wf s \<Longrightarrow> ?thesis"
    using store_wf_steps[OF exec_store_steps[of op s b r]]
    by (cases op) (simp_all add: seq_request_def store_wf_NextSeq)
qed

lemma store_wf_run: "store_wf s \<Longrightarrow> store_wf (run_store b ops s)"
  by (induction ops arbitrary: s) (simp_all add: store_wf_exec)

text \<open>
  The store's invariant (unique keys in all four maps, messages filed under their own
  server id, the idempotency index under the sender and client id of its messages, delivery
  entries under their recipient, read implies acknowledged, attempt counts not negative) holds
  after any sequence of calls of the \<open>Store\<close> interface, with or without a database, whatever
  the database and the cache answer, the clock reads and the order maps are iterated in.
\<close>

theorem store_wf_reachable: "store_wf (run_store b ops (NewInMemoryStore p d c))"
  by (intro store_wf_run store_wf_new)

section \<open>Acknowledgements are final\<close>

lemma find_entry_saveDeliveryUnsafe:
  "find_entry (saveDeliveryUnsafe i to s) j u =
     (if j = i \<and> u = to \<and> find_entry s j u = None then Some (new_entry to)
      else find_entry s j u)"
  by (auto simp: find_entry_def saveDeliveryUnsafe_def Let_def split: option.splits)

lemma find_entry_mod_entry [simp]:
  "find_entry (mod_entry i to f s) j u =
     (if j = i \<and> u = to then map_option f (find_entry s j u) else find_entry s j u)"
  by (cases "map_of (deliveries s) i") (auto simp: find_entry_def mod_entry_def)

lemma find_entry_frame [simp]:
  "find_entry (saveMessageUnsafe msg s) j u = find_entry s j u"
  "find_entry (s\<lparr>db := d\<rparr>) j u = find_entry s j u"
  "find_entry (s\<lparr>cache := c\<rparr>) j u = find_entry s j u"
  by (simp_all add: find_entry_def saveMessageUnsafe_def Let_def)

lemma entry_le_trans: "entry_le a b \<Longrightarrow> entry_le b c \<Longrightarrow> entry_le a c"
  by (auto simp: entry_le_def)

lemma mem_step_entry_le:
  "mem_step s s' \<Longrightarrow> find_entry s i to = Some e \<Longrightarrow>
   \<exists>e'. find_entry s' i to = Some e' \<and> entry_le e e'"
  by (auto elim!: mem_step.cases simp: find_entry_saveDeliveryUnsafe)

lemma mem_steps_entry_le:
  "mem_steps s s' \<Longrightarrow> find_entry s i to = Some e \<Longrightarrow>
   \<exists>e'. find_entry s' i to = Some e' \<and> entry_le e e'"
  by (induction rule: rtranclp_induct) (auto dest: mem_step_entry_le intro: entry_le_trans)

lemma exec_store_entry_le:
  assumes "find_entry s i to = Some e"
  shows "\<exists>e'. find_entry (exec_store b x s) i to = Some e' \<and> entry_le e e'"
proof (cases x)
  case (Pair r op)
  show ?thesis
  proof (cases "seq_request op")
    case None
    then show ?thesis using Pair assms exec_store_steps mem_steps_entry_le by blast
  next
    case (Some c)
    then obtain c' where "op = OpNextSeq c'" by (auto simp: seq_request_def split: store_op.splits)
    then show ?thesis using Pair assms NextSeq_frame[of b c' s] by (auto simp: find_entry_def)
  qed
qed

lemma run_store_entry_le:
  "find_entry s i to = Some e \<Longrightarrow>
   \<exists>e'. find_entry (run_store b ops s) i to = Some e' \<and> entry_le e e'"
proof (induction ops arbitrary: s e)
  case (Cons x ops)
  then obtain e1 where "find_entry (exec_store b x s) i to = Some e1" and le: "entry_le e e1"
    using exec_store_entry_le by blast
  with Cons.IH show ?case by (fastforce intro: entry_le_trans[OF le])
qed simp

end
