(* ===== verification/Store_Theorems.thy ===== *)
theory Store_Theorems
  imports Store_Runs Sample_Backend
begin

text \<open>
  What the store promises to its callers: consecutive sequence numbers per chat, messages found
  again under both ids, and an acknowledgement that is final.
\<close>

section \<open>Runs keep the mode\<close>

lemma saveMessageUnsafe_frame [simp]:
  "persistent (saveMessageUnsafe m s) = persistent s"
  "nextSeq (saveMessageUnsafe m s) = nextSeq s"
  "deliveries (saveMessageUnsafe m s) = deliveries s"
  by (simp_all add: saveMessageUnsafe_def Let_def)

lemma saveDeliveryUnsafe_frame [simp]:
  "persistent (saveDeliveryUnsafe i to s) = persistent s"
  "nextSeq (saveDeliveryUnsafe i to s) = nextSeq s"
  "messages (saveDeliveryUnsafe i to s) = messages s"
  "byClient (saveDeliveryUnsafe i to s) = byClient s"
  by (simp_all add: saveDeliveryUnsafe_def Let_def)

lemma mod_entry_frame [simp]:
  "persistent (mod_entry i to f s) = persistent s"
  "nextSeq (mod_entry i to f s) = nextSeq s"
  "messages (mod_entry i to f s) = messages s"
  "byClient (mod_entry i to f s) = byClient s"
  by (simp_all add: mod_entry_def)

lemma mem_steps_frame: "mem_steps s s' \<Longrightarrow> persistent s' = persistent s \<and> nextSeq s' = nextSeq s"
  by (induction rule: rtranclp_induct) (auto elim!: mem_step.cases)

lemma exec_store_persistent [simp]: "persistent (exec_store b x s) = persistent s"
proof (cases x)
  case (Pair r op)
  show ?thesis
    using mem_steps_frame[OF exec_store_steps[of op s b r]] NextSeq_frame[of b _ s]
    by (cases op) (simp_all add: Pair seq_request_def)
qed

lemma run_store_persistent [simp]: "persistent (run_store b ops s) = persistent s"
  by (induction ops arbitrary: s) simp_all

lemma exec_store_nextSeq:
  "seq_request op = None \<Longrightarrow> nextSeq (exec_store b (r, op) s) = nextSeq s"
  using mem_steps_frame[OF exec_store_steps] by blast

section \<open>Sequence numbers\<close>

definition chat_key :: "string \<Rightarrow> string" where
  "chat_key c = (if c = [] then ''default'' else c)"

text \<open>The numbers a run hands out for one chat, in order.\<close>

fun seqs :: "('d, 'c) backend \<Rightarrow> string \<Rightarrow> (rt \<times> store_op) list \<Rightarrow> ('d, 'c) store \<Rightarrow> 64 word list" where
  "seqs b c [] s = []"
| "seqs b c ((r, op) # ops) s =
     (case op of
        OpNextSeq c' \<Rightarrow> if chat_key c' = c then [fst (NextSeq b c' s)] else []
      | _ \<Rightarrow> []) @ seqs b c ops (exec_store b (r, op) s)"

lemma NextSeq_known:
  "map_of (nextSeq s) (chat_key c) = Some n \<Longrightarrow>
   NextSeq b c s = (n + 1, s\<lparr>nextSeq := gput (chat_key c) (n + 1) (nextSeq s)\<rparr>)"
  by (simp add: NextSeq_def chat_key_def Let_def)

lemma NextSeq_mem:
  "\<not> persistent s \<Longrightarrow>
   fst (NextSeq b c s) = (case map_of (nextSeq s) (chat_key c) of None \<Rightarrow> 0 | Some n \<Rightarrow> n) + 1"
  by (simp add: NextSeq_def chat_key_def Let_def)

lemma nextSeq_NextSeq:
  "map_of (nextSeq (snd (NextSeq b c s))) k =
     (if k = chat_key c then Some (fst (NextSeq b c s)) else map_of (nextSeq s) k)"
  by (auto simp: NextSeq_def chat_key_def Let_def split: prod.split sum.split)

lemma seqs_other:
  assumes "\<nexists>c'. op = OpNextSeq c' \<and> chat_key c' = c"
  shows "seqs b c ((r, op) # ops) s = seqs b c ops (exec_store b (r, op) s) \<and>
    map_of (nextSeq (exec_store b (r, op) s)) c = map_of (nextSeq s) c"
  using assms by (cases op) (auto simp: nextSeq_NextSeq seq_request_def exec_store_nextSeq
      simp del: exec_store.simps(2-))

lemma map_upt_shift:
  fixes n :: "64 word"
  shows "n # map (\<lambda>i. n + of_nat (Suc i)) [0..<k] = map (\<lambda>i. n + of_nat i) [0..<Suc k]"
  by (rule nth_equalityI) (auto simp: nth_Cons' simp del: upt_Suc)

lemma seqs_from_known:
  "map_of (nextSeq s) c = Some n \<Longrightarrow>
   seqs b c ops s = map (\<lambda>i. n + of_nat (Suc i)) [0..<length (seqs b c ops s)]"
proof (induction ops arbitrary: s n)
  case (Cons x ops)
  obtain r op where x: "x = (r, op)" by (cases x)
  show ?case
  proof (cases "\<exists>c'. op = OpNextSeq c' \<and> chat_key c' = c")
    case True
    then obtain c' where op: "op = OpNextSeq c'" "chat_key c' = c" by blast
    let ?s = "exec_store b (r, OpNextSeq c') s"
    have first: "fst (NextSeq b c' s) = n + 1"
      using NextSeq_known[of s c' n b] Cons.prems op by simp
    have "map_of (nextSeq ?s) c = Some (n + 1)"
      by (simp add: nextSeq_NextSeq op first)
    note rest = Cons.IH[OF this]
    have "seqs b c (x # ops) s = (n + 1) # seqs b c ops ?s"
      by (simp add: x op first)
    also have "\<dots> = (n + 1) # map (\<lambda>i. (n + 1) + of_nat (Suc i)) [0..<length (seqs b c ops ?s)]"
      using rest by simp
    also have "\<dots> = map (\<lambda>i. (n + 1) + of_nat i) [0..<Suc (length (seqs b c ops ?s))]"
      by (rule map_upt_shift)
    finally show ?thesis
      by (simp add: x op add.assoc del: upt_Suc)
  next
    case False
    then show ?thesis
      using Cons seqs_other[OF False, of b r ops s] x by simp
  qed
qed simp

lemma seqs_from_unknown:
  "map_of (nextSeq s) c = None \<Longrightarrow>
   \<exists>base. seqs b c ops s = map (\<lambda>i. base + of_nat (Suc i)) [0..<length (seqs b c ops s)] \<and>
     (\<not> persistent s \<longrightarrow> base = 0)"
proof (induction ops arbitrary: s)
  case Nil
  then show ?case by (auto intro: exI[of _ 0])
next
  case (Cons x ops)
  obtain r op where x: "x = (r, op)" by (cases x)
  show ?case
  proof (cases "\<exists>c'. op = OpNextSeq c' \<and> chat_key c' = c")
    case True
    then obtain c' where op: "op = OpNextSeq c'" "chat_key c' = c" by blast
    let ?s = "exec_store b (r, OpNextSeq c') s" and ?n = "fst (NextSeq b c' s)"
    have "map_of (nextSeq ?s) c = Some ?n"
      by (simp add: nextSeq_NextSeq op)
    then have "seqs b c (x # ops) s = ?n # map (\<lambda>i. ?n + of_nat (Suc i)) [0..<length (seqs b c ops ?s)]"
      using seqs_from_known[of ?s c ?n b ops] by (simp add: x op)
    also have "\<dots> = map (\<lambda>i. (?n - 1) + of_nat (Suc i)) [0..<Suc (length (seqs b c ops ?s))]"
      using map_upt_shift[of ?n] by (simp del: upt_Suc)
    finally have "seqs b c (x # ops) s =
        map (\<lambda>i. (?n - 1) + of_nat (Suc i)) [0..<length (seqs b c (x # ops) s)]"
      by (simp add: x op del: upt_Suc)
    moreover have "\<not> persistent s \<longrightarrow> ?n - 1 = 0"
      using Cons.prems op(2) by (simp add: NextSeq_mem)
    ultimately show ?thesis by (intro exI[of _ "?n - 1"] conjI)
  next
    case False
    then have "seqs b c (x # ops) s = seqs b c ops (exec_store b x s)"
      and "map_of (nextSeq (exec_store b x s)) c = None"
      using Cons.prems seqs_other[OF False, of b r ops s] x by simp_all
    with Cons.IH[of "exec_store b x s"] show ?thesis by simp
  qed
qed

lemma distinct_word_run:
  fixes base :: "64 word"
  assumes "n \<le> 2 ^ 64"
  shows "distinct (map (\<lambda>i. base + of_nat (Suc i)) [0..<n])"
proof -
  have "inj_on (\<lambda>i. base + of_nat (Suc i)) {0..<n}"
  proof (rule inj_onI)
    fix i j
    assume ij: "i \<in> {0..<n}" "j \<in> {0..<n}" and "base + of_nat (Suc i) = base + of_nat (Suc j)"
    then have "(of_nat i :: 64 word) = of_nat j" by simp
    then have "unat (of_nat i :: 64 word) = unat (of_nat j :: 64 word)" by simp
    with ij assms show "i = j" by (simp add: unat_of_nat take_bit_eq_mod)
  qed
  then show ?thesis by (simp add: distinct_map)
qed

text \<open>
  For every chat (the empty id stands for \<open>default\<close>) the sequence numbers handed out over
  any run of store calls are consecutive 64-bit numbers, whatever happens on other chats in
  between: they continue a known counter, start at 1 in memory mode, and are pairwise
  different for the first $2^{64}$ calls.
\<close>

theorem seqs_consecutive:
  "\<exists>base. seqs b c ops s = map (\<lambda>i. base + of_nat (Suc i)) [0..<length (seqs b c ops s)] \<and>
     (map_of (nextSeq s) c = Some n \<longrightarrow> base = n) \<and>
     (map_of (nextSeq s) c = None \<and> \<not> persistent s \<longrightarrow> base = 0) \<and>
     (length (seqs b c ops s) \<le> 2 ^ 64 \<longrightarrow> distinct (seqs b c ops s))"
proof (cases "map_of (nextSeq s) c")
  case None
  then obtain base where
    "seqs b c ops s = map (\<lambda>i. base + of_nat (Suc i)) [0..<length (seqs b c ops s)]"
    "\<not> persistent s \<longrightarrow> base = 0"
    using seqs_from_unknown by blast
  with None show ?thesis
    by (metis distinct_word_run option.distinct(1))
next
  case (Some m)
  from seqs_from_known[OF this, of b ops] Some show ?thesis
    by (metis distinct_word_run option.distinct(1) option.inject)
qed

theorem seqs_consecutive_witness:
  "\<exists>base. seqs sample_backend ''default''
       [(sample_rt 0, OpNextSeq []), (sample_rt 0, OpNextSeq ''c2c''), (sample_rt 0, OpStats),
        (sample_rt 0, OpNextSeq ''default'')] (NewInMemoryStore False no_tables []) =
     map (\<lambda>i. base + of_nat (Suc i)) [0..<2] \<and> base = (0 :: 64 word)"
proof -
  let ?ops = "[(sample_rt 0, OpNextSeq []), (sample_rt 0, OpNextSeq ''c2c''), (sample_rt 0, OpStats),
        (sample_rt 0, OpNextSeq ''default'')]"
  let ?s = "NewInMemoryStore False no_tables [] :: (tables, (string \<times> string) list) store"
  have "length (seqs sample_backend ''default'' ?ops ?s) = 2"
    by (simp add: chat_key_def)
  moreover have "map_of (nextSeq ?s) ''default'' = None" and "\<not> persistent ?s"
    by (simp_all add: NewInMemoryStore_def)
  ultimately show ?thesis
    using seqs_consecutive[of sample_backend "''default''" ?ops ?s] by metis
qed

lemma word_less_succ:
  fixes m :: "64 word"
  assumes "m \<noteq> - 1"
  shows "m < m + 1"
proof -
  have "1 + m \<noteq> 0" using assms by (metis add_eq_0_iff)
  then have "unat (m + 1) = Suc (unat m)" by (metis unatSuc add.commute)
  then show ?thesis by (simp add: word_less_nat_alt)
qed

text \<open>
  What the program relies on in \<open>SELECT COALESCE(MAX(seq), 0) ... WHERE chat_id = ?\<close>: the
  number is at least every stored sequence number of the chat.
\<close>

definition max_seq_bounds :: "('d \<Rightarrow> db_message list) \<Rightarrow> 'd gorm_db \<Rightarrow> bool" where
  "max_seq_bounds rows g \<longleftrightarrow>
     (\<forall>w d m d'. max_seq g w d = (Inr m, d') \<longrightarrow> (\<forall>row\<in>set (rows d). w row \<longrightarrow> DM_Seq row \<le> m))"

text \<open>
  C26: after a restart the first number of a chat is above every number stored for it: when the
  counter is not in memory and the query succeeds, the result is one above the stored maximum
  (unless that is the largest 64-bit number), and later calls continue from it.
\<close>

theorem NextSeq_resumes_above_stored:
  assumes "max_seq_bounds rows (gorm b)" and "persistent s"
    and "map_of (nextSeq s) (chat_key c) = None"
    and "max_seq (gorm b) (\<lambda>row. coll (gorm b) (DM_ChatID row) (chat_key c)) (db s) = (Inr m, d)"
    and "m \<noteq> - 1"
  shows "fst (NextSeq b c s) = m + 1 \<and>
    (\<forall>row. row \<in> set (rows (db s)) \<and> coll (gorm b) (DM_ChatID row) (chat_key c) \<longrightarrow>
      DM_Seq row < fst (NextSeq b c s)) \<and>
    map_of (nextSeq (snd (NextSeq b c s))) (chat_key c) = Some (m + 1)"
proof -
  have res: "fst (NextSeq b c s) = m + 1"
    using assms(2-4) by (simp add: NextSeq_def chat_key_def Let_def)
  have "m < m + 1"
    using assms(5) by (rule word_less_succ)
  moreover have "DM_Seq row \<le> m"
    if "row \<in> set (rows (db s))" "coll (gorm b) (DM_ChatID row) (chat_key c)" for row
    using assms(1,4) that unfolding max_seq_bounds_def by blast
  ultimately show ?thesis
    using res by (auto simp: nextSeq_NextSeq intro: le_less_trans)
qed

lemma max_seq_bounds_sample: "max_seq_bounds msg_rows sample_db"
proof -
  have mono: "(m :: 64 word) \<le> fold (\<lambda>x m. max (DM_Seq x) m) xs m" for m and xs :: "db_message list"
    by (induction xs arbitrary: m) (simp_all, meson max.cobounded2 order.trans)
  have "DM_Seq row \<le> fold (\<lambda>x m. max (DM_Seq x) m) xs m" if "row \<in> set xs" for row m
    and xs :: "db_message list"
    using that
  proof (induction xs arbitrary: m)
    case (Cons x xs)
    then show ?case using mono[of "max (DM_Seq x) m" xs] by auto
  qed simp
  then show ?thesis by (auto simp: max_seq_bounds_def sample_db_def)
qed

theorem NextSeq_resumes_above_stored_witness:
  "fst (NextSeq sample_backend ''c'' (NewInMemoryStore True
     (no_tables\<lparr>msg_rows := [(toDBMessage zero_Message)\<lparr>DM_ChatID := ''c'', DM_Seq := 41\<rparr>]\<rparr>)
     [])) = 42"
proof -
  let ?d = "no_tables\<lparr>msg_rows := [(toDBMessage zero_Message)\<lparr>DM_ChatID := ''c'', DM_Seq := 41\<rparr>]\<rparr>"
  let ?s = "NewInMemoryStore True ?d [] :: (tables, (string \<times> string) list) store"
  have "max_seq_bounds msg_rows (gorm sample_backend)"
    using max_seq_bounds_sample by (simp add: sample_backend_def)
  moreover have "max_seq (gorm sample_backend)
      (\<lambda>row. coll (gorm sample_backend) (DM_ChatID row) (chat_key ''c'')) (db ?s) = (Inr 41, ?d)"
    by (simp add: sample_backend_def sample_db_def NewInMemoryStore_def chat_key_def)
  ultimately show ?thesis
    using NextSeq_resumes_above_stored[of msg_rows sample_backend ?s "''c''" 41 ?d]
    by (simp add: NewInMemoryStore_def)
qed

text \<open>
  When that query fails, the error is dropped: the chat's numbering silently starts again
  at 1 and stays there, although higher numbers may be stored.
\<close>

theorem NextSeq_query_error_restarts:
  assumes "persistent s" and "map_of (nextSeq s) (chat_key c) = None"
    and "max_seq (gorm b) (\<lambda>row. coll (gorm b) (DM_ChatID row) (chat_key c)) (db s) = (Inl e, d)"
  shows "fst (NextSeq b c s) = 1 \<and>
    map_of (nextSeq (snd (NextSeq b c s))) (chat_key c) = Some 1"
  using assms by (simp add: NextSeq_def chat_key_def Let_def)

theorem NextSeq_query_error_restarts_witness:
  "fst (NextSeq (sample_backend\<lparr>gorm := sample_db\<lparr>max_seq := \<lambda>w d. (Inl (DBError ''timeout''), d)\<rparr>\<rparr>)
     ''c'' (NewInMemoryStore True
       (no_tables\<lparr>msg_rows := [(toDBMessage zero_Message)\<lparr>DM_ChatID := ''c'', DM_Seq := 41\<rparr>]\<rparr>) [])) = 1"
  by (rule conjunct1[OF NextSeq_query_error_restarts])
    (simp_all add: NewInMemoryStore_def sample_backend_def)

section \<open>Messages are found again\<close>

lemma messages_saveMessageUnsafe [simp]:
  "messages (saveMessageUnsafe m s) = gput (ServerMsgID m) m (messages s)"
  by (simp add: saveMessageUnsafe_def Let_def)

lemma byClient_saveMessageUnsafe:
  "byClient_lookup (saveMessageUnsafe m s) f c =
     (if f = From m \<and> c = ClientMsgID m \<and> f \<noteq> [] \<and> c \<noteq> [] then Some m
      else byClient_lookup s f c)"
  by (auto simp: byClient_lookup_def saveMessageUnsafe_def Let_def split: option.splits)

lemma fold_saveDeliveryUnsafe_frame [simp]:
  "persistent (fold (saveDeliveryUnsafe i) rs s) = persistent s"
  "messages (fold (saveDeliveryUnsafe i) rs s) = messages s"
  "byClient (fold (saveDeliveryUnsafe i) rs s) = byClient s"
  by (induction rs arbitrary: s) simp_all

lemma find_entry_fold_saveDelivery:
  "find_entry (fold (saveDeliveryUnsafe i) rs s) j u =
     (if j = i \<and> u \<in> set rs \<and> find_entry s j u = None then Some (new_entry u)
      else find_entry s j u)"
  by (induction rs arbitrary: s) (auto simp: find_entry_saveDeliveryUnsafe)

text \<open>What a successful save leaves in memory, and that a failed one leaves memory alone.\<close>

lemma Save_ok:
  assumes "SaveMessageWithRecipients b (Some m) rs s = (None, s')"
  shows "\<exists>d c. s' = fold (saveDeliveryUnsafe (ServerMsgID m)) rs
    (saveMessageUnsafe m (s\<lparr>db := d, cache := c\<rparr>)) \<and> (\<not> persistent s \<longrightarrow> d = db s \<and> c = cache s)"
proof (cases "persistent s")
  case True
  then show ?thesis using assms
    by (auto simp: SaveMessageWithRecipients_def Let_def split: if_splits prod.splits option.splits)
next
  case False
  then show ?thesis using assms
    by (intro exI[of _ "db s"] exI[of _ "cache s"])
      (auto simp: SaveMessageWithRecipients_def Let_def split: if_splits)
qed

text \<open>
  Saving is all or nothing. Without an error the message is found under its server id and,
  when it has a sender and a client id, under that pair, without another query, and every
  listed recipient has an entry; with an error (no message, no server id, a failed
  transaction) none of the four maps has changed.
\<close>

theorem save_then_lookup:
  "case SaveMessageWithRecipients b (Some m) rs s of
     (None, s') \<Rightarrow>
       GetMessageByServerID b (ServerMsgID m) s' = (Some m, s') \<and>
       (From m = [] \<or> ClientMsgID m = [] \<or>
        GetMessageByClientID b (From m) (ClientMsgID m) s' = (Some m, s')) \<and>
       list_all (\<lambda>to. find_entry s' (ServerMsgID m) to \<noteq> None) rs
   | (Some _, s') \<Rightarrow>
       nextSeq s' = nextSeq s \<and> messages s' = messages s \<and> byClient s' = byClient s \<and>
       deliveries s' = deliveries s"
proof (cases "SaveMessageWithRecipients b (Some m) rs s")
  case (Pair err s')
  show ?thesis
  proof (cases err)
    case None
    with Pair have "SaveMessageWithRecipients b (Some m) rs s = (None, s')" by simp
    from Save_ok[OF this] obtain d c where
      s': "s' = fold (saveDeliveryUnsafe (ServerMsgID m)) rs (saveMessageUnsafe m (s\<lparr>db := d, cache := c\<rparr>))"
      by blast
    have "byClient_lookup s' f k = byClient_lookup (saveMessageUnsafe m (s\<lparr>db := d, cache := c\<rparr>)) f k"
      for f k by (simp add: s' byClient_lookup_def)
    then show ?thesis
      using Pair None
      by (auto simp: GetMessageByServerID_def GetMessageByClientID_def s' list_all_iff
          find_entry_fold_saveDelivery byClient_saveMessageUnsafe)
  next
    case (Some e)
    with Pair show ?thesis
      by (auto simp: SaveMessageWithRecipients_def Let_def split: if_splits prod.splits
          option.splits)
  qed
qed

section \<open>Acknowledgements\<close>

lemma set_mem_recipients:
  assumes "range_ok r"
  shows "to \<in> set (mem_recipients r s i) \<longleftrightarrow>
    (\<exists>e. find_entry s i to = Some e \<and> undelivered e)"
proof (cases "map_of (deliveries s) i")
  case (Some m)
  then show ?thesis
    using assms in_gkeys_iff[of to m]
    by (auto simp: mem_recipients_def find_entry_def split: option.splits)
qed (simp add: mem_recipients_def find_entry_def)

text \<open>
  An acknowledgement is final. Once a recipient has acknowledged or read a message, or the
  message is a dead letter for him, no later sequence of store calls makes him a recipient
  again in the in-memory store, and the flags themselves are never taken back.
\<close>

theorem acked_never_redelivered:
  assumes "find_entry s i to = Some e" and "Acked e \<or> Read e \<or> Dead e"
    and "\<not> persistent s" and "range_ok r"
  shows "to \<notin> set (fst (GetRecipients b r i (run_store b ops s))) \<and>
    (\<exists>e'. find_entry (run_store b ops s) i to = Some e' \<and> entry_le e e')"
proof -
  obtain e' where e': "find_entry (run_store b ops s) i to = Some e'" "entry_le e e'"
    using run_store_entry_le[OF assms(1)] by blast
  with assms(2) have "\<not> undelivered e'" by (auto simp: undelivered_def entry_le_def)
  with e' assms(3,4) show ?thesis
    by (auto simp: GetRecipients_def Let_def set_mem_recipients)
qed

text \<open>A store with one message to two recipients, of whom \<open>bob\<close> has acknowledged it.\<close>

definition sample_store :: "(tables, (string \<times> string) list) store" where
  "sample_store = (NewInMemoryStore False no_tables [])\<lparr>
     deliveries := [(''s-1'', [(''bob'', (new_entry ''bob'')\<lparr>Acked := True\<rparr>),
                              (''eve'', new_entry ''eve'')])]\<rparr>"

theorem acked_never_redelivered_witness:
  "''bob'' \<notin> set (fst (GetRecipients sample_backend (sample_rt 0) ''s-1''
     (run_store sample_backend
        [(sample_rt 0, OpRetry ''s-1'' ''bob'' None 5 1), (sample_rt 0, OpSaveDelivery ''s-1'' ''bob'')]
        sample_store)))"
proof -
  have "find_entry sample_store ''s-1'' ''bob'' = Some ((new_entry ''bob'')\<lparr>Acked := True\<rparr>)"
    and "\<not> persistent sample_store"
    by (simp_all add: sample_store_def NewInMemoryStore_def find_entry_def)
  then show ?thesis
    using acked_never_redelivered[of sample_store "''s-1''" "''bob''"
        "(new_entry ''bob'')\<lparr>Acked := True\<rparr>" "sample_rt 0"]
    by (simp del: run_store_simps exec_store.simps)
qed

text \<open>
  For a pending recipient the acknowledgement takes effect at once and concerns nobody
  else: after \<open>MarkDeliveryAcked\<close> or \<open>MarkDeliveryRead\<close> in memory mode the recipients of
  the message are the former ones without him, and those of other messages are unchanged.
\<close>

theorem ack_removes_exactly:
  assumes "\<not> persistent s" and "range_ok r"
  shows "set (fst (GetRecipients b r j (snd (MarkDeliveryAcked b r' i to s)))) =
      set (fst (GetRecipients b r j s)) - (if j = i then {to} else {}) \<and>
    set (fst (GetRecipients b r j (snd (MarkDeliveryRead b r' i to s)))) =
      set (fst (GetRecipients b r j s)) - (if j = i then {to} else {})"
  using assms
  by (auto simp: GetRecipients_def MarkDeliveryAcked_def MarkDeliveryRead_def Let_def
      set_mem_recipients undelivered_def split: if_splits)

theorem ack_removes_exactly_witness:
  "set (fst (GetRecipients sample_backend (sample_rt 0) ''s-1''
     (snd (MarkDeliveryAcked sample_backend (sample_rt 7) ''s-1'' ''eve'' sample_store)))) = {}"
proof -
  have "set (fst (GetRecipients sample_backend (sample_rt 0) ''s-1'' sample_store)) = {''eve''}"
    by (simp add: sample_store_def NewInMemoryStore_def GetRecipients_def mem_recipients_def
        new_entry_def undelivered_def sample_rt_def)
  moreover have "\<not> persistent sample_store"
    by (simp add: sample_store_def NewInMemoryStore_def)
  ultimately show ?thesis
    using ack_removes_exactly[of sample_store "sample_rt 0" sample_backend "''s-1''" "sample_rt 7"
        "''s-1''" "''eve''"] by simp
qed

end
