(* ===== verification/Delivery_Ledger.thy ===== *)
theory Delivery_Ledger
  imports Store_Theorems
begin

text \<open>
  The delivery protocol of the store, abstractly: a ledger gives every (message, recipient) pair
  one of four states and the number of attempts made. The in-memory store refines it, operation by
  operation; on top of it come the bound on attempts, the back-off, the scans and the
  statistics.
\<close>

section \<open>The ledger\<close>

datatype delivery_status = SPending | SDelivered | SRead | SDead

type_synonym ledger = "string \<Rightarrow> string \<Rightarrow> (delivery_status \<times> int) option"

definition status_of :: "DeliveryEntry \<Rightarrow> delivery_status" where
  "status_of e = (if Dead e then SDead else if Read e then SRead
                  else if Acked e then SDelivered else SPending)"

definition ledger_of :: "('d, 'c) store \<Rightarrow> ledger" where
  "ledger_of s i to = map_option (\<lambda>e. (status_of e, Retry e)) (find_entry s i to)"

definition open_pair :: "string \<Rightarrow> string \<Rightarrow> ledger \<Rightarrow> ledger" where
  "open_pair i to L = (\<lambda>j u. if j = i \<and> u = to \<and> L j u = None then Some (SPending, 0) else L j u)"

definition on_pair ::
  "string \<Rightarrow> string \<Rightarrow> (delivery_status \<times> int \<Rightarrow> delivery_status \<times> int) \<Rightarrow> ledger \<Rightarrow> ledger" where
  "on_pair i to f L = (\<lambda>j u. if j = i \<and> u = to then map_option f (L j u) else L j u)"

fun ack_status :: "delivery_status \<Rightarrow> delivery_status" where
  "ack_status SPending = SDelivered"
| "ack_status st = st"

fun read_status :: "delivery_status \<Rightarrow> delivery_status" where
  "read_status SDead = SDead"
| "read_status _ = SRead"

definition retry_status :: "int \<Rightarrow> delivery_status \<times> int \<Rightarrow> delivery_status \<times> int" where
  "retry_status mx = (\<lambda>(st, n).
     (if n + 1 \<ge> (if mx \<le> 0 then 5 else mx) then SDead else st, n + 1))"

text \<open>What each call means for the ledger; all others leave it alone.\<close>

fun ledger_step :: "store_op \<Rightarrow> ledger \<Rightarrow> ledger" where
  "ledger_step (OpSave (Some m) rs) L =
     (if ServerMsgID m = [] then L else fold (open_pair (ServerMsgID m)) rs L)"
| "ledger_step (OpSaveDelivery i to) L = (if i = [] \<or> to = [] then L else open_pair i to L)"
| "ledger_step (OpSent i to err) L = on_pair i to (\<lambda>(st, n). (st, n + 1)) L"
| "ledger_step (OpAcked i to) L = on_pair i to (map_prod ack_status id) L"
| "ledger_step (OpRead i to) L = on_pair i to (map_prod read_status id) L"
| "ledger_step (OpRetry i to err mx base) L =
     (if i = [] \<or> to = [] then L else on_pair i to (retry_status mx) L)"
| "ledger_step _ L = L"

lemma ledger_of_new [simp]: "ledger_of (NewInMemoryStore p d c) i to = None"
  by (simp add: ledger_of_def find_entry_def NewInMemoryStore_def)

lemma ledger_of_saveDelivery: "ledger_of (saveDeliveryUnsafe i to s) = open_pair i to (ledger_of s)"
  by (auto simp: fun_eq_iff ledger_of_def open_pair_def find_entry_saveDeliveryUnsafe
      new_entry_def status_of_def)

lemma ledger_of_fold:
  "ledger_of (fold (saveDeliveryUnsafe i) rs s) = fold (open_pair i) rs (ledger_of s)"
  by (induction rs arbitrary: s) (simp_all add: ledger_of_saveDelivery)

lemma ledger_of_mod_entry:
  assumes "\<And>e. find_entry s i to = Some e \<Longrightarrow> (status_of (f e), Retry (f e)) = g (status_of e, Retry e)"
  shows "ledger_of (mod_entry i to f s) = on_pair i to g (ledger_of s)"
  using assms by (auto simp: fun_eq_iff ledger_of_def on_pair_def split: option.split)
    (cases "find_entry s i to"; simp)

lemma ledger_of_frame [simp]:
  "ledger_of (saveMessageUnsafe m s) = ledger_of s"
  "ledger_of (s\<lparr>db := d\<rparr>) = ledger_of s" "ledger_of (s\<lparr>cache := c\<rparr>) = ledger_of s"
  by (simp_all add: fun_eq_iff ledger_of_def)

lemma ledger_ScheduleRetry:
  assumes "\<not> persistent s" "i \<noteq> []" "to \<noteq> []"
  shows "ledger_of (snd (ScheduleRetry b r i to err mx base s)) =
    on_pair i to (retry_status mx) (ledger_of s)"
proof (cases "find_entry s i to")
  case None
  have "ledger_of (mod_entry i to f s) = on_pair i to (retry_status mx) (ledger_of s)" for f
    by (rule ledger_of_mod_entry) (simp add: None)
  with None assms show ?thesis by (simp add: ScheduleRetry_def Let_def)
next
  case (Some e)
  let ?n = "Retry e + 1" and ?mx = "if mx \<le> 0 then 5 else mx"
  have "ledger_of (mod_entry i to (\<lambda>e. e\<lparr>Retry := ?n, LastError := t, Dead := True\<rparr>) s) =
      on_pair i to (retry_status mx) (ledger_of s)" if "?n \<ge> ?mx" for t
    using that by (intro ledger_of_mod_entry) (auto simp: Some retry_status_def status_of_def)
  moreover have "ledger_of (mod_entry i to (\<lambda>e. e\<lparr>Retry := ?n, LastError := t, NextRetryAt := u\<rparr>) s) =
      on_pair i to (retry_status mx) (ledger_of s)" if "?n < ?mx" for t u
    using that by (intro ledger_of_mod_entry) (auto simp: Some retry_status_def status_of_def)
  ultimately show ?thesis using Some assms by (simp add: ScheduleRetry_def Let_def)
qed

lemma ledger_marks:
  assumes "\<not> persistent s"
  shows "ledger_of (snd (MarkDeliverySent b r i to err s)) =
      on_pair i to (\<lambda>(st, n). (st, n + 1)) (ledger_of s)"
    and "ledger_of (snd (MarkDeliveryAcked b r i to s)) =
      on_pair i to (map_prod ack_status id) (ledger_of s)"
    and "ledger_of (snd (MarkDeliveryRead b r i to s)) =
      on_pair i to (map_prod read_status id) (ledger_of s)"
  using assms
  by (simp_all add: MarkDeliverySent_def MarkDeliveryAcked_def MarkDeliveryRead_def Let_def)
    (intro ledger_of_mod_entry; simp add: status_of_def)+

lemma ledger_saves:
  assumes "\<not> persistent s"
  shows "ledger_of (snd (SaveMessageWithRecipients b (Some m) rs s)) =
      (if ServerMsgID m = [] then ledger_of s else fold (open_pair (ServerMsgID m)) rs (ledger_of s))"
    and "ledger_of (snd (SaveDelivery b i to s)) =
      (if i = [] \<or> to = [] then ledger_of s else open_pair i to (ledger_of s))"
  using assms
  by (auto simp: SaveMessageWithRecipients_def SaveDelivery_def Let_def ledger_of_fold
      ledger_of_saveDelivery)

lemma ledger_reads:
  assumes "\<not> persistent s"
  shows "ledger_of (snd (NextSeq b c s)) = ledger_of s"
    and "snd (GetMessageByClientID b f k s) = s" and "snd (GetMessageByServerID b i s) = s"
    and "snd (GetRecipients b r i s) = s" and "snd (GetDueRetryServerMsgIDs b r n s) = s"
    and "snd (DeliveryStats b s) = s" and "snd (RecoverPendingServerMsgIDs b r n s) = s"
    and "snd (ListPendingServerMsgIDsByUser b r u n s) = s" and "snd (GetC2CHistory b r u v n s) = s"
    and "snd (SaveMessageWithRecipients b None rs s) = s"
  using assms
  by (auto simp: NextSeq_def GetMessageByClientID_def GetMessageByServerID_def GetRecipients_def
      GetDueRetryServerMsgIDs_def DeliveryStats_def RecoverPendingServerMsgIDs_def
      ListPendingServerMsgIDsByUser_def GetC2CHistory_def SaveMessageWithRecipients_def Let_def
      fun_eq_iff ledger_of_def find_entry_def split: option.split)

lemma ledger_exec:
  assumes "\<not> persistent s"
  shows "ledger_of (exec_store b (r, op) s) = ledger_step op (ledger_of s)"
proof (cases op)
  case (OpSaveMessage m)
  then show ?thesis
    using assms by (cases m) (simp_all add: SaveMessage_def ledger_saves ledger_reads)
next
  case (OpSave m rs)
  then show ?thesis using assms by (cases m) (simp_all add: ledger_saves ledger_reads)
next
  case (OpRetry i to err mx base)
  then show ?thesis
    using assms ledger_ScheduleRetry[of s i to b r err mx base]
    by (cases "i = [] \<or> to = []") (auto simp: ScheduleRetry_def[of _ _ "[]"] ScheduleRetry_def[of _ _ _ "[]"])
qed (use assms in \<open>simp_all add: ledger_marks ledger_saves ledger_reads\<close>)

lemma ledger_run:
  "\<not> persistent s \<Longrightarrow>
   ledger_of (run_store b ops s) = fold (\<lambda>x. ledger_step (snd x)) ops (ledger_of s)"
proof (induction ops arbitrary: s)
  case (Cons x ops)
  then show ?case
    using ledger_exec[of s b "fst x" "snd x"] by (simp del: exec_store.simps)
qed simp

lemma status_pending_iff: "status_of e = SPending \<longleftrightarrow> undelivered e"
  by (simp add: status_of_def undelivered_def)

lemma set_GetRecipients:
  assumes "\<not> persistent s" "range_ok r"
  shows "set (fst (GetRecipients b r i s)) = {to. \<exists>n. ledger_of s i to = Some (SPending, n)}"
  using assms
  by (auto simp: GetRecipients_def Let_def set_mem_recipients ledger_of_def status_pending_iff)

text \<open>
  C8: the in-memory store refines the delivery ledger. Over any sequence of calls the states
  and attempt counts of all (message, recipient) pairs evolve as the abstract protocol says: a
  save opens missing pairs as pending, an acknowledgement turns pending into delivered, a read
  receipt turns pending or delivered into read, a retry counts an attempt and buries the pair
  when the count reaches the maximum, a send counts an attempt, and nothing else has an effect;
  the recipients the worker asks for are the pending ones.
\<close>

theorem store_refines_ledger:
  assumes "\<not> persistent s" and "range_ok r"
  shows "ledger_of (run_store b ops s) = fold (\<lambda>x. ledger_step (snd x)) ops (ledger_of s) \<and>
    set (fst (GetRecipients b r i (run_store b ops s))) =
      {to. \<exists>n. fold (\<lambda>x. ledger_step (snd x)) ops (ledger_of s) i to = Some (SPending, n)}"
  using assms by (simp add: set_GetRecipients ledger_run)

theorem store_refines_ledger_witness:
  "set (fst (GetRecipients sample_backend (sample_rt 0) ''s-1''
     (run_store sample_backend
        [(sample_rt 0, OpSave (Some (zero_Message\<lparr>ServerMsgID := ''s-1''\<rparr>)) [''bob'', ''eve'']),
         (sample_rt 0, OpAcked ''s-1'' ''bob'')]
        (NewInMemoryStore False no_tables [])))) = {''eve''}"
proof -
  let ?ops = "[(sample_rt 0, OpSave (Some (zero_Message\<lparr>ServerMsgID := ''s-1''\<rparr>)) [''bob'', ''eve'']),
         (sample_rt 0, OpAcked ''s-1'' ''bob'')]"
  let ?s = "NewInMemoryStore False no_tables [] :: (tables, (string \<times> string) list) store"
  have "{to. \<exists>n. fold (\<lambda>x. ledger_step (snd x)) ?ops (ledger_of ?s) ''s-1'' to = Some (SPending, n)} =
      {''eve''}"
    by (auto simp: on_pair_def open_pair_def)
  moreover have "\<not> persistent ?s" by (simp add: NewInMemoryStore_def)
  ultimately show ?thesis
    using store_refines_ledger[of ?s "sample_rt 0" sample_backend ?ops "''s-1''"]
    by (simp del: run_store_simps)
qed

section \<open>Retries\<close>

lemma backoff_exact:
  assumes "0 < base" and "base < 2 ^ 57"
  shows "backoff base k = base * 2 ^ nat (min (k - 1) 6)"
proof -
  have "(2::int) ^ nat (min (k - 1) 6) \<le> 2 ^ 6"
    by (rule power_increasing) auto
  then have "base * 2 ^ nat (min (k - 1) 6) \<le> base * 2 ^ 6"
    using assms(1) by (intro mult_left_mono) auto
  then have "base * 2 ^ nat (min (k - 1) 6) < 2 ^ 63"
    using assms(2) by simp
  moreover have "0 \<le> base * 2 ^ nat (min (k - 1) 6)" using assms(1) by simp
  ultimately have "i64 (base * 2 ^ nat (min (k - 1) 6)) = base * 2 ^ nat (min (k - 1) 6)"
    by (intro i64_exact) auto
  moreover have "(if k - 1 > 6 then 6 else k - 1) = min (k - 1) 6" by auto
  ultimately show ?thesis by (simp only: backoff_def)
qed

lemma find_entry_key: "find_entry s i to = Some e \<Longrightarrow> i \<in> set (gkeys (deliveries s))"
  unfolding in_gkeys_iff by (auto simp: find_entry_def bind_eq_Some_conv)

lemma set_mem_scan:
  assumes "range_ok r" and "store_wf s"
  shows "set (mem_scan r P s) = {i. \<exists>to e. find_entry s i to = Some e \<and> P e}"
proof -
  have "(\<exists>x\<in>set (map snd m). P x) \<longleftrightarrow> (\<exists>to e. map_of m to = Some e \<and> P e)"
    if "map_of (deliveries s) i = Some m" for i m
  proof -
    have "distinct (gkeys m)" using assms(2) that by (auto simp: store_wf_def dest: gall_lookup)
    then show ?thesis by (force simp: map_of_eq_Some_iff)
  qed
  then show ?thesis
    using assms(1) in_gkeys_iff[of _ "deliveries s"]
    by (auto simp: mem_scan_def list_ex_iff find_entry_def bind_eq_Some_conv split: option.splits
        simp del: set_map) blast+
qed

lemma set_due_scan:
  assumes "\<not> persistent s" and "range_ok r" and "store_wf s"
  shows "set (fst (GetDueRetryServerMsgIDs b r 0 s)) =
    {i. i \<noteq> [] \<and> (\<exists>to e. find_entry s i to = Some e \<and> due (clk r 0) e)}"
  using assms by (auto simp: GetDueRetryServerMsgIDs_def set_mem_scan)

text \<open>
  The delay before attempt \<open>n + 1\<close> doubles from the base up to 64 times the base and then
  stays there; for any base up to $2^{57}$ nanoseconds (more than four years) the 64-bit product
  does not wrap.
\<close>

theorem backoff_doubles_and_caps:
  assumes "0 < base" and "base < 2 ^ 57" and "1 \<le> n"
  shows "backoff base 1 = base \<and> backoff base n = base * 2 ^ nat (min (n - 1) 6) \<and>
    base \<le> backoff base n \<and> backoff base n \<le> backoff base (n + 1) \<and>
    backoff base (n + 1) \<le> 2 * backoff base n \<and> backoff base n \<le> 64 * base"
proof -
  note exact = backoff_exact[OF assms(1,2)]
  define m where "m = nat (min (n - 1) 6)"
  have "nat (min (n + 1 - 1) 6) = m \<or> nat (min (n + 1 - 1) 6) = Suc m" and "m \<le> 6"
    using assms(3) by (auto simp: m_def)
  moreover have "(1::int) \<le> 2 ^ m" by simp
  moreover have "(2::int) ^ m \<le> 2 ^ 6" using \<open>m \<le> 6\<close> by (rule power_increasing) simp
  ultimately show ?thesis
    using exact[of n] exact[of "n + 1"] exact[of 1] assms
    by (auto simp: m_def[symmetric])
qed

theorem backoff_doubles_and_caps_witness: "backoff (2 * second) 4 = 16 * second"
  using backoff_doubles_and_caps[of "2 * second" 4] by (simp add: nat_eq_iff)

text \<open>A series of failed attempts for one recipient: what each call reports, and the state.\<close>

fun retry_all ::
  "('d, 'c) backend \<Rightarrow> rt list \<Rightarrow> string \<Rightarrow> string \<Rightarrow> string option \<Rightarrow> int \<Rightarrow> int \<Rightarrow>
   ('d, 'c) store \<Rightarrow> bool list \<times> ('d, 'c) store" where
  "retry_all b [] i to err mx base s = ([], s)"
| "retry_all b (r # rs) i to err mx base s =
     (case ScheduleRetry b r i to err mx base s of
        ((dead, _), s1) \<Rightarrow> (case retry_all b rs i to err mx base s1 of
           (ds, s2) \<Rightarrow> (dead # ds, s2)))"

lemma ScheduleRetry_mem:
  assumes "\<not> persistent s" "i \<noteq> []" "to \<noteq> []" "find_entry s i to = Some e" "0 < mx" "0 < base"
  shows "ScheduleRetry b r i to err mx base s =
    ((Retry e + 1 \<ge> mx, None),
     mod_entry i to (\<lambda>e'. if Retry e + 1 \<ge> mx
       then e'\<lparr>Retry := Retry e + 1, LastError := (case err of None \<Rightarrow> ''delivery failed'' | Some t \<Rightarrow> t),
               Dead := True\<rparr>
       else e'\<lparr>Retry := Retry e + 1, LastError := (case err of None \<Rightarrow> ''delivery failed'' | Some t \<Rightarrow> t),
               NextRetryAt := unix (clk r 0 + backoff base (Retry e + 1))\<rparr>) s)"
  using assms by (simp add: ScheduleRetry_def Let_def)

lemma retry_all_mem:
  assumes "\<not> persistent s" "i \<noteq> []" "to \<noteq> []" "find_entry s i to = Some e" "0 < mx" "0 < base"
  shows "fst (retry_all b rs i to err mx base s) =
      map (\<lambda>k. Retry e + int (Suc k) \<ge> mx) [0..<length rs] \<and>
    (\<exists>e'. find_entry (snd (retry_all b rs i to err mx base s)) i to = Some e' \<and>
      Retry e' = Retry e + int (length rs) \<and> Acked e' = Acked e \<and> Read e' = Read e \<and>
      Dead e' = (Dead e \<or> rs \<noteq> [] \<and> Retry e + int (length rs) \<ge> mx))"
  using assms
proof (induction rs arbitrary: s e)
  case (Cons r rs)
  define s1 where "s1 = snd (ScheduleRetry b r i to err mx base s)"
  obtain e1 where e1: "find_entry s1 i to = Some e1" "Retry e1 = Retry e + 1"
      "Acked e1 = Acked e" "Read e1 = Read e" "Dead e1 = (Dead e \<or> Retry e + 1 \<ge> mx)"
    and p1: "\<not> persistent s1"
    using Cons.prems by (auto simp: s1_def ScheduleRetry_mem[OF Cons.prems])
  have first: "ScheduleRetry b r i to err mx base s = ((Retry e + 1 \<ge> mx, None), s1)"
    by (simp add: s1_def ScheduleRetry_mem[OF Cons.prems])
  have upt: "[0..<Suc n] = 0 # map Suc [0..<n]" for n
    by (simp add: upt_conv_Cons map_Suc_upt del: upt_Suc)
  note IH = Cons.IH[OF p1 Cons.prems(2,3) e1(1) Cons.prems(5,6)]
  then show ?case
    using e1 by (auto simp: first upt case_prod_beta algebra_simps simp del: upt_Suc)
qed simp

text \<open>
  A pending message is given up after exactly the configured number of attempts: with a
  maximum of \<open>mx\<close>, the first \<open>mx - 1\<close> failures of a fresh entry report a further try, the
  \<open>mx\<close>-th reports a dead letter, and then the recipient is no longer pending nor ever due.
\<close>

theorem dead_letter_after_max:
  assumes "\<not> persistent s" and "i \<noteq> []" and "to \<noteq> []" and "0 < mx" and "0 < base"
    and "find_entry s i to = Some (new_entry to)" and "int (length rs) = mx"
  shows "fst (retry_all b rs i to err mx base s) = replicate (length rs - 1) False @ [True] \<and>
    (\<exists>e. find_entry (snd (retry_all b rs i to err mx base s)) i to = Some e \<and>
      status_of e = SDead \<and> (\<forall>now. \<not> due now e))"
proof -
  note all = retry_all_mem[OF assms(1-3,6,4,5), of b rs err]
  obtain n where n: "length rs = Suc n" using assms(4,7) by (cases rs) auto
  have "map (\<lambda>k. Retry (new_entry to) + int (Suc k) \<ge> mx) [0..<length rs] =
      replicate n False @ [True]"
    using assms(7) n by (intro nth_equalityI) (auto simp: new_entry_def nth_append simp del: upt_Suc)
  with all n assms(4,7) show ?thesis
    by (auto simp: status_of_def due_def undelivered_def new_entry_def)
qed

theorem dead_letter_after_max_witness:
  "fst (retry_all sample_backend [sample_rt 0, sample_rt second, sample_rt (9 * second)]
     ''s-1'' ''eve'' None 3 second sample_store) = [False, False, True]"
proof -
  have "find_entry sample_store ''s-1'' ''eve'' = Some (new_entry ''eve'')"
    and "\<not> persistent sample_store"
    by (simp_all add: sample_store_def NewInMemoryStore_def find_entry_def)
  then show ?thesis
    using dead_letter_after_max[of sample_store "''s-1''" "''eve''" 3 second
        "[sample_rt 0, sample_rt second, sample_rt (9 * second)]" sample_backend None]
    by (simp add: numeral_eq_Suc)
qed

lemma sample_store_wf: "store_wf sample_store"
  by (simp add: store_wf_def gall_def sample_store_def NewInMemoryStore_def entry_ok_def
      new_entry_def)

text \<open>
  A failed attempt that is not the last one makes the message due after the back-off and
  not before: the scan of the retry worker at time \<open>t\<close> contains it as soon as the clock
  reads, in whole seconds, the time of the failure plus the delay, and until then the entry is
  not due.
\<close>

theorem retry_due_when_delay_over:
  assumes "\<not> persistent s" and "i \<noteq> []" and "to \<noteq> []" and "find_entry s i to = Some e"
    and "undelivered e" and "0 \<le> Retry e" and "Retry e + 1 < mx"
    and "0 < base" and "base < 2 ^ 57" and "second \<le> clk r 0" and "range_ok r'"
    and "store_wf s"
  shows "let at = clk r 0 + base * 2 ^ nat (min (Retry e) 6);
      s' = snd (ScheduleRetry b r i to err mx base s)
    in (\<exists>e'. find_entry s' i to = Some e' \<and> (\<forall>t. due t e' \<longleftrightarrow> unix at \<le> unix t)) \<and>
    (unix at \<le> unix (clk r' 0) \<longrightarrow> i \<in> set (fst (GetDueRetryServerMsgIDs b r' 0 s')))"
proof -
  define at where "at = clk r 0 + base * 2 ^ nat (min (Retry e) 6)"
  define s' where "s' = snd (ScheduleRetry b r i to err mx base s)"
  have "backoff base (Retry e + 1) = base * 2 ^ nat (min (Retry e) 6)"
    using backoff_exact[of base "Retry e + 1"] assms(6,8,9) by simp
  then have e': "find_entry s' i to = Some (e\<lparr>Retry := Retry e + 1,
      LastError := (case err of None \<Rightarrow> ''delivery failed'' | Some t \<Rightarrow> t), NextRetryAt := unix at\<rparr>)"
    using ScheduleRetry_mem[of s i to e mx base b r err] assms by (simp add: s'_def at_def)
  have "second \<le> at" using assms(8,10) by (simp add: at_def add_increasing2)
  then have "0 < unix at" by (simp add: unix_def pos_imp_zdiv_pos_iff)
  with e' assms(5) have due_iff: "\<exists>e'. find_entry s' i to = Some e' \<and>
      (\<forall>t. due t e' \<longleftrightarrow> unix at \<le> unix t)"
    by (simp add: due_def undelivered_def)
  moreover have "\<not> persistent s'"
    using assms by (simp add: s'_def ScheduleRetry_mem[of s i to e mx base])
  moreover have "store_wf s'"
    using store_wf_exec[OF assms(12), of b "(r, OpRetry i to err mx base)"] by (simp add: s'_def)
  ultimately show ?thesis
    unfolding Let_def at_def[symmetric] s'_def[symmetric]
    using assms(2,11) set_due_scan[of s' r' b] by blast
qed

theorem retry_due_when_delay_over_witness:
  "''s-1'' \<in> set (fst (GetDueRetryServerMsgIDs sample_backend (sample_rt (103 * second)) 0
     (snd (ScheduleRetry sample_backend (sample_rt (100 * second)) ''s-1'' ''eve'' None 5
        (2 * second) sample_store))))"
proof -
  have "find_entry sample_store ''s-1'' ''eve'' = Some (new_entry ''eve'')"
    and "\<not> persistent sample_store"
    by (simp_all add: sample_store_def NewInMemoryStore_def find_entry_def)
  then show ?thesis
    using retry_due_when_delay_over[of sample_store "''s-1''" "''eve''" "new_entry ''eve''" 5
        "2 * second" "sample_rt (100 * second)" "sample_rt (103 * second)" sample_backend None]
    by (simp add: new_entry_def undelivered_def sample_rt_def unix_def range_ok_def
        sample_store_wf Let_def)
qed

section \<open>Scans\<close>

text \<open>
  The scans of the in-memory store are exact. Without a limit the retry scan returns every
  message that has a due entry, the recovery scan every message with an entry that is neither
  acknowledged nor read, and a user's pending list every message with such an entry for him;
  with a limit at most that many; no id is returned twice; the store does not change.
\<close>

theorem mem_scans_exact:
  assumes "\<not> persistent s" and "range_ok r" and "store_wf s"
  shows "set (fst (GetDueRetryServerMsgIDs b r 0 s)) =
      {i. i \<noteq> [] \<and> (\<exists>to e. find_entry s i to = Some e \<and> due (clk r 0) e)} \<and>
    set (fst (RecoverPendingServerMsgIDs b r n s)) =
      {i. i \<noteq> [] \<and> (\<exists>to e. find_entry s i to = Some e \<and> \<not> Acked e \<and> \<not> Read e)} \<and>
    set (fst (ListPendingServerMsgIDsByUser b r u 0 s)) =
      {i. u \<noteq> [] \<and> (\<exists>e. find_entry s i u = Some e \<and> \<not> Acked e \<and> \<not> Read e)} \<and>
    (n > 0 \<longrightarrow> int (length (fst (GetDueRetryServerMsgIDs b r n s))) \<le> n \<and>
              int (length (fst (ListPendingServerMsgIDsByUser b r u n s))) \<le> n) \<and>
    distinct (fst (GetDueRetryServerMsgIDs b r n s)) \<and>
    distinct (fst (RecoverPendingServerMsgIDs b r n s)) \<and>
    distinct (fst (ListPendingServerMsgIDsByUser b r u n s))"
proof -
  have dist: "distinct (gkeys (deliveries s))" using assms(3) by (simp add: store_wf_def)
  have len: "length (dedupeStrings xs) \<le> length xs" for xs
    by (metis card_length distinct_card distinct_dedupeStrings le_trans card_mono
        Diff_subset finite_set set_dedupeStrings)
  have "int (length (dedupeStrings (limit_to n xs))) \<le> n" if "n > 0" for xs
    using len[of "limit_to n xs"] length_limit_to[OF that, of xs] by linarith
  moreover have "set (fst (ListPendingServerMsgIDsByUser b r u 0 s)) =
      {i. u \<noteq> [] \<and> (\<exists>e. find_entry s i u = Some e \<and> \<not> Acked e \<and> \<not> Read e)}"
    using assms(1,2)
    by (auto simp: ListPendingServerMsgIDsByUser_def split: option.splits simp del: set_map
        dest: find_entry_key)
  ultimately show ?thesis
    using assms dist
    by (auto simp: set_due_scan GetDueRetryServerMsgIDs_def RecoverPendingServerMsgIDs_def
        ListPendingServerMsgIDsByUser_def set_mem_scan length_limit_to)
qed

theorem mem_scans_exact_witness:
  "set (fst (RecoverPendingServerMsgIDs sample_backend (sample_rt 0) 10 sample_store)) = {''s-1''}"
proof -
  have p: "\<not> persistent sample_store"
    by (simp add: sample_store_def NewInMemoryStore_def)
  have "{i. i \<noteq> [] \<and> (\<exists>to e. find_entry sample_store i to = Some e \<and> \<not> Acked e \<and> \<not> Read e)} =
      {''s-1''}"
    by (auto simp: find_entry_def sample_store_def NewInMemoryStore_def new_entry_def)
  with mem_scans_exact[OF p range_ok_sample sample_store_wf, where n = 10] show ?thesis by simp
qed

end
