(* ===== verification/Store_Iface.thy ===== *)
theory Store_Iface
  imports Delivery_Ledger
begin

text \<open>
  The \<open>Store\<close> interface (\<open>internal/store/iface.go\<close>) as the logic service and the
  delivery worker see it: a record of methods over an unknown state. The locales state what
  these clients rely on; the in-memory store provides it.
\<close>

section \<open>The interface\<close>

record 's Store =
  i_NextSeq :: "string \<Rightarrow> 's \<Rightarrow> 64 word \<times> 's"
  i_SaveMessage :: "Message option \<Rightarrow> 's \<Rightarrow> store_error option \<times> 's"
  i_SaveMessageWithRecipients :: "Message option \<Rightarrow> string list \<Rightarrow> 's \<Rightarrow> store_error option \<times> 's"
  i_GetMessageByClientID :: "string \<Rightarrow> string \<Rightarrow> 's \<Rightarrow> Message option \<times> 's"
  i_GetMessageByServerID :: "string \<Rightarrow> 's \<Rightarrow> Message option \<times> 's"
  i_SaveDelivery :: "string \<Rightarrow> string \<Rightarrow> 's \<Rightarrow> store_error option \<times> 's"
  i_GetRecipients :: "rt \<Rightarrow> string \<Rightarrow> 's \<Rightarrow> string list \<times> 's"
  i_MarkDeliverySent :: "rt \<Rightarrow> string \<Rightarrow> string \<Rightarrow> string option \<Rightarrow> 's \<Rightarrow> store_error option \<times> 's"
  i_MarkDeliveryAcked :: "rt \<Rightarrow> string \<Rightarrow> string \<Rightarrow> 's \<Rightarrow> store_error option \<times> 's"
  i_MarkDeliveryRead :: "rt \<Rightarrow> string \<Rightarrow> string \<Rightarrow> 's \<Rightarrow> store_error option \<times> 's"
  i_ScheduleRetry :: "rt \<Rightarrow> string \<Rightarrow> string \<Rightarrow> string option \<Rightarrow> int \<Rightarrow> int \<Rightarrow> 's \<Rightarrow>
    (bool \<times> store_error option) \<times> 's"
  i_GetDueRetryServerMsgIDs :: "rt \<Rightarrow> int \<Rightarrow> 's \<Rightarrow> string list \<times> 's"
  i_DeliveryStats :: "'s \<Rightarrow> DeliveryStatusStats \<times> 's"
  i_RecoverPendingServerMsgIDs :: "rt \<Rightarrow> int \<Rightarrow> 's \<Rightarrow> string list \<times> 's"
  i_ListPendingServerMsgIDsByUser :: "rt \<Rightarrow> string \<Rightarrow> int \<Rightarrow> 's \<Rightarrow> string list \<times> 's"
  i_GetC2CHistory :: "rt \<Rightarrow> string \<Rightarrow> string \<Rightarrow> int \<Rightarrow> 's \<Rightarrow> Message list \<times> 's"

text \<open>\<open>*InMemoryStore\<close> as a value of the interface.\<close>

definition InMemoryStore :: "('d, 'c) backend \<Rightarrow> ('d, 'c) store Store" where
  "InMemoryStore b =
     \<lparr>i_NextSeq = NextSeq b, i_SaveMessage = SaveMessage b,
      i_SaveMessageWithRecipients = SaveMessageWithRecipients b,
      i_GetMessageByClientID = GetMessageByClientID b,
      i_GetMessageByServerID = GetMessageByServerID b, i_SaveDelivery = SaveDelivery b,
      i_GetRecipients = GetRecipients b, i_MarkDeliverySent = MarkDeliverySent b,
      i_MarkDeliveryAcked = MarkDeliveryAcked b, i_MarkDeliveryRead = MarkDeliveryRead b,
      i_ScheduleRetry = ScheduleRetry b, i_GetDueRetryServerMsgIDs = GetDueRetryServerMsgIDs b,
      i_DeliveryStats = DeliveryStats b,
      i_RecoverPendingServerMsgIDs = RecoverPendingServerMsgIDs b,
      i_ListPendingServerMsgIDsByUser = ListPendingServerMsgIDsByUser b,
      i_GetC2CHistory = GetC2CHistory b\<rparr>"

text \<open>One call through the interface, for its effect.\<close>

fun call_store :: "'s Store \<Rightarrow> rt \<times> store_op \<Rightarrow> 's \<Rightarrow> 's" where
  "call_store st (r, OpNextSeq chat) s = snd (i_NextSeq st chat s)"
| "call_store st (r, OpSaveMessage m) s = snd (i_SaveMessage st m s)"
| "call_store st (r, OpSave m rs) s = snd (i_SaveMessageWithRecipients st m rs s)"
| "call_store st (r, OpByClient f c) s = snd (i_GetMessageByClientID st f c s)"
| "call_store st (r, OpByServer i) s = snd (i_GetMessageByServerID st i s)"
| "call_store st (r, OpSaveDelivery i to) s = snd (i_SaveDelivery st i to s)"
| "call_store st (r, OpRecipients i) s = snd (i_GetRecipients st r i s)"
| "call_store st (r, OpSent i to err) s = snd (i_MarkDeliverySent st r i to err s)"
| "call_store st (r, OpAcked i to) s = snd (i_MarkDeliveryAcked st r i to s)"
| "call_store st (r, OpRead i to) s = snd (i_MarkDeliveryRead st r i to s)"
| "call_store st (r, OpRetry i to err mx base) s = snd (i_ScheduleRetry st r i to err mx base s)"
| "call_store st (r, OpDue n) s = snd (i_GetDueRetryServerMsgIDs st r n s)"
| "call_store st (r, OpStats) s = snd (i_DeliveryStats st s)"
| "call_store st (r, OpRecover n) s = snd (i_RecoverPendingServerMsgIDs st r n s)"
| "call_store st (r, OpPending u n) s = snd (i_ListPendingServerMsgIDsByUser st r u n s)"
| "call_store st (r, OpHistory u v n) s = snd (i_GetC2CHistory st r u v n s)"

lemma call_InMemoryStore: "call_store (InMemoryStore b) x s = exec_store b x s"
  by (cases "(InMemoryStore b, x, s)" rule: call_store.cases) (simp_all add: InMemoryStore_def)

lemma run_store_fold: "run_store b ops s = fold (call_store (InMemoryStore b)) ops s"
  by (induction ops arbitrary: s) (simp_all add: call_InMemoryStore)

section \<open>What the logic service relies on\<close>

text \<open>The (sender, client id) index, abstractly, and what a call does to it.\<close>

type_synonym client_index = "string \<Rightarrow> string \<Rightarrow> Message option"

definition index_add :: "Message \<Rightarrow> client_index \<Rightarrow> client_index" where
  "index_add m X = (\<lambda>f c. if f = From m \<and> c = ClientMsgID m \<and> f \<noteq> [] \<and> c \<noteq> []
     then Some m else X f c)"

fun index_step :: "store_op \<Rightarrow> client_index \<Rightarrow> client_index" where
  "index_step (OpSave (Some m) rs) X = (if ServerMsgID m = [] then X else index_add m X)"
| "index_step (OpSaveMessage (Some m)) X = (if ServerMsgID m = [] then X else index_add m X)"
| "index_step _ X = X"

text \<open>What every call of the store keeps, and nothing else; many facts of the clients need no more.\<close>

locale kept_store =
  fixes st :: "'s Store"
    and wf :: "'s \<Rightarrow> bool"
  assumes wf_call: "wf s \<Longrightarrow> wf (call_store st x s)"

text \<open>
  The part that every implementation keeps, in memory and in database mode: an indexed pair
  stays indexed, an indexed message is found, a successful save indexes, and the numbers of a
  chat go up by one.
\<close>

locale client_store = kept_store st wf
  for st :: "'s Store" and wf :: "'s \<Rightarrow> bool" +
  fixes idx :: "'s \<Rightarrow> client_index"
    and last :: "'s \<Rightarrow> string \<Rightarrow> 64 word option"
  assumes idx_grows: "wf s \<Longrightarrow> idx s f c \<noteq> None \<Longrightarrow> idx (call_store st x s) f c \<noteq> None"
    and idx_found: "wf s \<Longrightarrow> f \<noteq> [] \<Longrightarrow> c \<noteq> [] \<Longrightarrow> idx s f c = Some m \<Longrightarrow>
      i_GetMessageByClientID st f c s = (Some m, s)"
    and found_key: "wf s \<Longrightarrow> idx s f c = Some m \<Longrightarrow> From m = f \<and> ClientMsgID m = c"
    and save_idx: "wf s \<Longrightarrow> From m \<noteq> [] \<Longrightarrow> ClientMsgID m \<noteq> [] \<Longrightarrow>
      i_SaveMessageWithRecipients st (Some m) rs s = (None, s') \<Longrightarrow>
      idx s' (From m) (ClientMsgID m) = Some m"
    and seq_next: "last s (chat_key c) = Some n \<Longrightarrow> fst (i_NextSeq st c s) = n + 1"
    and seq_last: "last (snd (i_NextSeq st c s)) k =
      (if k = chat_key c then Some (fst (i_NextSeq st c s)) else last s k)"
    and last_call: "seq_request op = None \<Longrightarrow> last (call_store st (r, op) s) = last s"

text \<open>
  In memory mode the effect of every call on index and counters is exact.
\<close>

fun counter_step :: "store_op \<Rightarrow> (string \<Rightarrow> 64 word) \<Rightarrow> string \<Rightarrow> 64 word" where
  "counter_step (OpNextSeq c) K = K(chat_key c := K (chat_key c) + 1)"
| "counter_step _ K = K"

locale indexed_store =
  fixes st :: "'s Store"
    and inv :: "'s \<Rightarrow> bool"
    and index :: "'s \<Rightarrow> client_index"
    and counter :: "'s \<Rightarrow> string \<Rightarrow> 64 word"
  assumes inv_call: "inv s \<Longrightarrow> inv (call_store st x s)"
    and index_call: "inv s \<Longrightarrow> index (call_store st (r, op) s) = index_step op (index s)"
    and by_client: "inv s \<Longrightarrow> f \<noteq> [] \<Longrightarrow> c \<noteq> [] \<Longrightarrow>
      i_GetMessageByClientID st f c s = (index s f c, s)"
    and save_ok: "inv s \<Longrightarrow> ServerMsgID m \<noteq> [] \<Longrightarrow>
      fst (i_SaveMessageWithRecipients st (Some m) rs s) = None"
    and counter_call: "inv s \<Longrightarrow> counter (call_store st (r, op) s) = counter_step op (counter s)"
    and next_seq: "inv s \<Longrightarrow> fst (i_NextSeq st c s) = counter s (chat_key c) + 1"
begin

lemma inv_calls: "inv s \<Longrightarrow> inv (fold (call_store st) ops s)"
  by (induction ops arbitrary: s) (simp_all add: inv_call)

lemma index_calls:
  "inv s \<Longrightarrow> index (fold (call_store st) ops s) = fold (\<lambda>x. index_step (snd x)) ops (index s)"
proof (induction ops arbitrary: s)
  case (Cons x ops)
  then show ?case using index_call[of s "fst x" "snd x"] inv_call[of s x] by simp
qed simp

end

section \<open>What the delivery worker relies on\<close>

locale ledger_store = indexed_store +
  fixes ledger :: "'s \<Rightarrow> ledger"
  assumes ledger_call: "inv s \<Longrightarrow> ledger (call_store st (r, op) s) = ledger_step op (ledger s)"
    and recipients: "inv s \<Longrightarrow> range_ok r \<Longrightarrow>
      set (fst (i_GetRecipients st r i s)) = {to. \<exists>n. ledger s i to = Some (SPending, n)}"
    and recipients_pure: "inv s \<Longrightarrow> snd (i_GetRecipients st r i s) = s"
    and recipients_distinct: "inv s \<Longrightarrow> range_ok r \<Longrightarrow> distinct (fst (i_GetRecipients st r i s))"
    and by_server_pure: "inv s \<Longrightarrow> snd (i_GetMessageByServerID st i s) = s"
begin

lemma ledger_calls:
  "inv s \<Longrightarrow> ledger (fold (call_store st) ops s) = fold (\<lambda>x. ledger_step (snd x)) ops (ledger s)"
proof (induction ops arbitrary: s)
  case (Cons x ops)
  then show ?case using ledger_call[of s "fst x" "snd x"] inv_call[of s x] by simp
qed simp

end

section \<open>The in-memory store provides it\<close>

definition mem_inv :: "('d, 'c) store \<Rightarrow> bool" where
  "mem_inv s \<longleftrightarrow> store_wf s \<and> \<not> persistent s"

lemma byClient_step:
  "byClient_lookup (saveMessageUnsafe m s) = index_add m (byClient_lookup s)"
  by (auto simp: fun_eq_iff byClient_saveMessageUnsafe index_add_def)

lemma byClient_lookup_frame [simp]:
  "byClient_lookup (mod_entry i to f s) = byClient_lookup s"
  "byClient_lookup (saveDeliveryUnsafe i to s) = byClient_lookup s"
  "byClient_lookup (fold (saveDeliveryUnsafe i) rs s) = byClient_lookup s"
  by (simp_all add: fun_eq_iff byClient_lookup_def)

lemma byClient_save:
  assumes "\<not> persistent s"
  shows "byClient_lookup (snd (SaveMessageWithRecipients b m rs s)) =
    index_step (OpSave m rs) (byClient_lookup s)"
  using assms by (cases m) (auto simp: SaveMessageWithRecipients_def Let_def byClient_step)

lemma byClient_exec:
  assumes "\<not> persistent s"
  shows "byClient_lookup (exec_store b (r, op) s) = index_step op (byClient_lookup s)"
proof (cases op)
  case (OpNextSeq c)
  then show ?thesis
    using NextSeq_frame[of b c s] by (simp add: fun_eq_iff byClient_lookup_def)
next
  case (OpSaveMessage m)
  then show ?thesis
    using byClient_save[OF assms, of b m "[]"] by (cases m) (simp_all add: SaveMessage_def)
next
  case (OpSave m rs)
  then show ?thesis using byClient_save[OF assms, of b m rs] by simp
qed (use assms in \<open>simp_all add: ledger_reads SaveDelivery_def MarkDeliverySent_def
  MarkDeliveryAcked_def MarkDeliveryRead_def ScheduleRetry_def Let_def\<close>)

definition last_seq :: "('d, 'c) store \<Rightarrow> string \<Rightarrow> 64 word" where
  "last_seq s c = (case map_of (nextSeq s) c of None \<Rightarrow> 0 | Some n \<Rightarrow> n)"

lemma last_seq_exec:
  assumes "\<not> persistent s"
  shows "last_seq (exec_store b (r, op) s) = counter_step op (last_seq s)"
proof (cases "seq_request op")
  case None
  then show ?thesis
    by (cases op) (simp_all add: last_seq_def fun_eq_iff exec_store_nextSeq seq_request_def
        del: exec_store.simps)
next
  case (Some k)
  then obtain c where "op = OpNextSeq c" by (auto simp: seq_request_def split: store_op.splits)
  then show ?thesis
    using assms by (auto simp: last_seq_def fun_eq_iff nextSeq_NextSeq NextSeq_mem)
qed

lemma mem_inv_call: "mem_inv s \<Longrightarrow> mem_inv (call_store (InMemoryStore b) x s)"
  by (simp add: mem_inv_def call_InMemoryStore store_wf_exec)

lemma distinct_GetRecipients:
  assumes "mem_inv s" "range_ok r"
  shows "distinct (fst (GetRecipients b r i s))"
proof (cases "map_of (deliveries s) i")
  case (Some m)
  with assms have "distinct (gkeys m)" by (auto simp: mem_inv_def store_wf_def dest: gall_lookup)
  with Some assms show ?thesis
    by (simp add: GetRecipients_def mem_inv_def mem_recipients_def)
qed (use assms in \<open>simp add: GetRecipients_def mem_inv_def mem_recipients_def\<close>)

lemma byClient_mem_step:
  "mem_step s s' \<Longrightarrow> byClient_lookup s f c \<noteq> None \<Longrightarrow> byClient_lookup s' f c \<noteq> None"
proof (induction rule: mem_step.induct)
  case (message s msg)
  then show ?case by (simp add: byClient_step index_add_def)
qed (simp_all add: byClient_lookup_def)

lemma byClient_mem_steps:
  "mem_steps s s' \<Longrightarrow> byClient_lookup s f c \<noteq> None \<Longrightarrow> byClient_lookup s' f c \<noteq> None"
  by (induction rule: rtranclp_induct) (auto dest: byClient_mem_step)

lemma byClient_grows:
  assumes "byClient_lookup s f c \<noteq> None"
  shows "byClient_lookup (exec_store b (r, op) s) f c \<noteq> None"
proof (cases "seq_request op")
  case None
  then show ?thesis using assms exec_store_steps byClient_mem_steps by blast
next
  case (Some k)
  then obtain c' where "op = OpNextSeq c'" by (auto simp: seq_request_def split: store_op.splits)
  then show ?thesis using assms NextSeq_frame[of b c' s] by (simp add: byClient_lookup_def)
qed

lemma byClient_key:
  assumes "store_wf s" and "byClient_lookup s f c = Some m"
  shows "From m = f \<and> ClientMsgID m = c"
proof -
  obtain inner where "map_of (byClient s) f = Some inner" "map_of inner c = Some m"
    using assms(2) by (auto simp: byClient_lookup_def bind_eq_Some_conv)
  with assms(1) show ?thesis by (auto simp: store_wf_def dest!: gall_lookup)
qed

interpretation cs: client_store "InMemoryStore b" store_wf byClient_lookup "\<lambda>s. map_of (nextSeq s)" for b
proof unfold_locales
  fix s :: "('a, 'b) store" and x r op f c m rs s' n k
  show "store_wf (call_store (InMemoryStore b) x s)" if "store_wf s"
    using that by (simp add: call_InMemoryStore store_wf_exec)
  show "byClient_lookup (call_store (InMemoryStore b) x s) f c \<noteq> None"
    if "byClient_lookup s f c \<noteq> None"
    using byClient_grows[OF that, of b "fst x" "snd x"] by (simp add: call_InMemoryStore)
  show "i_GetMessageByClientID (InMemoryStore b) f c s = (Some m, s)"
    if "f \<noteq> []" "c \<noteq> []" "byClient_lookup s f c = Some m"
    using that by (simp add: InMemoryStore_def GetMessageByClientID_def)
  show "From m = f \<and> ClientMsgID m = c" if "store_wf s" "byClient_lookup s f c = Some m"
    using that by (rule byClient_key)
  show "byClient_lookup s' (From m) (ClientMsgID m) = Some m"
    if "From m \<noteq> []" "ClientMsgID m \<noteq> []"
      "i_SaveMessageWithRecipients (InMemoryStore b) (Some m) rs s = (None, s')"
    using that Save_ok[of b m rs s s']
    by (auto simp: InMemoryStore_def byClient_step index_add_def)
  show "fst (i_NextSeq (InMemoryStore b) c s) = n + 1"
    if "map_of (nextSeq s) (chat_key c) = Some n"
    using that by (simp add: InMemoryStore_def NextSeq_known)
  show "map_of (nextSeq (snd (i_NextSeq (InMemoryStore b) c s))) k =
      (if k = chat_key c then Some (fst (i_NextSeq (InMemoryStore b) c s)) else map_of (nextSeq s) k)"
    by (simp add: InMemoryStore_def nextSeq_NextSeq)
  show "map_of (nextSeq (call_store (InMemoryStore b) (r, op) s)) = map_of (nextSeq s)"
    if "seq_request op = None"
    using that by (simp add: call_InMemoryStore exec_store_nextSeq)
qed

interpretation ms: ledger_store "InMemoryStore b" mem_inv byClient_lookup last_seq ledger_of for b
proof unfold_locales
  fix s :: "('a, 'b) store" and x r op f c m rs i
  assume inv: "mem_inv s"
  then have p: "\<not> persistent s" by (simp add: mem_inv_def)
  show "mem_inv (call_store (InMemoryStore b) x s)" by (rule mem_inv_call[OF inv])
  show "byClient_lookup (call_store (InMemoryStore b) (r, op) s) = index_step op (byClient_lookup s)"
    by (simp add: call_InMemoryStore byClient_exec p)
  show "ledger_of (call_store (InMemoryStore b) (r, op) s) = ledger_step op (ledger_of s)"
    by (simp add: call_InMemoryStore ledger_exec p)
  show "last_seq (call_store (InMemoryStore b) (r, op) s) = counter_step op (last_seq s)"
    by (simp add: call_InMemoryStore last_seq_exec p)
  show "fst (i_NextSeq (InMemoryStore b) c s) = last_seq s (chat_key c) + 1"
    using p by (simp add: InMemoryStore_def NextSeq_mem last_seq_def)
  show "i_GetMessageByClientID (InMemoryStore b) f c s = (byClient_lookup s f c, s)"
    if "f \<noteq> []" "c \<noteq> []"
    using that p by (simp add: InMemoryStore_def GetMessageByClientID_def split: option.split)
  show "fst (i_SaveMessageWithRecipients (InMemoryStore b) (Some m) rs s) = None"
    if "ServerMsgID m \<noteq> []"
    using that p by (simp add: InMemoryStore_def SaveMessageWithRecipients_def Let_def)
  show "set (fst (i_GetRecipients (InMemoryStore b) r i s)) =
      {to. \<exists>n. ledger_of s i to = Some (SPending, n)}" if "range_ok r"
    using that p by (simp add: InMemoryStore_def set_GetRecipients)
  show "distinct (fst (i_GetRecipients (InMemoryStore b) r i s))" if "range_ok r"
    using that inv by (simp add: InMemoryStore_def distinct_GetRecipients)
  show "snd (i_GetRecipients (InMemoryStore b) r i s) = s"
    and "snd (i_GetMessageByServerID (InMemoryStore b) i s) = s"
    using p by (simp_all add: InMemoryStore_def ledger_reads)
qed

end
