(* ===== verification/Logic_Service.thy ===== *)
theory Logic_Service
  imports Store_Iface
begin

text \<open>
  The logic service (\<open>internal/server/logic.go\<close>): server message ids, the idempotent
  acceptance of a message, and the acknowledgements, over any implementation of the
  \<open>Store\<close> interface.
\<close>

section \<open>State and operations\<close>

record 's LogicService =
  l_store :: 's
  idCounter :: "64 word"

definition newLogicService :: "'s \<Rightarrow> 's LogicService" where
  "newLogicService s = \<lparr>l_store = s, idCounter = 0\<rparr>"

definition UnixMilli :: "int \<Rightarrow> int" where
  "UnixMilli t = t div 1000000"

definition GenerateServerMsgID :: "int \<Rightarrow> string \<Rightarrow> 's LogicService \<Rightarrow> string \<times> 's LogicService" where
  "GenerateServerMsgID t prefix l =
     (let p0 = TrimSpace prefix;
          p = (if p0 = [] then ''s'' else p0);
          seq = idCounter l + 1
      in (p @ ''-'' @ itoa_int (UnixMilli t) @ ''-'' @ itoa (unat seq), l\<lparr>idCounter := seq\<rparr>))"

datatype send_error = RequestIsNil | FromIsEmpty | SaveFailed store_error

datatype send_result = Saved Message | Existing Message | SendError send_error

text \<open>
  \<open>ProcessSend\<close> in two parts. Up to and including the lookup of an earlier message with the
  same sender and client id it only reads; \<open>Inr\<close> is the request to go on with, its client id
  filled in.
\<close>

definition send_check ::
  "'s Store \<Rightarrow> rt \<Rightarrow> Message option \<Rightarrow> 's LogicService \<Rightarrow>
   (send_result + Message) \<times> 's LogicService" where
  "send_check st r reqp l =
     (case reqp of
        None \<Rightarrow> (Inl (SendError RequestIsNil), l)
      | Some req0 \<Rightarrow>
          if TrimSpace (From req0) = [] then (Inl (SendError FromIsEmpty), l)
          else
            (let req = (if TrimSpace (ClientMsgID req0) = []
                        then req0\<lparr>ClientMsgID := ''c-'' @ itoa_int (clk r 0)\<rparr> else req0)
             in case i_GetMessageByClientID st (From req) (ClientMsgID req) (l_store l) of
                  (Some ex, s) \<Rightarrow> (Inl (Existing ex), l\<lparr>l_store := s\<rparr>)
                | (None, s) \<Rightarrow> (Inr req, l\<lparr>l_store := s\<rparr>)))"

definition chat_of :: "Message \<Rightarrow> string" where
  "chat_of req =
     (let c0 = TrimSpace (ChatID req);
          c1 = (if c0 = [] \<and> To req \<noteq> [] then C2CChatID (From req) (To req) else c0)
      in if c1 = [] then ''broadcast'' else c1)"

definition send_commit ::
  "'s Store \<Rightarrow> rt \<Rightarrow> Message \<Rightarrow> string list \<Rightarrow> 's LogicService \<Rightarrow> send_result \<times> 's LogicService" where
  "send_commit st r req recipients l =
     (case i_NextSeq st (chat_of req) (l_store l) of
        (seq, s1) \<Rightarrow>
          (case GenerateServerMsgID (clk r 1) ''s'' (l\<lparr>l_store := s1\<rparr>) of
             (i, l1) \<Rightarrow>
               (let msg = zero_Message\<lparr>Type := TypeDeliver, ServerMsgID := i,
                      ClientMsgID := ClientMsgID req, ChatID := chat_of req, From := From req,
                      To := To req, Seq := seq, Body := Body req, Ts := unix (clk r 2)\<rparr>
                in case i_SaveMessageWithRecipients st (Some msg) recipients (l_store l1) of
                     (Some e, s2) \<Rightarrow> (SendError (SaveFailed e), l1\<lparr>l_store := s2\<rparr>)
                   | (None, s2) \<Rightarrow> (Saved msg, l1\<lparr>l_store := s2\<rparr>))))"

definition ProcessSend ::
  "'s Store \<Rightarrow> rt \<Rightarrow> Message option \<Rightarrow> string list \<Rightarrow> 's LogicService \<Rightarrow>
   send_result \<times> 's LogicService" where
  "ProcessSend st r req recipients l =
     (case send_check st r req l of
        (Inl res, l1) \<Rightarrow> (res, l1)
      | (Inr req', l1) \<Rightarrow> send_commit st r req' recipients l1)"

definition HandleDeliverAck ::
  "'s Store \<Rightarrow> rt \<Rightarrow> string \<Rightarrow> string \<Rightarrow> 's LogicService \<Rightarrow> 's LogicService" where
  "HandleDeliverAck st r username serverMsgID l =
     (if username = [] \<or> serverMsgID = [] then l
      else l\<lparr>l_store := snd (i_MarkDeliveryAcked st r serverMsgID username (l_store l))\<rparr>)"

definition HandleReadAck ::
  "'s Store \<Rightarrow> rt \<Rightarrow> string \<Rightarrow> string \<Rightarrow> 's LogicService \<Rightarrow> 's LogicService" where
  "HandleReadAck st r username serverMsgID l =
     (if username = [] \<or> serverMsgID = [] then l
      else l\<lparr>l_store := snd (i_MarkDeliveryRead st r serverMsgID username (l_store l))\<rparr>)"

text \<open>
  The body of \<open>BroadcastSystemEvent\<close> (\<open>internal/server/broadcast.go\<close>) up to the enqueue: a
  message from \<open>system\<close>, without a client id, to the given recipients; a failed save is
  ignored.
\<close>

definition system_event ::
  "'s Store \<Rightarrow> rt \<Rightarrow> string \<Rightarrow> string list \<Rightarrow> 's LogicService \<Rightarrow>
   (string \<times> 64 word) \<times> 's LogicService" where
  "system_event st r body recipients l =
     (case i_NextSeq st ''system'' (l_store l) of
        (seq, s1) \<Rightarrow>
          (case GenerateServerMsgID (clk r 0) ''sys'' (l\<lparr>l_store := s1\<rparr>) of
             (i, l1) \<Rightarrow>
               (let msg = zero_Message\<lparr>Type := TypeDeliver, ServerMsgID := i, ChatID := ''system'',
                      From := ''system'', Body := body, Seq := seq, Ts := unix (clk r 1)\<rparr>
                in ((i, seq), l1\<lparr>l_store := snd (i_SaveMessageWithRecipients st (Some msg) recipients
                       (l_store l1))\<rparr>))))"

section \<open>Server message ids\<close>

text \<open>The counter an id ends with: the digits after its last dash.\<close>

definition id_counter :: "string \<Rightarrow> nat" where
  "id_counter i = decimal (rev (takeWhile (\<lambda>c. c \<noteq> CHR ''-'') (rev i)))"

lemma id_counter_append: "CHR ''-'' \<notin> set ds \<Longrightarrow> id_counter (p @ ''-'' @ ds) = decimal ds"
proof -
  assume "CHR ''-'' \<notin> set ds"
  then have "takeWhile (\<lambda>c. c \<noteq> CHR ''-'') (rev ds @ CHR ''-'' # rev p) = rev ds"
    by (subst takeWhile_append2) auto
  then show ?thesis by (simp add: id_counter_def)
qed

lemma id_counter_Generate:
  "id_counter (fst (GenerateServerMsgID t p l)) = unat (idCounter l + 1)"
  using id_counter_append[of "itoa (unat (idCounter l + 1))"
      "(if TrimSpace p = [] then ''s'' else TrimSpace p) @ ''-'' @ itoa_int (UnixMilli t)"]
  by (simp add: GenerateServerMsgID_def Let_def)

lemma Generate_frame [simp]:
  "l_store (snd (GenerateServerMsgID t p l)) = l_store l"
  "idCounter (snd (GenerateServerMsgID t p l)) = idCounter l + 1"
  by (simp_all add: GenerateServerMsgID_def Let_def)

lemma Generate_ne [simp]: "fst (GenerateServerMsgID t p l) \<noteq> []"
  by (simp add: GenerateServerMsgID_def Let_def)

text \<open>The ids of a series of calls with any prefixes at any times.\<close>

fun generate_ids :: "(int \<times> string) list \<Rightarrow> 's LogicService \<Rightarrow> string list" where
  "generate_ids [] l = []"
| "generate_ids ((t, p) # xs) l =
     (case GenerateServerMsgID t p l of (i, l') \<Rightarrow> i # generate_ids xs l')"

lemma id_counters:
  "map id_counter (generate_ids xs l) =
     map unat (map (\<lambda>j. idCounter l + of_nat (Suc j)) [0..<length xs])"
proof (induction xs arbitrary: l)
  case (Cons x xs)
  obtain t p where x: "x = (t, p)" by (cases x)
  let ?l = "snd (GenerateServerMsgID t p l)"
  have "map id_counter (generate_ids (x # xs) l) =
      unat (idCounter l + 1) # map unat (map (\<lambda>j. (idCounter l + 1) + of_nat (Suc j)) [0..<length xs])"
    using Cons.IH[of ?l] by (simp add: x case_prod_beta id_counter_Generate)
  also have "\<dots> = map unat (map (\<lambda>j. (idCounter l + 1) + of_nat j) [0..<Suc (length xs)])"
    unfolding map_upt_shift[symmetric] by simp
  finally show ?case by (simp add: add.assoc del: upt_Suc)
qed simp

lemma distinct_map_unat: "distinct (xs :: 64 word list) \<Longrightarrow> distinct (map unat xs)"
  by (subst distinct_map) (auto simp: inj_on_def word_unat_eq_iff)

text \<open>
  Server message ids are unique while the service runs: the first $2^{64}$ ids it generates are
  pairwise different, whatever prefixes are asked for and however the clock moves, backwards
  included, because the counter is the part after the last dash.
\<close>

theorem server_ids_unique:
  assumes "length xs \<le> 2 ^ 64"
  shows "distinct (generate_ids xs l)"
proof -
  have "distinct (map (\<lambda>j. idCounter l + of_nat (Suc j)) [0..<length xs])"
    by (rule distinct_word_run[OF assms])
  then have "distinct (map id_counter (generate_ids xs l))"
    unfolding id_counters by (rule distinct_map_unat)
  then show ?thesis by (simp add: distinct_map)
qed

theorem server_ids_unique_witness:
  "distinct (generate_ids [(5000000, ''s''), (5000000, ''s''), (0, []), (5000000, ''s-5'')]
     (newLogicService ()))"
  by (rule server_ids_unique) simp

section \<open>Runs of the service\<close>

text \<open>
  What happens to the service while it runs: sends, acknowledgements, system events, and the
  store calls of the other parts of the server, none of which saves a message or takes a
  sequence number.
\<close>

datatype logic_op =
    LSend rt "Message option" "string list"
  | LDeliverAck rt string string
  | LReadAck rt string string
  | LEvent rt string "string list"
  | LStore rt store_op

definition foreign_call :: "store_op \<Rightarrow> bool" where
  "foreign_call op = (case op of
     OpNextSeq _ \<Rightarrow> False | OpSave _ _ \<Rightarrow> False | OpSaveMessage _ \<Rightarrow> False | _ \<Rightarrow> True)"

fun exec_logic :: "'s Store \<Rightarrow> logic_op \<Rightarrow> 's LogicService \<Rightarrow> send_result option \<times> 's LogicService" where
  "exec_logic st (LSend r req rs) l = map_prod Some id (ProcessSend st r req rs l)"
| "exec_logic st (LDeliverAck r u i) l = (None, HandleDeliverAck st r u i l)"
| "exec_logic st (LReadAck r u i) l = (None, HandleReadAck st r u i l)"
| "exec_logic st (LEvent r body rs) l = (None, snd (system_event st r body rs l))"
| "exec_logic st (LStore r op) l =
     (None, if foreign_call op then l\<lparr>l_store := call_store st (r, op) (l_store l)\<rparr> else l)"

text \<open>The messages a run accepts, in order, and the state it ends in.\<close>

fun saved_run :: "'s Store \<Rightarrow> logic_op list \<Rightarrow> 's LogicService \<Rightarrow> Message list \<times> 's LogicService" where
  "saved_run st [] l = ([], l)"
| "saved_run st (op # ops) l =
     (case exec_logic st op l of
        (res, l1) \<Rightarrow>
          (case saved_run st ops l1 of
             (ms, l2) \<Rightarrow> ((case res of Some (Saved m) \<Rightarrow> [m] | _ \<Rightarrow> []) @ ms, l2)))"

section \<open>Clients of the store contract\<close>

context indexed_store
begin

abbreviation l_inv :: "'s LogicService \<Rightarrow> bool" where
  "l_inv l \<equiv> inv (l_store l)"

abbreviation l_index :: "'s LogicService \<Rightarrow> client_index" where
  "l_index l \<equiv> index (l_store l)"

abbreviation l_counter :: "'s LogicService \<Rightarrow> string \<Rightarrow> 64 word" where
  "l_counter l \<equiv> counter (l_store l)"

lemma send_check_Inr:
  assumes "l_inv l" "send_check st r req l = (Inr req', l')"
  shows "l' = l \<and> From req' \<noteq> [] \<and> ClientMsgID req' \<noteq> [] \<and>
    l_index l (From req') (ClientMsgID req') = None"
proof -
  obtain q where q: "req = Some q" "TrimSpace (From q) \<noteq> []"
    using assms(2) by (auto simp: send_check_def split: option.splits if_splits)
  then have "From q \<noteq> []" by auto
  moreover have "ClientMsgID (if TrimSpace (ClientMsgID q) = []
      then q\<lparr>ClientMsgID := ''c-'' @ itoa_int (clk r 0)\<rparr> else q) \<noteq> []"
    by auto
  ultimately show ?thesis
    using assms q by (auto simp: send_check_def by_client Let_def split: if_splits option.splits)
qed

lemma send_check_Inl:
  assumes "l_inv l" "send_check st r req l = (Inl res, l')"
  shows "l' = l \<and> \<not> (\<exists>m. res = Saved m)"
proof (cases req)
  case (Some q)
  then have "From q \<noteq> []" if "TrimSpace (From q) \<noteq> []" using that by auto
  moreover have "ClientMsgID q \<noteq> []" if "TrimSpace (ClientMsgID q) \<noteq> []" using that by auto
  ultimately show ?thesis
    using assms Some
    by (auto simp: send_check_def by_client Let_def split: if_splits option.splits)
qed (use assms in \<open>auto simp: send_check_def\<close>)

lemma chat_of_ne: "chat_of req \<noteq> []"
  by (simp add: chat_of_def Let_def)

lemma send_commit_Saved:
  assumes "l_inv l" and "From req \<noteq> []" and "ClientMsgID req \<noteq> []"
  obtains m l' where "send_commit st r req rs l = (Saved m, l')" and "l_inv l'"
    and "From m = From req" and "ClientMsgID m = ClientMsgID req" and "ChatID m = chat_of req"
    and "To m = To req" and "Body m = Body req" and "Type m = TypeDeliver"
    and "Seq m = l_counter l (chat_of req) + 1"
    and "id_counter (ServerMsgID m) = unat (idCounter l + 1)" and "ServerMsgID m \<noteq> []"
    and "idCounter l' = idCounter l + 1"
    and "l_index l' = index_add m (l_index l)"
    and "l_counter l' = (l_counter l)(chat_of req := l_counter l (chat_of req) + 1)"
    and "l_store l' = fold (call_store st) [(r, OpNextSeq (chat_of req)), (r, OpSave (Some m) rs)]
      (l_store l)"
proof -
  define c where "c = chat_of req"
  have key: "chat_key c = c" by (simp add: c_def chat_key_def chat_of_ne)
  define s1 where "s1 = snd (i_NextSeq st c (l_store l))"
  have s1: "s1 = call_store st (r, OpNextSeq c) (l_store l)" by (simp add: s1_def)
  have i1: "inv s1" unfolding s1 using assms(1) by (rule inv_call)
  define g where "g = GenerateServerMsgID (clk r 1) ''s'' (l\<lparr>l_store := s1\<rparr>)"
  define m where "m = zero_Message\<lparr>Type := TypeDeliver, ServerMsgID := fst g,
    ClientMsgID := ClientMsgID req, ChatID := c, From := From req, To := To req,
    Seq := fst (i_NextSeq st c (l_store l)), Body := Body req, Ts := unix (clk r 2)\<rparr>"
  define s2 where "s2 = snd (i_SaveMessageWithRecipients st (Some m) rs s1)"
  have s2: "s2 = call_store st (r, OpSave (Some m) rs) s1" by (simp add: s2_def)
  have id_ne: "ServerMsgID m \<noteq> []" by (simp add: m_def g_def)
  have ls: "l_store (snd g) = s1" by (simp add: g_def)
  have "send_commit st r req rs l = (Saved m, (snd g)\<lparr>l_store := s2\<rparr>)"
    unfolding send_commit_def c_def[symmetric] case_prod_beta s1_def[symmetric] g_def[symmetric]
      Let_def m_def[symmetric] ls
    using save_ok[OF i1 id_ne, of rs] by (simp add: s2_def)
  moreover have "inv s2" unfolding s2 using i1 by (rule inv_call)
  moreover have "index s2 = index_add m (index (l_store l))"
    using index_call[OF i1, of r "OpSave (Some m) rs"] index_call[OF assms(1), of r "OpNextSeq c"] id_ne
    by (simp add: s2 s1)
  moreover have "counter s2 = (counter (l_store l))(c := counter (l_store l) c + 1)"
    using counter_call[OF i1, of r "OpSave (Some m) rs"] counter_call[OF assms(1), of r "OpNextSeq c"]
    by (simp add: s2 s1 key)
  ultimately show thesis
    using that[of m "(snd g)\<lparr>l_store := s2\<rparr>"] id_ne next_seq[OF assms(1), of c]
    by (simp add: m_def g_def id_counter_Generate c_def[symmetric] key s1_def s2_def)
qed

lemma index_add_same: "index_add m X (From m) (ClientMsgID m) =
    (if From m \<noteq> [] \<and> ClientMsgID m \<noteq> [] then Some m else X (From m) (ClientMsgID m))"
  by (simp add: index_add_def)

lemma index_add_no_client: "ClientMsgID m = [] \<Longrightarrow> index_add m X = X"
  by (auto simp: index_add_def fun_eq_iff)

lemma index_step_foreign: "foreign_call op \<Longrightarrow> index_step op X = X"
  by (cases op) (simp_all add: foreign_call_def)

lemma counter_step_foreign: "foreign_call op \<Longrightarrow> counter_step op K = K"
  by (cases op) (simp_all add: foreign_call_def)

text \<open>One step: either it accepts a message, or the index and the counters of all chats but
  \<open>system\<close> stay as they are.\<close>

definition accepts :: "Message \<Rightarrow> 's LogicService \<Rightarrow> 's LogicService \<Rightarrow> bool" where
  "accepts m l l' \<longleftrightarrow> From m \<noteq> [] \<and> ClientMsgID m \<noteq> [] \<and> ServerMsgID m \<noteq> [] \<and>
     l_index l (From m) (ClientMsgID m) = None \<and> l_index l' = index_add m (l_index l) \<and>
     Seq m = l_counter l (ChatID m) + 1 \<and>
     l_counter l' = (l_counter l)(ChatID m := l_counter l (ChatID m) + 1) \<and>
     id_counter (ServerMsgID m) = unat (idCounter l + 1) \<and> idCounter l' = idCounter l + 1"

definition idles :: "'s LogicService \<Rightarrow> 's LogicService \<Rightarrow> bool" where
  "idles l l' \<longleftrightarrow> l_index l' = l_index l \<and>
     (\<forall>c. c \<noteq> ''system'' \<longrightarrow> l_counter l' c = l_counter l c)"

lemma call_idles:
  assumes "l_inv l" "foreign_call op"
  shows "l_inv (l\<lparr>l_store := call_store st (r, op) (l_store l)\<rparr>) \<and>
    idles l (l\<lparr>l_store := call_store st (r, op) (l_store l)\<rparr>)"
  using assms by (simp add: idles_def inv_call index_call counter_call index_step_foreign
      counter_step_foreign)

lemma ProcessSend_step:
  assumes inv: "l_inv l" and send: "ProcessSend st r req rs l = (res, l')"
  shows "l_inv l' \<and> ((\<exists>m. res = Saved m \<and> accepts m l l') \<or> (\<forall>m. res \<noteq> Saved m) \<and> l' = l)"
proof (cases "send_check st r req l")
  case (Pair c l1)
  show ?thesis
  proof (cases c)
    case (Inl res')
    then show ?thesis using Pair send inv send_check_Inl[of l r req res' l1]
      by (simp add: ProcessSend_def)
  next
    case (Inr q)
    then have q: "l1 = l" "From q \<noteq> []" "ClientMsgID q \<noteq> []"
        "l_index l (From q) (ClientMsgID q) = None"
      using Pair inv send_check_Inr[of l r req q l1] by simp_all
    have "send_commit st r q rs l = (res, l')"
      using send Pair Inr q(1) by (simp add: ProcessSend_def)
    then show ?thesis
      by (rule_tac send_commit_Saved[of l q r rs, OF inv q(2,3)])
        (use q(2-4) in \<open>auto simp: accepts_def\<close>)
  qed
qed

lemma event_idles:
  assumes "l_inv l"
  shows "l_inv (snd (system_event st r body rs l)) \<and> idles l (snd (system_event st r body rs l))"
proof -
  define s1 where "s1 = call_store st (r, OpNextSeq ''system'') (l_store l)"
  define g where "g = GenerateServerMsgID (clk r 0) ''sys'' (l\<lparr>l_store := s1\<rparr>)"
  define m where "m = zero_Message\<lparr>Type := TypeDeliver, ServerMsgID := fst g, ChatID := ''system'',
    From := ''system'', Body := body, Seq := fst (i_NextSeq st ''system'' (l_store l)), Ts := unix (clk r 1)\<rparr>"
  define s2 where "s2 = call_store st (r, OpSave (Some m) rs) s1"
  have "l_store (snd g) = s1" by (simp add: g_def)
  then have "snd (system_event st r body rs l) = (snd g)\<lparr>l_store := s2\<rparr>"
    by (simp add: system_event_def case_prod_beta s1_def g_def m_def s2_def Let_def)
  moreover have i1: "inv s1" unfolding s1_def using assms by (rule inv_call)
  moreover have "inv s2" unfolding s2_def using i1 by (rule inv_call)
  moreover have "index s2 = index (l_store l)"
    using index_call[OF i1, of r "OpSave (Some m) rs"] index_call[OF assms, of r "OpNextSeq ''system''"]
    by (simp add: s2_def s1_def m_def zero_Message_def index_add_no_client)
  moreover have "counter s2 c = counter (l_store l) c" if "c \<noteq> ''system''" for c
    using counter_call[OF i1, of r "OpSave (Some m) rs"] that
      counter_call[OF assms, of r "OpNextSeq ''system''"]
    by (simp add: s2_def s1_def chat_key_def)
  ultimately show ?thesis by (simp add: idles_def)
qed

lemma exec_logic_step:
  assumes "l_inv l" and "exec_logic st op l = (res, l')"
  shows "l_inv l' \<and> ((\<exists>m. res = Some (Saved m) \<and> accepts m l l') \<or>
    (\<forall>m. res \<noteq> Some (Saved m)) \<and> idles l l')"
proof (cases op)
  case (LSend r req rs)
  then show ?thesis
    using assms ProcessSend_step[of l r req rs "fst (ProcessSend st r req rs l)"
        "snd (ProcessSend st r req rs l)"]
    by (cases "ProcessSend st r req rs l") (auto simp: idles_def)
next
  case (LDeliverAck r u i)
  then show ?thesis
    using assms call_idles[of l "OpAcked i u" r]
    by (auto simp: HandleDeliverAck_def foreign_call_def idles_def)
next
  case (LReadAck r u i)
  then show ?thesis
    using assms call_idles[of l "OpRead i u" r]
    by (auto simp: HandleReadAck_def foreign_call_def idles_def)
next
  case (LEvent r body rs)
  then show ?thesis using assms event_idles[of l r body rs] by auto
next
  case (LStore r op')
  then show ?thesis
    using assms call_idles[of l op' r] by (cases "foreign_call op'") (auto simp: idles_def)
qed

lemma index_kept:
  "l_inv l \<Longrightarrow> l_index l f c = Some m \<Longrightarrow> l_index (snd (saved_run st ops l)) f c = Some m"
proof (induction ops arbitrary: l)
  case (Cons op ops)
  obtain res l1 where step: "exec_logic st op l = (res, l1)" by (cases "exec_logic st op l")
  from exec_logic_step[OF Cons.prems(1) step] Cons.prems(2)
  have "l_inv l1" and "l_index l1 f c = Some m"
    by (auto simp: accepts_def idles_def index_add_def)
  with Cons.IH step show ?case by (simp add: case_prod_beta)
qed simp

lemma saved_run_inv: "l_inv l \<Longrightarrow> l_inv (snd (saved_run st ops l))"
proof (induction ops arbitrary: l)
  case (Cons op ops)
  obtain res l1 where step: "exec_logic st op l = (res, l1)" by (cases "exec_logic st op l")
  with exec_logic_step[OF Cons.prems step] Cons.IH show ?case by (simp add: case_prod_beta)
qed simp

text \<open>What the list of accepted messages looks like, as it grows from the front.\<close>

lemma saved_run_Cons:
  assumes "l_inv l"
  obtains (accept) m l1 where "l_inv l1" "accepts m l l1"
      "fst (saved_run st (op # ops) l) = m # fst (saved_run st ops l1)"
    | (idle) l1 where "l_inv l1" "idles l l1"
      "fst (saved_run st (op # ops) l) = fst (saved_run st ops l1)"
proof -
  obtain res l1 where step: "exec_logic st op l = (res, l1)" by (cases "exec_logic st op l")
  show thesis
    using exec_logic_step[OF assms step] that step
    by (auto simp: case_prod_beta split: option.splits send_result.splits)
qed

lemma saved_seqs:
  assumes "l_inv l" and "c \<noteq> ''system''"
  shows "map Seq (filter (\<lambda>m. ChatID m = c) (fst (saved_run st ops l))) =
    map (\<lambda>j. l_counter l c + of_nat (Suc j))
      [0..<length (filter (\<lambda>m. ChatID m = c) (fst (saved_run st ops l)))]"
  using assms
proof (induction ops arbitrary: l)
  case (Cons op ops)
  show ?case
  proof (cases rule: saved_run_Cons[OF Cons.prems(1), of op ops])
    case (1 m l1)
    show ?thesis
    proof (cases "ChatID m = c")
      case True
      let ?n = "length (filter (\<lambda>m. ChatID m = c) (fst (saved_run st ops l1)))"
      have "l_counter l1 c = l_counter l c + 1" and "Seq m = l_counter l c + 1"
        using 1 True by (auto simp: accepts_def)
      with Cons.IH[OF 1(1) Cons.prems(2)] 1(3) True
      have "map Seq (filter (\<lambda>m. ChatID m = c) (fst (saved_run st (op # ops) l))) =
          (l_counter l c + 1) # map (\<lambda>j. (l_counter l c + 1) + of_nat (Suc j)) [0..<?n]"
        by simp
      also have "\<dots> = map (\<lambda>j. (l_counter l c + 1) + of_nat j) [0..<Suc ?n]"
        by (rule map_upt_shift)
      finally show ?thesis using 1(3) True by (simp add: add.assoc del: upt_Suc)
    next
      case False
      then have "l_counter l1 c = l_counter l c" using 1 by (auto simp: accepts_def)
      with Cons.IH[OF 1(1) Cons.prems(2)] 1(3) False show ?thesis by simp
    qed
  next
    case (2 l1)
    with Cons.IH[of l1] Cons.prems(2) show ?thesis by (simp add: idles_def)
  qed
qed simp

end

section \<open>Acceptance in both modes\<close>

text \<open>
  Numbers drawn from a running 64-bit counter within at most \<open>N\<close> draws after \<open>base\<close>, in
  order; some draws may be lost.
\<close>

definition counted :: "64 word \<Rightarrow> nat \<Rightarrow> 64 word list \<Rightarrow> bool" where
  "counted base N xs \<longleftrightarrow> (\<exists>ks. xs = map (\<lambda>k. base + of_nat k) ks \<and> sorted_wrt (<) ks \<and>
     list_all (\<lambda>k. 1 \<le> k \<and> k \<le> N) ks)"

lemma counted_Nil [simp]: "counted base N []"
  by (simp add: counted_def)

lemma counted_mono: "counted base N xs \<Longrightarrow> counted base (Suc N) xs"
  by (fastforce simp: counted_def list_all_iff)

lemma counted_skip:
  assumes "counted (base + 1) N xs"
  shows "counted base (Suc N) xs"
proof -
  obtain ks where ks: "xs = map (\<lambda>k. base + 1 + of_nat k) ks" "sorted_wrt (<) ks"
      "list_all (\<lambda>k. 1 \<le> k \<and> k \<le> N) ks"
    using assms by (auto simp: counted_def)
  then show ?thesis
    unfolding counted_def
    by (intro exI[of _ "map Suc ks"]) (auto simp: sorted_wrt_map list_all_iff add.assoc)
qed

lemma counted_take:
  assumes "counted (base + 1) N xs"
  shows "counted base (Suc N) ((base + 1) # xs)"
proof -
  obtain ks where ks: "xs = map (\<lambda>k. base + 1 + of_nat k) ks" "sorted_wrt (<) ks"
      "list_all (\<lambda>k. 1 \<le> k \<and> k \<le> N) ks"
    using assms by (auto simp: counted_def)
  then show ?thesis
    unfolding counted_def
    by (intro exI[of _ "1 # map Suc ks"]) (auto simp: sorted_wrt_map list_all_iff add.assoc)
qed

lemma counted_distinct:
  assumes "counted base N xs" and "N < 2 ^ 64"
  shows "distinct xs"
proof -
  obtain ks where ks: "xs = map (\<lambda>k. base + of_nat k) ks" "sorted_wrt (<) ks"
      "list_all (\<lambda>k. 1 \<le> k \<and> k \<le> N) ks"
    using assms(1) by (auto simp: counted_def)
  have "inj_on (\<lambda>k. base + of_nat k) (set ks)"
  proof (rule inj_onI)
    fix i j
    assume ij: "i \<in> set ks" "j \<in> set ks" and "base + of_nat i = base + of_nat j"
    then have "unat (of_nat i :: 64 word) = unat (of_nat j :: 64 word)" by simp
    moreover have "i < 2 ^ 64" "j < 2 ^ 64" using ij ks(3) assms(2) by (auto simp: list_all_iff)
    ultimately show "i = j" by (simp add: unat_of_nat take_bit_eq_mod)
  qed
  moreover have "distinct ks" using ks(2) by (simp add: strict_sorted_iff)
  ultimately show ?thesis by (simp add: ks(1) distinct_map)
qed

lemma distinct_by_class:
  assumes "\<And>c. distinct (map g (filter (\<lambda>x. f x = c) xs))"
  shows "distinct (map (\<lambda>x. (f x, g x)) xs)"
  using assms
proof (induction xs)
  case (Cons x xs)
  have "distinct (map g (filter (\<lambda>y. f y = c) xs))" for c
    using Cons.prems[of c] by (auto split: if_splits)
  then have "distinct (map (\<lambda>x. (f x, g x)) xs)" by (rule Cons.IH)
  moreover have "g x \<notin> g ` {y \<in> set xs. f y = f x}"
    using Cons.prems[of "f x"] by auto
  ultimately show ?case by auto
qed simp

context client_store
begin

abbreviation l_idx :: "'s LogicService \<Rightarrow> client_index" where
  "l_idx l \<equiv> idx (l_store l)"

abbreviation l_last :: "'s LogicService \<Rightarrow> string \<Rightarrow> 64 word option" where
  "l_last l \<equiv> last (l_store l)"

definition idx_le :: "'s LogicService \<Rightarrow> 's LogicService \<Rightarrow> bool" where
  "idx_le l l' \<longleftrightarrow> wf (l_store l') \<and> (\<forall>f c. l_idx l f c \<noteq> None \<longrightarrow> l_idx l' f c \<noteq> None)"

lemma call_idx_le:
  "wf (l_store l) \<Longrightarrow> idx_le l (l\<lparr>l_store := call_store st x (l_store l)\<rparr>)"
  by (simp add: idx_le_def wf_call idx_grows)

lemma idx_le_trans: "idx_le a b \<Longrightarrow> idx_le b c \<Longrightarrow> idx_le a c"
  by (auto simp: idx_le_def)

lemma check_step:
  assumes "wf (l_store l)" and "send_check st r req l = (c, l')"
  shows "idx_le l l' \<and> l_last l' = l_last l \<and> idCounter l' = idCounter l \<and>
    (\<forall>m. c \<noteq> Inl (Saved m)) \<and>
    (\<forall>q. c = Inr q \<longrightarrow> From q \<noteq> [] \<and> ClientMsgID q \<noteq> [] \<and> l_idx l (From q) (ClientMsgID q) = None)"
proof (cases "\<exists>q0. req = Some q0 \<and> TrimSpace (From q0) \<noteq> []")
  case True
  then obtain q0 where q0: "req = Some q0" "TrimSpace (From q0) \<noteq> []" by blast
  define q where "q = (if TrimSpace (ClientMsgID q0) = []
    then q0\<lparr>ClientMsgID := ''c-'' @ itoa_int (clk r 0)\<rparr> else q0)"
  have ne: "From q \<noteq> []" "ClientMsgID q \<noteq> []" using q0(2) by (auto simp: q_def)
  define s where "s = snd (i_GetMessageByClientID st (From q) (ClientMsgID q) (l_store l))"
  have s: "s = call_store st (r, OpByClient (From q) (ClientMsgID q)) (l_store l)"
    by (simp add: s_def)
  have "l_idx l (From q) (ClientMsgID q) = None"
    if "fst (i_GetMessageByClientID st (From q) (ClientMsgID q) (l_store l)) = None"
    using idx_found[OF assms(1) ne] that by (cases "l_idx l (From q) (ClientMsgID q)") auto
  moreover have "l' = l\<lparr>l_store := s\<rparr>" and "c = (case fst (i_GetMessageByClientID st (From q) (ClientMsgID q)
      (l_store l)) of Some ex \<Rightarrow> Inl (Existing ex) | None \<Rightarrow> Inr q)"
    using assms(2) q0 by (auto simp: send_check_def q_def[symmetric] s_def split: prod.splits option.splits)
  moreover have "last s = last (l_store l)"
    unfolding s by (rule last_call) (simp add: seq_request_def)
  ultimately show ?thesis
    using call_idx_le[OF assms(1), of "(r, OpByClient (From q) (ClientMsgID q))"] ne
    unfolding s by (auto split: option.splits)
next
  case False
  with assms show ?thesis
    by (auto simp: send_check_def idx_le_def split: option.splits)
qed

lemma commit_step:
  assumes "wf (l_store l)" and "send_commit st r q rs l = (res, l')"
    and "From q \<noteq> []" and "ClientMsgID q \<noteq> []"
  shows "idx_le l l' \<and> idCounter l' = idCounter l + 1 \<and>
    (\<forall>k. l_last l' k = (if k = chat_of q then Some (fst (i_NextSeq st (chat_of q) (l_store l)))
                        else l_last l k)) \<and>
    (\<forall>m. res = Saved m \<longrightarrow> From m = From q \<and> ClientMsgID m = ClientMsgID q \<and>
       ChatID m = chat_of q \<and> Seq m = fst (i_NextSeq st (chat_of q) (l_store l)) \<and>
       id_counter (ServerMsgID m) = unat (idCounter l + 1) \<and>
       l_idx l' (From q) (ClientMsgID q) = Some m)"
proof -
  define c where "c = chat_of q"
  have key: "chat_key c = c" by (simp add: c_def chat_key_def chat_of_def Let_def)
  define s1 where "s1 = snd (i_NextSeq st c (l_store l))"
  define g where "g = GenerateServerMsgID (clk r 1) ''s'' (l\<lparr>l_store := s1\<rparr>)"
  define m where "m = zero_Message\<lparr>Type := TypeDeliver, ServerMsgID := fst g,
    ClientMsgID := ClientMsgID q, ChatID := c, From := From q, To := To q,
    Seq := fst (i_NextSeq st c (l_store l)), Body := Body q, Ts := unix (clk r 2)\<rparr>"
  define s2 where "s2 = snd (i_SaveMessageWithRecipients st (Some m) rs s1)"
  define e where "e = fst (i_SaveMessageWithRecipients st (Some m) rs s1)"
  have s1: "s1 = call_store st (r, OpNextSeq c) (l_store l)" by (simp add: s1_def)
  have s2: "s2 = call_store st (r, OpSave (Some m) rs) s1" by (simp add: s2_def)
  have wf1: "wf s1" unfolding s1 using assms(1) by (rule wf_call)
  have ls: "l_store (snd g) = s1" by (simp add: g_def)
  have res: "(res, l') = (case e of Some x \<Rightarrow> (SendError (SaveFailed x), (snd g)\<lparr>l_store := s2\<rparr>)
      | None \<Rightarrow> (Saved m, (snd g)\<lparr>l_store := s2\<rparr>))"
    unfolding assms(2)[symmetric] send_commit_def c_def[symmetric] case_prod_beta s1_def[symmetric]
      g_def[symmetric] Let_def m_def[symmetric] ls e_def s2_def ..
  then have l': "l' = (snd g)\<lparr>l_store := s2\<rparr>" by (auto split: option.splits)
  have "last s2 = last s1"
    unfolding s2 by (rule last_call) (simp add: seq_request_def)
  then have lasts: "last s2 k = (if k = c then Some (fst (i_NextSeq st c (l_store l)))
      else last (l_store l) k)" for k
    unfolding s1_def by (simp add: seq_last key)
  have "idx_le l (l\<lparr>l_store := s1\<rparr>)" unfolding s1 using assms(1) by (rule call_idx_le)
  moreover have "idx_le (l\<lparr>l_store := s1\<rparr>) l'"
    using call_idx_le[of "l\<lparr>l_store := s1\<rparr>" "(r, OpSave (Some m) rs)"] wf1
    by (simp add: l' idx_le_def s2)
  ultimately have le: "idx_le l l'" by (rule idx_le_trans)
  have saved: "m' = m \<and> e = None" if "res = Saved m'" for m'
    using res that by (auto split: option.splits)
  have "idx s2 (From q) (ClientMsgID q) = Some m" if "e = None"
    using save_idx[OF wf1, of m rs s2] that assms(3,4)
    by (simp add: e_def s2_def m_def prod_eq_iff)
  with le lasts saved show ?thesis
    by (auto simp: l' m_def c_def[symmetric] id_counter_Generate g_def)
qed

lemma event_step:
  assumes "wf (l_store l)"
  shows "idx_le l (snd (system_event st r body rs l)) \<and>
    idCounter (snd (system_event st r body rs l)) = idCounter l + 1 \<and>
    (\<forall>k. l_last (snd (system_event st r body rs l)) k =
      (if k = ''system'' then Some (fst (i_NextSeq st ''system'' (l_store l))) else l_last l k))"
proof -
  define s1 where "s1 = snd (i_NextSeq st ''system'' (l_store l))"
  define g where "g = GenerateServerMsgID (clk r 0) ''sys'' (l\<lparr>l_store := s1\<rparr>)"
  define m where "m = zero_Message\<lparr>Type := TypeDeliver, ServerMsgID := fst g, ChatID := ''system'',
    From := ''system'', Body := body, Seq := fst (i_NextSeq st ''system'' (l_store l)), Ts := unix (clk r 1)\<rparr>"
  define s2 where "s2 = snd (i_SaveMessageWithRecipients st (Some m) rs s1)"
  have "l_store (snd g) = s1" by (simp add: g_def)
  then have l': "snd (system_event st r body rs l) = (snd g)\<lparr>l_store := s2\<rparr>"
    by (simp add: system_event_def case_prod_beta s1_def g_def m_def s2_def Let_def)
  have s1: "s1 = call_store st (r, OpNextSeq ''system'') (l_store l)" by (simp add: s1_def)
  have s2: "s2 = call_store st (r, OpSave (Some m) rs) s1" by (simp add: s2_def)
  have le1: "idx_le l (l\<lparr>l_store := s1\<rparr>)" unfolding s1 using assms by (rule call_idx_le)
  moreover have "idx_le (l\<lparr>l_store := s1\<rparr>) ((snd g)\<lparr>l_store := s2\<rparr>)"
    using call_idx_le[of "l\<lparr>l_store := s1\<rparr>" "(r, OpSave (Some m) rs)"] le1
    by (simp add: idx_le_def s2)
  ultimately have "idx_le l ((snd g)\<lparr>l_store := s2\<rparr>)" by (rule idx_le_trans)
  moreover have "last s2 = last s1"
    unfolding s2 by (rule last_call) (simp add: seq_request_def)
  then have "last s2 k = (if k = ''system'' then Some (fst (i_NextSeq st ''system'' (l_store l)))
      else last (l_store l) k)" for k
    unfolding s1_def by (simp add: seq_last chat_key_def)
  ultimately show ?thesis by (simp add: l') (simp add: g_def)
qed

text \<open>One step of the service, for acceptance: the pair is new, then known; the counters.\<close>

definition took :: "Message \<Rightarrow> 's LogicService \<Rightarrow> 's LogicService \<Rightarrow> bool" where
  "took m l l' \<longleftrightarrow> l_idx l (From m) (ClientMsgID m) = None \<and> l_idx l' (From m) (ClientMsgID m) \<noteq> None \<and>
     id_counter (ServerMsgID m) = unat (idCounter l') \<and> idCounter l' = idCounter l + 1 \<and>
     l_last l' (ChatID m) = Some (Seq m)"

definition last_ok :: "'s LogicService \<Rightarrow> 's LogicService \<Rightarrow> bool" where
  "last_ok l l' \<longleftrightarrow> (\<forall>k. l_last l' k = l_last l k \<or>
     (\<exists>n. l_last l' k = Some n \<and> (\<forall>n0. l_last l k = Some n0 \<longrightarrow> n = n0 + 1)))"

lemma exec_both_modes:
  assumes "wf (l_store l)" and "exec_logic st op l = (res, l')"
  shows "idx_le l l' \<and> last_ok l l' \<and> idCounter l' \<in> {idCounter l, idCounter l + 1} \<and>
    (\<forall>m. res = Some (Saved m) \<longrightarrow> took m l l' \<and>
       (\<forall>n. l_last l (ChatID m) = Some n \<longrightarrow> Seq m = n + 1))"
proof (cases op)
  case (LSend r req rs)
  obtain c l1 where chk: "send_check st r req l = (c, l1)" by (cases "send_check st r req l")
  note 1 = check_step[OF assms(1) chk]
  have res: "(res, l') = map_prod Some id (case c of Inl x \<Rightarrow> (x, l1) | Inr q \<Rightarrow> send_commit st r q rs l1)"
    using assms(2) LSend by (simp add: ProcessSend_def chk)
  show ?thesis
  proof (cases c)
    case (Inl x)
    with res 1 show ?thesis by (auto simp: last_ok_def)
  next
    case (Inr q)
    obtain res2 l2 where com: "send_commit st r q rs l1 = (res2, l2)"
      by (cases "send_commit st r q rs l1")
    with res Inr have eq: "res = Some res2" "l' = l2" by auto
    have q: "From q \<noteq> []" "ClientMsgID q \<noteq> []" "l_idx l (From q) (ClientMsgID q) = None"
      using 1 Inr by auto
    have wf1: "wf (l_store l1)" using 1 by (simp add: idx_le_def)
    note 2 = commit_step[OF wf1 com q(1,2)]
    have seq: "fst (i_NextSeq st (chat_of q) (l_store l1)) = n + 1"
      if "l_last l (chat_of q) = Some n" for n
      using seq_next[of "l_store l1" "chat_of q" n] that 1
      by (simp add: chat_key_def chat_of_def Let_def split: if_splits)
    have "idx_le l l'" using 1 2 eq idx_le_trans by blast
    moreover have "last_ok l l'" using 1 2 eq seq by (auto simp: last_ok_def)
    moreover have "took m l l' \<and> (\<forall>n. l_last l (ChatID m) = Some n \<longrightarrow> Seq m = n + 1)"
      if "res = Some (Saved m)" for m
      using that 1 2 eq seq q(3) by (auto simp: took_def)
    moreover have "idCounter l' = idCounter l + 1" using 1 2 eq by simp
    ultimately show ?thesis by simp
  qed
next
  case (LDeliverAck r u i)
  then show ?thesis
    using assms call_idx_le[of l "(r, OpAcked i u)"] last_call[of "OpAcked i u" r "l_store l"]
    by (auto simp: HandleDeliverAck_def seq_request_def last_ok_def idx_le_def)
next
  case (LReadAck r u i)
  then show ?thesis
    using assms call_idx_le[of l "(r, OpRead i u)"] last_call[of "OpRead i u" r "l_store l"]
    by (auto simp: HandleReadAck_def seq_request_def last_ok_def idx_le_def)
next
  case (LEvent r body rs)
  have "fst (i_NextSeq st ''system'' (l_store l)) = n + 1" if "l_last l ''system'' = Some n" for n
    using seq_next[of "l_store l" "''system''" n] that by (simp add: chat_key_def)
  then show ?thesis
    using LEvent assms event_step[of l r body rs] by (auto simp: last_ok_def)
next
  case (LStore r op')
  have "seq_request op' = None" if "foreign_call op'"
    using that by (cases op') (simp_all add: foreign_call_def seq_request_def)
  then show ?thesis
    using LStore assms call_idx_le[of l "(r, op')"] last_call[of op' r "l_store l"]
    by (auto simp: last_ok_def idx_le_def)
qed

lemma both_modes_Cons:
  assumes "wf (l_store l)"
  obtains (took) m l1 where "wf (l_store l1)" "idx_le l l1" "last_ok l l1" "took m l l1"
      "\<And>n. l_last l (ChatID m) = Some n \<Longrightarrow> Seq m = n + 1"
      "fst (saved_run st (op # ops) l) = m # fst (saved_run st ops l1)"
    | (other) l1 where "wf (l_store l1)" "idx_le l l1" "last_ok l l1"
      "idCounter l1 \<in> {idCounter l, idCounter l + 1}"
      "fst (saved_run st (op # ops) l) = fst (saved_run st ops l1)"
proof -
  obtain res l1 where step: "exec_logic st op l = (res, l1)" by (cases "exec_logic st op l")
  note ex = exec_both_modes[OF assms step]
  then have wf1: "wf (l_store l1)" by (simp add: idx_le_def)
  show thesis
  proof (cases "\<exists>m. res = Some (Saved m)")
    case True
    then obtain m where "res = Some (Saved m)" by blast
    with took[of l1 m] wf1 ex step show thesis by (auto simp: case_prod_beta)
  next
    case False
    with other[of l1] wf1 ex step show thesis
      by (auto simp: case_prod_beta split: option.splits send_result.splits)
  qed
qed

text \<open>Whatever runs, the store stays well formed and a pair in the index stays in it.\<close>

lemma run_idx_le: "wf (l_store l) \<Longrightarrow> idx_le l (snd (saved_run st ops l))"
proof (induction ops arbitrary: l)
  case (Cons op ops)
  obtain res l1 where step: "exec_logic st op l = (res, l1)" by (cases "exec_logic st op l")
  then have "idx_le l l1" using exec_both_modes[OF Cons.prems step] by simp
  with Cons.IH[of l1] step idx_le_trans show ?case by (auto simp: case_prod_beta idx_le_def)
qed (simp add: idx_le_def)

text \<open>A request whose pair is in the index is answered from it, and nothing changes.\<close>

lemma known_answered:
  assumes "wf (l_store l)" and "l_idx l (From q) (ClientMsgID q) \<noteq> None"
    and "TrimSpace (From q) \<noteq> []" and "TrimSpace (ClientMsgID q) \<noteq> []"
  obtains m where "l_idx l (From q) (ClientMsgID q) = Some m" "From m = From q" "ClientMsgID m = ClientMsgID q"
    "ProcessSend st r (Some q) rs l = (Existing m, l)"
proof -
  obtain m where m: "l_idx l (From q) (ClientMsgID q) = Some m" using assms(2) by blast
  have "From q \<noteq> []" "ClientMsgID q \<noteq> []" using assms(3,4) by auto
  with m have "ProcessSend st r (Some q) rs l = (Existing m, l)"
    using assms(1,3,4) by (simp add: ProcessSend_def send_check_def idx_found)
  with that m found_key[OF assms(1) m] show thesis by blast
qed

lemma taken_once:
  assumes "wf (l_store l)"
  shows "distinct (map (\<lambda>m. (From m, ClientMsgID m)) (fst (saved_run st ops l))) \<and>
    list_all (\<lambda>m. l_idx l (From m) (ClientMsgID m) = None) (fst (saved_run st ops l))"
  using assms
proof (induction ops arbitrary: l)
  case (Cons op ops)
  show ?case
  proof (cases rule: both_modes_Cons[OF Cons.prems, of op ops])
    case (1 m l1)
    then show ?thesis
      using Cons.IH[of l1] by (force simp: took_def idx_le_def list_all_iff)
  next
    case (2 l1)
    then show ?thesis
      using Cons.IH[of l1] by (force simp: idx_le_def list_all_iff)
  qed
qed simp

lemma taken_ids:
  assumes "wf (l_store l)"
  shows "\<exists>xs. map (\<lambda>m. id_counter (ServerMsgID m)) (fst (saved_run st ops l)) = map unat xs \<and>
    counted (idCounter l) (length ops) xs"
  using assms
proof (induction ops arbitrary: l)
  case (Cons op ops)
  show ?case
  proof (cases rule: both_modes_Cons[OF Cons.prems, of op ops])
    case (1 m l1)
    then obtain xs where "map (\<lambda>m. id_counter (ServerMsgID m)) (fst (saved_run st ops l1)) = map unat xs"
        "counted (idCounter l + 1) (length ops) xs"
      using Cons.IH[of l1] by (auto simp: took_def)
    with 1 show ?thesis
      by (intro exI[of _ "(idCounter l + 1) # xs"]) (simp add: took_def counted_take)
  next
    case (2 l1)
    then show ?thesis
      using Cons.IH[of l1] by (auto intro: counted_mono counted_skip)
  qed
qed (auto intro: exI[of _ "[]"])

lemma taken_seqs:
  assumes "wf (l_store l)"
  shows "\<exists>base. counted base (length ops) (map Seq (filter (\<lambda>m. ChatID m = c) (fst (saved_run st ops l)))) \<and>
    (\<forall>n. l_last l c = Some n \<longrightarrow> base = n)"
  using assms
proof (induction ops arbitrary: l)
  case Nil
  then show ?case by (intro exI[of _ "the (l_last l c)"]) auto
next
  case (Cons op ops)
  define tail where "tail l1 = map Seq (filter (\<lambda>m. ChatID m = c) (fst (saved_run st ops l1)))" for l1
  have skip: "\<exists>base. counted base (Suc (length ops)) (tail l1) \<and> (\<forall>n. l_last l c = Some n \<longrightarrow> base = n)"
    if wf1: "wf (l_store l1)" and ok: "last_ok l l1" for l1
  proof -
    obtain b1 where b1: "counted b1 (length ops) (tail l1)" "\<forall>n. l_last l1 c = Some n \<longrightarrow> b1 = n"
      using Cons.IH[OF wf1] by (auto simp: tail_def)
    show ?thesis
    proof (cases "l_last l1 c = l_last l c")
      case True
      with b1 show ?thesis by (auto intro: counted_mono)
    next
      case False
      then obtain n where n: "l_last l1 c = Some n" "\<forall>n0. l_last l c = Some n0 \<longrightarrow> n = n0 + 1"
        using ok by (auto simp: last_ok_def)
      with b1 have "counted ((n - 1) + 1) (length ops) (tail l1)" by simp
      from counted_skip[OF this] n(2) show ?thesis by (intro exI[of _ "n - 1"]) auto
    qed
  qed
  show ?case
  proof (cases rule: both_modes_Cons[OF Cons.prems, of op ops])
    case (1 m l1)
    show ?thesis
    proof (cases "ChatID m = c")
      case True
      then have last1: "l_last l1 c = Some (Seq m)" using 1 by (simp add: took_def)
      obtain b1 where "counted b1 (length ops) (tail l1)" "b1 = Seq m"
        using Cons.IH[OF 1(1)] last1 by (auto simp: tail_def)
      then have "counted ((Seq m - 1) + 1) (length ops) (tail l1)" by simp
      from counted_take[OF this] 1(5,6) True show ?thesis
        by (intro exI[of _ "Seq m - 1"]) (auto simp: tail_def)
    next
      case False
      with skip[OF 1(1,3)] 1(6) show ?thesis by (simp add: tail_def)
    qed
  next
    case (2 l1)
    with skip[of l1] show ?thesis by (simp add: tail_def)
  qed
qed

end

section \<open>On the in-memory store\<close>

text \<open>
  C7: sending is idempotent within one run of the service, with and without a database. Once a
  request has been accepted as message \<open>m\<close>, any later request with the same sender and client id,
  whatever else it contains and whatever sends, acknowledgements, deliveries and retries were
  completed between the two, is not accepted again: it is answered with a message of that sender and
  client id, without a database with \<open>m\<close> itself, and changes
  nothing: no sequence number, no id, no message, no recipients. The calls of the service are taken
  one after the other, each completed before the next begins.
\<close>

theorem send_idempotent:
  assumes "store_wf (l_store l)"
    and "ProcessSend (InMemoryStore b) r req rs l = (Saved m, l1)"
    and "TrimSpace (From q) \<noteq> []" and "TrimSpace (ClientMsgID q) \<noteq> []"
    and "From q = From m" and "ClientMsgID q = ClientMsgID m"
    and l2_def: "l2 = snd (saved_run (InMemoryStore b) ops l1)"
  shows "\<exists>m'. ProcessSend (InMemoryStore b) r' (Some q) rs' l2 = (Existing m', l2) \<and>
    From m' = From m \<and> ClientMsgID m' = ClientMsgID m \<and> (\<not> persistent (l_store l) \<longrightarrow> m' = m)"
proof -
  have "exec_logic (InMemoryStore b) (LSend r req rs) l = (Some (Saved m), l1)" using assms(2) by simp
  note first = cs.exec_both_modes[OF assms(1) this]
  then have l1: "store_wf (l_store l1)" "byClient_lookup (l_store l1) (From m) (ClientMsgID m) \<noteq> None"
    by (auto simp: cs.idx_le_def cs.took_def)
  have l2: "store_wf (l_store l2)" "byClient_lookup (l_store l2) (From q) (ClientMsgID q) \<noteq> None"
    using cs.run_idx_le[OF l1(1)] l1(2) assms(5,6) by (simp_all add: cs.idx_le_def l2_def)
  obtain m' where m': "byClient_lookup (l_store l2) (From q) (ClientMsgID q) = Some m'" "From m' = From q"
    "ClientMsgID m' = ClientMsgID q" "ProcessSend (InMemoryStore b) r' (Some q) rs' l2 = (Existing m', l2)"
    by (rule cs.known_answered[OF l2 assms(3,4)])
  have "m' = m" if "\<not> persistent (l_store l)"
  proof -
    have "mem_inv (l_store l)" using assms(1) that by (simp add: mem_inv_def)
    from ms.ProcessSend_step[OF this assms(2)] have "mem_inv (l_store l1)" "ms.accepts m l l1" by auto
    then have "byClient_lookup (l_store l2) (From m) (ClientMsgID m) = Some m"
      unfolding l2_def by (intro ms.index_kept) (simp_all add: ms.accepts_def index_add_def)
    with m'(1) assms(5,6) show ?thesis by simp
  qed
  with m' assms(5,6) show ?thesis by auto
qed

text \<open>
  C1: acceptance is consistent in every mode, for requests that are handled one after the other.
  Over any run of the service on any well-formed store, with or without a database and whatever the
  database, the cache and the clock do, with sends, acknowledgements, system events and store calls
  of the other parts in any order, each completed before the next begins: no (sender,
  client id) pair is accepted twice, no two accepted messages share a server id, and no two
  accepted messages of one chat share a sequence number (for runs of less than $2^{64}$ calls).
  That two sends in progress at the same time can both be accepted is shown below; what holds of
  them is in \<open>Send_Threads\<close>.
\<close>

theorem accepted_once_in_every_mode:
  assumes "store_wf (l_store l)" and "length ops < 2 ^ 64"
  shows "let ms = fst (saved_run (InMemoryStore b) ops l) in
   distinct (map (\<lambda>m. (From m, ClientMsgID m)) ms) \<and> distinct (map ServerMsgID ms) \<and>
   distinct (map (\<lambda>m. (ChatID m, Seq m)) ms)"
proof -
  let ?ms = "fst (saved_run (InMemoryStore b) ops l)"
  obtain xs where xs: "map (\<lambda>m. id_counter (ServerMsgID m)) ?ms = map unat xs"
      "counted (idCounter l) (length ops) xs"
    using cs.taken_ids[OF assms(1)] by blast
  have "distinct (map (\<lambda>m. id_counter (ServerMsgID m)) ?ms)"
    unfolding xs(1) by (rule distinct_map_unat[OF counted_distinct[OF xs(2) assms(2)]])
  then have "distinct (map id_counter (map ServerMsgID ?ms))" by (simp add: comp_def)
  then have "distinct (map ServerMsgID ?ms)" by (subst (asm) distinct_map) simp
  moreover have "distinct (map Seq (filter (\<lambda>m. ChatID m = c) ?ms))" for c
    using cs.taken_seqs[OF assms(1), of ops c b] counted_distinct[OF _ assms(2)] by blast
  then have "distinct (map (\<lambda>m. (ChatID m, Seq m)) ?ms)" by (rule distinct_by_class)
  ultimately show ?thesis
    using cs.taken_once[OF assms(1), of b ops] by (simp add: Let_def)
qed

theorem accepted_once_in_every_mode_witness:
  "distinct (map ServerMsgID (fst (saved_run (InMemoryStore sample_backend)
      [LSend (sample_rt 0) (Some (zero_Message\<lparr>From := ''ann'', To := ''bob''\<rparr>)) [''bob''],
       LSend (sample_rt 0) (Some (zero_Message\<lparr>From := ''ann'', To := ''eve''\<rparr>)) [''eve'']]
      (newLogicService (NewInMemoryStore True no_tables [])))))"
proof -
  let ?l = "newLogicService (NewInMemoryStore True no_tables [])
    :: (tables, (string \<times> string) list) store LogicService"
  have "store_wf (l_store ?l)" by (simp add: newLogicService_def store_wf_new)
  from accepted_once_in_every_mode[OF this, of
      "[LSend (sample_rt 0) (Some (zero_Message\<lparr>From := ''ann'', To := ''bob''\<rparr>)) [''bob''],
       LSend (sample_rt 0) (Some (zero_Message\<lparr>From := ''ann'', To := ''eve''\<rparr>)) [''eve'']]" sample_backend]
  show ?thesis by (simp add: Let_def del: saved_run.simps)
qed

text \<open>A request from \<open>ann\<close> to \<open>bob\<close>, and a memory-mode service to send it to.\<close>

definition sample_req :: Message where
  "sample_req = zero_Message\<lparr>From := ''ann'', To := ''bob'', ClientMsgID := ''k1''\<rparr>"

definition sample_logic :: "(tables, (string \<times> string) list) store LogicService" where
  "sample_logic = newLogicService (NewInMemoryStore False no_tables [])"

lemma sample_logic_inv: "mem_inv (l_store sample_logic)"
  by (simp add: mem_inv_def sample_logic_def newLogicService_def store_wf_new)
    (simp add: NewInMemoryStore_def)

lemma sample_req_blank: "TrimSpace (From sample_req) \<noteq> []" "TrimSpace (ClientMsgID sample_req) \<noteq> []"
  by code_simp+

lemma sample_check: "send_check (InMemoryStore b) r (Some sample_req) sample_logic = (Inr sample_req, sample_logic)"
  using sample_req_blank sample_logic_inv
  by (simp add: send_check_def ms.by_client sample_req_def zero_Message_def)
    (simp add: sample_logic_def newLogicService_def NewInMemoryStore_def byClient_lookup_def)

lemma sample_req_fields: "From sample_req \<noteq> []" "ClientMsgID sample_req \<noteq> []"
  by (simp_all add: sample_req_def)

theorem send_idempotent_witness:
  "\<exists>m l1. ProcessSend (InMemoryStore sample_backend) (sample_rt 0) (Some sample_req) [''bob'']
      sample_logic = (Saved m, l1) \<and>
    ProcessSend (InMemoryStore sample_backend) (sample_rt 9) (Some (sample_req\<lparr>Body := ''again''\<rparr>)) []
      l1 = (Existing m, l1)"
proof -
  obtain m l1 where "send_commit (InMemoryStore sample_backend) (sample_rt 0) sample_req [''bob'']
      sample_logic = (Saved m, l1)" and m: "From m = From sample_req" "ClientMsgID m = ClientMsgID sample_req"
    by (rule ms.send_commit_Saved[OF sample_logic_inv sample_req_fields])
  then have first: "ProcessSend (InMemoryStore sample_backend) (sample_rt 0) (Some sample_req)
      [''bob''] sample_logic = (Saved m, l1)"
    by (simp add: ProcessSend_def sample_check)
  have "store_wf (l_store sample_logic)" "\<not> persistent (l_store sample_logic)"
    using sample_logic_inv by (simp_all add: mem_inv_def)
  with send_idempotent[OF _ first, of "sample_req\<lparr>Body := ''again''\<rparr>" l1 "[]" "sample_rt 9" "[]"]
    m sample_req_blank
  have "ProcessSend (InMemoryStore sample_backend) (sample_rt 9) (Some (sample_req\<lparr>Body := ''again''\<rparr>)) []
      l1 = (Existing m, l1)" by simp
  with first show ?thesis by blast
qed

text \<open>
  C6: chats are numbered without gaps. Over any run of a fresh service without a database, with
  sends, acknowledgements, system events and store calls of the other parts in any order, each
  completed before the next begins, the
  messages accepted for a chat carry the sequence numbers 1, 2, 3, ... in order of acceptance
  (all chats but \<open>system\<close>, whose numbers the system events share).
\<close>

theorem chats_numbered_from_one:
  assumes "chat \<noteq> ''system''"
  shows "let ms = filter (\<lambda>m. ChatID m = chat) (fst (saved_run (InMemoryStore b) ops
      (newLogicService (NewInMemoryStore False d c)))) in
   map Seq ms = map (\<lambda>j. of_nat (Suc j)) [0..<length ms]"
proof -
  let ?l = "newLogicService (NewInMemoryStore False d c) :: ('a, 'b) store LogicService"
  have inv: "mem_inv (l_store ?l)"
    by (simp add: mem_inv_def newLogicService_def store_wf_new) (simp add: NewInMemoryStore_def)
  have "last_seq (l_store ?l) chat = 0"
    by (simp add: newLogicService_def NewInMemoryStore_def last_seq_def)
  then show ?thesis
    using ms.saved_seqs[OF inv assms, of b ops] by (simp add: Let_def)
qed

text \<open>Two requests from \<open>ann\<close> to \<open>bob\<close> with a system event between them.\<close>

definition sample_ops :: "logic_op list" where
  "sample_ops = [LSend (sample_rt 0) (Some sample_req) [''bob''], LEvent (sample_rt 0) [] [''bob''],
     LSend (sample_rt 0) (Some (sample_req\<lparr>ClientMsgID := ''k2''\<rparr>)) [''bob'']]"

theorem chats_numbered_from_one_witness:
  "let ms = filter (\<lambda>m. ChatID m = ''c2c:ann:bob'') (fst (saved_run (InMemoryStore sample_backend) sample_ops
      (newLogicService (NewInMemoryStore False no_tables [])))) in
   length ms = 2 \<and> map Seq ms = [1, 2]"
proof -
  let ?ms = "filter (\<lambda>m. ChatID m = ''c2c:ann:bob'') (fst (saved_run (InMemoryStore sample_backend) sample_ops
      (newLogicService (NewInMemoryStore False no_tables []))))"
  have two: "length ?ms = 2" by code_simp
  have "map Seq ?ms = map (\<lambda>j. of_nat (Suc j)) [0..<length ?ms]"
    using chats_numbered_from_one[of "''c2c:ann:bob''" sample_backend sample_ops no_tables "[]"]
    by (simp only: Let_def) simp
  with two show ?thesis by (simp add: Let_def numeral_2_eq_2)
qed

text \<open>
  C31: the check and the save are separate store calls, and the service holds no lock between them: when two
  requests with the same sender and client id both pass the check before either is saved,
  both are accepted, as two messages with different server ids. Stated without a database.
\<close>

theorem concurrent_sends_both_accepted:
  assumes "mem_inv (l_store l)" and "From q \<noteq> []" and "ClientMsgID q \<noteq> []"
    and "send_check (InMemoryStore b) r1 (Some q) l = (Inr q, l)"
    and "send_check (InMemoryStore b) r2 (Some q) l = (Inr q, l)"
  shows "\<exists>m1 m2 l1 l2. send_commit (InMemoryStore b) r1 q rs l = (Saved m1, l1) \<and>
    send_commit (InMemoryStore b) r2 q rs l1 = (Saved m2, l2) \<and>
    From m1 = From m2 \<and> ClientMsgID m1 = ClientMsgID m2 \<and> ServerMsgID m1 \<noteq> ServerMsgID m2"
proof -
  obtain m1 l1 where 1: "send_commit (InMemoryStore b) r1 q rs l = (Saved m1, l1)" "mem_inv (l_store l1)"
      "From m1 = From q" "ClientMsgID m1 = ClientMsgID q"
      "id_counter (ServerMsgID m1) = unat (idCounter l + 1)" "idCounter l1 = idCounter l + 1"
    by (rule ms.send_commit_Saved[OF assms(1-3)])
  obtain m2 l2 where 2: "send_commit (InMemoryStore b) r2 q rs l1 = (Saved m2, l2)"
      "From m2 = From q" "ClientMsgID m2 = ClientMsgID q"
      "id_counter (ServerMsgID m2) = unat (idCounter l1 + 1)"
    by (rule ms.send_commit_Saved[OF 1(2) assms(2,3)])
  have "ServerMsgID m1 \<noteq> ServerMsgID m2"
    using 1(5,6) 2(4) by (metis add_cancel_right_right word_unat_eq_iff zero_neq_one)
  with 1 2 show ?thesis by metis
qed

theorem concurrent_sends_both_accepted_witness:
  "\<exists>m1 m2 l1 l2. send_commit (InMemoryStore sample_backend) (sample_rt 0) sample_req [''bob''] sample_logic =
      (Saved m1, l1) \<and>
    send_commit (InMemoryStore sample_backend) (sample_rt 0) sample_req [''bob''] l1 = (Saved m2, l2) \<and>
    ServerMsgID m1 \<noteq> ServerMsgID m2"
  using concurrent_sends_both_accepted[OF sample_logic_inv sample_req_fields sample_check sample_check]
  by metis

end
