(* ===== verification/Delivery_Worker.thy ===== *)
theory Delivery_Worker
  imports Logic_Service
begin

text \<open>
  The delivery worker (\<open>internal/delivery/worker.go\<close>): a bounded queue of message ids with an
  in-flight set that keeps an id from being queued twice, the goroutine that takes ids from the
  queue and delivers or reschedules, and the ticker that refills the queue. Other goroutines
  (connections, the ticker) enqueue concurrently, so the queue is also given as a step relation
  at the granularity of its critical sections.
\<close>

section \<open>The queue\<close>

text \<open>
  \<open>deliverInFlight\<close> and \<open>deliverQueue\<close> are the fields of \<open>Worker\<close>. The other three say
  where the goroutines are: ids marked but not yet offered to the channel, ids refused by the
  full channel but not yet unmarked, and the id the delivery goroutine is working on.
\<close>

record worker =
  deliverInFlight :: "unit gomap"
  deliverQueue :: "string list"
  pushing :: "string list"
  dropping :: "string list"
  busy :: "string option"

definition queue_cap :: nat where
  "queue_cap = 1024"

definition NewWorker :: worker where
  "NewWorker = \<lparr>deliverInFlight = [], deliverQueue = [], pushing = [], dropping = [], busy = None\<rparr>"

text \<open>The first critical section of \<open>EnqueueServerMsg\<close>: nothing is left to do when \<open>None\<close>.\<close>

definition mark :: "string \<Rightarrow> worker \<Rightarrow> worker option" where
  "mark i w =
     (if i = [] \<or> map_of (deliverInFlight w) i \<noteq> None then None
      else Some (w\<lparr>deliverInFlight := gput i () (deliverInFlight w)\<rparr>))"

definition unmark :: "string \<Rightarrow> worker \<Rightarrow> worker" where
  "unmark i w = w\<lparr>deliverInFlight := gdel i (deliverInFlight w)\<rparr>"

text \<open>The \<open>select\<close> with its \<open>default\<close>: \<open>None\<close> when the channel is full.\<close>

definition offer :: "string \<Rightarrow> worker \<Rightarrow> worker option" where
  "offer i w = (if length (deliverQueue w) < queue_cap
                then Some (w\<lparr>deliverQueue := deliverQueue w @ [i]\<rparr>) else None)"

definition EnqueueServerMsg :: "string \<Rightarrow> worker \<Rightarrow> worker" where
  "EnqueueServerMsg i w =
     (case mark i w of
        None \<Rightarrow> w
      | Some w1 \<Rightarrow> (case offer i w1 of Some w2 \<Rightarrow> w2 | None \<Rightarrow> unmark i w1))"

text \<open>The critical sections of any number of enqueuing goroutines and of the delivery goroutine.\<close>

inductive queue_step :: "worker \<Rightarrow> worker \<Rightarrow> bool" where
  q_mark: "mark i w = Some w1 \<Longrightarrow> queue_step w (w1\<lparr>pushing := i # pushing w1\<rparr>)"
| q_push: "i \<in> set (pushing w) \<Longrightarrow> offer i w = Some w1 \<Longrightarrow>
    queue_step w (w1\<lparr>pushing := remove1 i (pushing w1)\<rparr>)"
| q_full: "i \<in> set (pushing w) \<Longrightarrow> offer i w = None \<Longrightarrow>
    queue_step w (w\<lparr>pushing := remove1 i (pushing w), dropping := i # dropping w\<rparr>)"
| q_drop: "i \<in> set (dropping w) \<Longrightarrow>
    queue_step w ((unmark i w)\<lparr>dropping := remove1 i (dropping w)\<rparr>)"
| q_take: "deliverQueue w = i # q \<Longrightarrow> busy w = None \<Longrightarrow>
    queue_step w (w\<lparr>deliverQueue := q, busy := Some i\<rparr>)"
| q_done: "busy w = Some i \<Longrightarrow> queue_step w ((unmark i w)\<lparr>busy := None\<rparr>)"

inductive_simps queue_step_simps: "queue_step w w'"

text \<open>Where the ids are.\<close>

definition pipeline :: "worker \<Rightarrow> string list" where
  "pipeline w = pushing w @ dropping w @ deliverQueue w @ (case busy w of None \<Rightarrow> [] | Some i \<Rightarrow> [i])"

definition queue_inv :: "worker \<Rightarrow> bool" where
  "queue_inv w \<longleftrightarrow> distinct (pipeline w) \<and> distinct (gkeys (deliverInFlight w)) \<and>
     set (gkeys (deliverInFlight w)) = set (pipeline w) \<and> [] \<notin> set (pipeline w) \<and>
     length (deliverQueue w) \<le> queue_cap"

lemma queue_inv_new: "queue_inv NewWorker"
  by (simp add: queue_inv_def pipeline_def NewWorker_def)

lemma keys_gput: "set (gkeys (gput k v m)) = insert k (set (gkeys m))"
  by (induction m) auto

lemma keys_gdel: "set (gkeys (gdel k m)) = set (gkeys m) - {k}"
  by (induction m) (auto simp: AList.delete_eq)

lemma queue_inv_mark:
  assumes "queue_inv w" "mark i w = Some w1"
  shows "queue_inv (w1\<lparr>pushing := i # pushing w1\<rparr>)"
proof -
  have i: "i \<noteq> []" "i \<notin> set (gkeys (deliverInFlight w))"
    and w1: "w1 = w\<lparr>deliverInFlight := gput i () (deliverInFlight w)\<rparr>"
    using assms(2) in_gkeys_iff[of i "deliverInFlight w"]
    by (auto simp: mark_def split: if_splits simp del: set_map)
  have "pipeline (w1\<lparr>pushing := i # pushing w1\<rparr>) = i # pipeline w"
    by (simp add: pipeline_def w1)
  with assms(1) i show ?thesis
    unfolding queue_inv_def w1 by (simp add: keys_gput del: set_map)
qed

lemma queue_inv_move:
  assumes "queue_inv w" and "mset (pipeline w') = mset (pipeline w)"
    and "deliverInFlight w' = deliverInFlight w" and "length (deliverQueue w') \<le> queue_cap"
  shows "queue_inv w'"
  using assms mset_eq_setD[OF assms(2)] mset_eq_imp_distinct_iff[OF assms(2)]
  by (simp add: queue_inv_def del: set_map)

lemma queue_inv_leave:
  assumes "queue_inv w" and "mset (pipeline w) = add_mset i (mset (pipeline w'))"
    and "deliverInFlight w' = gdel i (deliverInFlight w)"
    and "length (deliverQueue w') \<le> queue_cap"
  shows "queue_inv w'"
proof -
  have "mset (pipeline w) = mset (i # pipeline w')" using assms(2) by simp
  from mset_eq_setD[OF this] mset_eq_imp_distinct_iff[OF this]
  have "set (pipeline w) = insert i (set (pipeline w'))" "i \<notin> set (pipeline w')"
    "distinct (pipeline w')"
    using assms(1) by (simp_all add: queue_inv_def)
  with assms show ?thesis
    unfolding queue_inv_def by (simp add: keys_gdel del: set_map)
qed

lemma queue_inv_step: "queue_step w w' \<Longrightarrow> queue_inv w \<Longrightarrow> queue_inv w'"
proof (induction rule: queue_step.induct)
  case (q_mark i w w1)
  then show ?case by (intro queue_inv_mark)
next
  case (q_push i w w1)
  then show ?case
    by (rule_tac queue_inv_move[of w]) (auto simp: offer_def pipeline_def split: if_splits)
next
  case (q_full i w)
  then show ?case
    by (rule_tac queue_inv_move[of w]) (auto simp: pipeline_def queue_inv_def)
next
  case (q_drop i w)
  then show ?case
    by (rule_tac queue_inv_leave[of w i]) (auto simp: pipeline_def unmark_def queue_inv_def)
next
  case (q_take w i q)
  then show ?case
    by (rule_tac queue_inv_move[of w]) (auto simp: pipeline_def queue_inv_def)
next
  case (q_done w i)
  then show ?case
    by (rule_tac queue_inv_leave[of w i]) (auto simp: pipeline_def unmark_def queue_inv_def)
qed

text \<open>
  C9: however the goroutines interleave, the in-flight set is exact: it holds precisely the ids
  that some goroutine is about to queue or to drop, that wait in the queue or that are being
  delivered; each is in one place only, so no id is queued twice or queued while it is being
  delivered, none is left marked when its goroutine is through, and the queue never exceeds its
  capacity.
\<close>

theorem in_flight_exact: "queue_step\<^sup>*\<^sup>* NewWorker w \<Longrightarrow> queue_inv w"
  by (induction rule: rtranclp_induct) (auto intro: queue_inv_new queue_inv_step)

theorem in_flight_exact_witness:
  "queue_inv (EnqueueServerMsg ''s-1'' (EnqueueServerMsg ''s-1'' NewWorker))"
proof -
  let ?w = "NewWorker\<lparr>deliverInFlight := [(''s-1'', ())], pushing := [''s-1'']\<rparr>"
  let ?v = "EnqueueServerMsg ''s-1'' (EnqueueServerMsg ''s-1'' NewWorker)"
  have "queue_step NewWorker ?w"
    using q_mark[of "''s-1''" NewWorker] by (simp add: mark_def NewWorker_def)
  moreover have "queue_step ?w ?v"
    using q_push[of "''s-1''" ?w]
    by (simp add: offer_def mark_def NewWorker_def queue_cap_def EnqueueServerMsg_def)
  ultimately have "queue_step\<^sup>*\<^sup>* NewWorker ?v" by (meson converse_rtranclp_into_rtranclp r_into_rtranclp)
  then show ?thesis by (rule in_flight_exact)
qed

text \<open>A whole call of \<open>EnqueueServerMsg\<close> that runs without interference is such a sequence.\<close>

lemma EnqueueServerMsg_steps: "queue_step\<^sup>*\<^sup>* w (EnqueueServerMsg i w)"
proof (cases "mark i w")
  case (Some w1)
  let ?w = "w1\<lparr>pushing := i # pushing w1\<rparr>"
  have 1: "queue_step w ?w" using Some by (rule q_mark)
  show ?thesis
  proof (cases "offer i w1")
    case None
    then have "queue_step ?w (?w\<lparr>pushing := remove1 i (pushing ?w), dropping := i # dropping ?w\<rparr>)"
      by (intro q_full) (auto simp: offer_def split: if_splits)
    also have "?w\<lparr>pushing := remove1 i (pushing ?w), dropping := i # dropping ?w\<rparr> =
        w1\<lparr>dropping := i # dropping w1\<rparr>" by simp
    finally have 2: "queue_step ?w (w1\<lparr>dropping := i # dropping w1\<rparr>)" .
    have "queue_step (w1\<lparr>dropping := i # dropping w1\<rparr>) (unmark i w1)"
      using q_drop[of i "w1\<lparr>dropping := i # dropping w1\<rparr>"] by (simp add: unmark_def)
    with 1 2 have "queue_step\<^sup>*\<^sup>* w (unmark i w1)"
      by (meson converse_rtranclp_into_rtranclp r_into_rtranclp)
    then show ?thesis using Some None by (simp add: EnqueueServerMsg_def)
  next
    case (Some w2)
    then have "queue_step ?w w2"
      using q_push[of i ?w "w2\<lparr>pushing := i # pushing w2\<rparr>"]
      by (auto simp: offer_def split: if_splits)
    with 1 have "queue_step\<^sup>*\<^sup>* w w2"
      by (meson converse_rtranclp_into_rtranclp r_into_rtranclp)
    then show ?thesis using Some \<open>mark i w = Some w1\<close> by (simp add: EnqueueServerMsg_def)
  qed
qed (simp add: EnqueueServerMsg_def)

lemma queue_inv_Enqueue: "queue_inv w \<Longrightarrow> queue_inv (EnqueueServerMsg i w)"
  using EnqueueServerMsg_steps[of w i]
  by (induction rule: rtranclp_induct) (auto intro: queue_inv_step)

definition in_flight :: "worker \<Rightarrow> string set" where
  "in_flight w = set (gkeys (deliverInFlight w))"

lemma Enqueue_cases:
  "EnqueueServerMsg i w =
     (if i = [] \<or> i \<in> in_flight w then w
      else if length (deliverQueue w) < queue_cap
      then w\<lparr>deliverInFlight := gput i () (deliverInFlight w), deliverQueue := deliverQueue w @ [i]\<rparr>
      else unmark i (w\<lparr>deliverInFlight := gput i () (deliverInFlight w)\<rparr>))"
  by (auto simp: EnqueueServerMsg_def mark_def offer_def in_flight_def in_gkeys_iff simp del: set_map)

lemma in_flight_Enqueue:
  "in_flight (EnqueueServerMsg i w) =
     (if i = [] \<or> i \<in> in_flight w \<or> queue_cap \<le> length (deliverQueue w) then in_flight w
      else insert i (in_flight w))"
  by (auto simp: Enqueue_cases unmark_def in_flight_def keys_gput keys_gdel simp del: set_map)

text \<open>The loops \<open>for _, id := range ids { w.EnqueueServerMsg(id) }\<close>.\<close>

definition enqueue_all :: "string list \<Rightarrow> worker \<Rightarrow> worker" where
  "enqueue_all ids w = fold EnqueueServerMsg ids w"

lemma enqueue_all_room:
  "length (deliverQueue w) + length ids \<le> queue_cap \<Longrightarrow>
   in_flight (enqueue_all ids w) = in_flight w \<union> (set ids - {[]})"
proof (induction ids arbitrary: w)
  case (Cons i ids)
  have "length (deliverQueue (EnqueueServerMsg i w)) \<le> Suc (length (deliverQueue w))"
    by (simp add: Enqueue_cases unmark_def)
  with Cons.prems Cons.IH[of "EnqueueServerMsg i w"] show ?case
    by (auto simp: enqueue_all_def in_flight_Enqueue)
qed (simp add: enqueue_all_def)

definition EnqueuePendingForUser ::
  "'s Store \<Rightarrow> rt \<Rightarrow> string \<Rightarrow> int \<Rightarrow> worker \<times> 's \<Rightarrow> worker \<times> 's" where
  "EnqueuePendingForUser st r username limit ws =
     (case i_ListPendingServerMsgIDsByUser st r username limit (snd ws) of
        (ids, s) \<Rightarrow> (enqueue_all ids (fst ws), s))"

definition RecoverPendingDeliveries :: "'s Store \<Rightarrow> rt \<Rightarrow> int \<Rightarrow> worker \<times> 's \<Rightarrow> worker \<times> 's" where
  "RecoverPendingDeliveries st r limit ws =
     (case i_RecoverPendingServerMsgIDs st r limit (snd ws) of
        (ids, s) \<Rightarrow> (enqueue_all ids (fst ws), s))"

text \<open>One tick of \<open>retryWorker\<close>.\<close>

definition retry_tick :: "'s Store \<Rightarrow> rt \<Rightarrow> worker \<times> 's \<Rightarrow> worker \<times> 's" where
  "retry_tick st r ws =
     (case i_GetDueRetryServerMsgIDs st r 500 (snd ws) of
        (ids, s) \<Rightarrow> (enqueue_all ids (fst ws), s))"

section \<open>The delivery goroutine\<close>

text \<open>
  The recipients of a message: those the store gives, and the addressee of the message when he
  is not among them.
\<close>

definition add_addressee :: "Message \<Rightarrow> string list \<Rightarrow> string list" where
  "add_addressee msg recips =
     (if To msg \<noteq> [] \<and> To msg \<notin> set recips then recips @ [To msg] else recips)"

definition deliver_message :: "string \<Rightarrow> Message \<Rightarrow> string \<Rightarrow> Message" where
  "deliver_message i msg to =
     zero_Message\<lparr>Type := TypeDeliver, ServerMsgID := i, ChatID := ChatID msg, From := From msg,
       To := to, Seq := Seq msg, Body := Body msg, Ts := Ts msg\<rparr>"

text \<open>
  The loop over the recipients. \<open>online\<close> is the map returned by \<open>w.onlineMap()\<close>: a name is
  mapped to whether its \<open>Sender\<close> is not nil. \<open>rs k\<close> is what the \<open>k\<close>-th call into the
  store sees. The result lists what was handed to which sender.
\<close>

fun deliver_loop ::
  "'s Store \<Rightarrow> (nat \<Rightarrow> rt) \<Rightarrow> int \<Rightarrow> int \<Rightarrow> bool gomap \<Rightarrow> string \<Rightarrow> Message \<Rightarrow> nat \<Rightarrow>
   string list \<Rightarrow> 's \<Rightarrow> (string \<times> Message) list \<times> 's" where
  "deliver_loop st rs mx base online i msg k [] s = ([], s)"
| "deliver_loop st rs mx base online i msg k (to # tos) s =
     (case map_of online to of
        None \<Rightarrow>
          deliver_loop st rs mx base online i msg (Suc k) tos
            (snd (i_ScheduleRetry st (rs k) i to (Some ''recipient offline'') mx base s))
      | Some usable \<Rightarrow>
          (case deliver_loop st rs mx base online i msg (Suc k) tos
                  (snd (i_MarkDeliverySent st (rs k) i to None s)) of
             (out, s') \<Rightarrow> ((if usable then [(to, deliver_message i msg to)] else []) @ out, s')))"

definition deliver_one ::
  "'s Store \<Rightarrow> (nat \<Rightarrow> rt) \<Rightarrow> int \<Rightarrow> int \<Rightarrow> bool gomap \<Rightarrow> string \<Rightarrow> 's \<Rightarrow>
   (string \<times> Message) list \<times> 's" where
  "deliver_one st rs mx base online i s =
     (case i_GetMessageByServerID st i s of
        (None, s1) \<Rightarrow> ([], s1)
      | (Some msg, s1) \<Rightarrow>
          (case i_GetRecipients st (rs 0) i s1 of
             (recips, s2) \<Rightarrow>
               deliver_loop st rs mx base online i msg 1 (add_addressee msg recips) s2))"

text \<open>
  One round of \<open>deliverWorker\<close>: receive an id, deliver, unmark.
\<close>

definition deliver_round ::
  "'s Store \<Rightarrow> (nat \<Rightarrow> rt) \<Rightarrow> int \<Rightarrow> int \<Rightarrow> bool gomap \<Rightarrow> worker \<times> 's \<Rightarrow>
   (string \<times> Message) list \<times> worker \<times> 's" where
  "deliver_round st rs mx base online ws =
     (case deliverQueue (fst ws) of
        [] \<Rightarrow> ([], ws)
      | i # q \<Rightarrow>
          (case deliver_one st rs mx base online i (snd ws) of
             (out, s) \<Rightarrow> (out, unmark i ((fst ws)\<lparr>deliverQueue := q\<rparr>), s)))"

lemma deliver_loop_out:
  "fst (deliver_loop st rs mx base online i msg k tos s) =
     map (\<lambda>to. (to, deliver_message i msg to)) (filter (\<lambda>to. map_of online to = Some True) tos)"
  by (induction st rs mx base online i msg k tos s rule: deliver_loop.induct)
    (auto split: option.split prod.split)

lemma deliver_one_out:
  assumes "i_GetMessageByServerID st i s = (Some msg, s1)"
  shows "set (fst (deliver_one st rs mx base online i s)) = {(to, deliver_message i msg to) | to.
    map_of online to = Some True \<and> (to \<in> set (fst (i_GetRecipients st (rs 0) i s1)) \<or> to = To msg \<and> to \<noteq> [])}"
  using assms by (auto simp: deliver_one_def case_prod_beta deliver_loop_out add_addressee_def)

context ledger_store
begin

lemma deliver_loop_ledger:
  assumes "inv s" and "i \<noteq> []" and "[] \<notin> set tos" and "distinct tos"
  shows "inv (snd (deliver_loop st rs mx base online i msg k tos s)) \<and>
    ledger (snd (deliver_loop st rs mx base online i msg k tos s)) j u =
     (if j = i \<and> u \<in> set tos
      then map_option (if map_of online u = None then retry_status mx else (\<lambda>(x, n). (x, n + 1)))
             (ledger s j u)
      else ledger s j u)"
  using assms
proof (induction tos arbitrary: k s)
  case (Cons to tos)
  let ?op = "case map_of online to of
      None \<Rightarrow> OpRetry i to (Some ''recipient offline'') mx base | Some _ \<Rightarrow> OpSent i to None"
  define s1 where "s1 = call_store st (rs k, ?op) s"
  have inv1: "inv s1" unfolding s1_def using Cons.prems(1) by (rule inv_call)
  have led1: "ledger s1 = ledger_step ?op (ledger s)"
    unfolding s1_def using Cons.prems(1) by (rule ledger_call)
  have "snd (deliver_loop st rs mx base online i msg k (to # tos) s) =
      snd (deliver_loop st rs mx base online i msg (Suc k) tos s1)"
    by (simp add: s1_def split: option.split prod.split)
  with Cons.IH[OF inv1, of "Suc k"] Cons.prems led1 show ?case
    by (auto simp: on_pair_def split: option.splits)
qed simp

text \<open>What one round of delivery does, for any store that keeps the contract.\<close>

lemma deliver_one_spec:
  assumes "inv s" and "i \<noteq> []" and "range_ok (rs 0)" and "ledger s i [] = None"
    and "fst (i_GetMessageByServerID st i s) = Some msg"
  shows "set (fst (deliver_one st rs mx base online i s)) =
      {(to, deliver_message i msg to) | to. map_of online to = Some True \<and>
         ((\<exists>n. ledger s i to = Some (SPending, n)) \<or> to = To msg \<and> to \<noteq> [])} \<and>
    distinct (fst (deliver_one st rs mx base online i s)) \<and>
    (\<forall>j u. ledger (snd (deliver_one st rs mx base online i s)) j u =
      (if j = i \<and> ((\<exists>n. ledger s i u = Some (SPending, n)) \<or> u = To msg \<and> u \<noteq> [])
       then map_option (if map_of online u = None then retry_status mx else (\<lambda>(x, n). (x, n + 1)))
              (ledger s j u)
       else ledger s j u))"
proof -
  define recips where "recips = fst (i_GetRecipients st (rs 0) i s)"
  define tos where "tos = add_addressee msg recips"
  have recips: "set recips = {to. \<exists>n. ledger s i to = Some (SPending, n)}" "distinct recips"
    using recipients[OF assms(1,3)] recipients_distinct[OF assms(1,3)] by (simp_all add: recips_def)
  then have tos: "set tos = {to. (\<exists>n. ledger s i to = Some (SPending, n)) \<or> to = To msg \<and> to \<noteq> []}"
      "distinct tos" "[] \<notin> set tos"
    using assms(4) by (auto simp: tos_def add_addressee_def)
  have one: "deliver_one st rs mx base online i s =
      deliver_loop st rs mx base online i msg 1 tos s"
    using by_server_pure[OF assms(1), of i] recipients_pure[OF assms(1), of "rs 0" i] assms(5)
    by (cases "i_GetMessageByServerID st i s") (simp add: deliver_one_def case_prod_beta tos_def recips_def)
  have "distinct (map (\<lambda>to. (to, deliver_message i msg to))
      (filter (\<lambda>to. map_of online to = Some True) tos))"
    using tos(2) by (subst distinct_map) (simp add: inj_on_def)
  then show ?thesis
    unfolding one deliver_loop_out
    using deliver_loop_ledger[OF assms(1,2) tos(3,2), of rs mx base online msg 1] tos(1)
    by auto
qed

end

section \<open>Delivery from the in-memory store\<close>

text \<open>
  C10: processing a queued id. When the message is found, with or without a database, it is handed to exactly the
  names that are on line (with a sender) and are either among the recipients the store returns for it at that
  moment or its addressee. In memory mode these recipients are exactly those that are pending; each
  on line gets the message once; everybody pending and the addressee, if there is an entry for him,
  count one more attempt, those off line being rescheduled, or buried when the
  attempts are used up; and all other (message, recipient) pairs stay as they are.
\<close>

theorem deliver_one_correct:
  assumes found: "GetMessageByServerID b i s = (Some msg, s1)"
    and z_def: "z = deliver_one (InMemoryStore b) rs mx base online i s"
  shows "set (fst z) = {(to, deliver_message i msg to) | to. map_of online to = Some True \<and>
      (to \<in> set (fst (GetRecipients b (rs 0) i s1)) \<or> to = To msg \<and> to \<noteq> [])} \<and>
    (mem_inv s \<and> i \<noteq> [] \<and> range_ok (rs 0) \<and> find_entry s i [] = None \<longrightarrow>
      set (fst (GetRecipients b (rs 0) i s1)) = {to. \<exists>n. ledger_of s i to = Some (SPending, n)} \<and>
      distinct (fst z) \<and>
      (\<forall>j u. ledger_of (snd z) j u =
        (if j = i \<and> ((\<exists>n. ledger_of s i u = Some (SPending, n)) \<or> u = To msg \<and> u \<noteq> [])
         then map_option (if map_of online u = None then retry_status mx else (\<lambda>(x, n). (x, n + 1)))
                (ledger_of s j u)
         else ledger_of s j u)))"
proof (intro conjI impI)
  have found': "i_GetMessageByServerID (InMemoryStore b) i s = (Some msg, s1)"
    using found by (simp add: InMemoryStore_def)
  show "set (fst z) = {(to, deliver_message i msg to) | to. map_of online to = Some True \<and>
      (to \<in> set (fst (GetRecipients b (rs 0) i s1)) \<or> to = To msg \<and> to \<noteq> [])}"
    unfolding z_def deliver_one_out[OF found'] by (simp add: InMemoryStore_def)
  assume "mem_inv s \<and> i \<noteq> [] \<and> range_ok (rs 0) \<and> find_entry s i [] = None"
  then have m: "mem_inv s" "i \<noteq> []" "range_ok (rs 0)" "ledger_of s i [] = None" by (simp_all add: ledger_of_def)
  have "s1 = s" using ms.by_server_pure[OF m(1), of b i] found' by simp
  then show "set (fst (GetRecipients b (rs 0) i s1)) = {to. \<exists>n. ledger_of s i to = Some (SPending, n)}"
    using ms.recipients[OF m(1,3), of b i] by (simp add: InMemoryStore_def)
  have "fst (i_GetMessageByServerID (InMemoryStore b) i s) = Some msg" using found' by simp
  note spec = ms.deliver_one_spec[where rs = rs, OF m this, of mx base online, folded z_def]
  show "distinct (fst z)" using spec by blast
  show "\<forall>j u. ledger_of (snd z) j u =
        (if j = i \<and> ((\<exists>n. ledger_of s i u = Some (SPending, n)) \<or> u = To msg \<and> u \<noteq> [])
         then map_option (if map_of online u = None then retry_status mx else (\<lambda>(x, n). (x, n + 1)))
                (ledger_of s j u)
         else ledger_of s j u)"
    using spec by blast
qed

text \<open>\<open>ann\<close> wrote \<open>s-1\<close> to \<open>bob\<close>, who acknowledged it; \<open>eve\<close> is still pending.\<close>

definition sample_delivery :: "(tables, (string \<times> string) list) store" where
  "sample_delivery = sample_store\<lparr>messages := [(''s-1'', zero_Message\<lparr>ServerMsgID := ''s-1'',
     From := ''ann'', To := ''bob''\<rparr>)]\<rparr>"

lemma sample_delivery_facts:
  "mem_inv sample_delivery" "find_entry sample_delivery ''s-1'' [] = None"
  "map_of (messages sample_delivery) ''s-1'' =
     Some (zero_Message\<lparr>ServerMsgID := ''s-1'', From := ''ann'', To := ''bob''\<rparr>)"
  "ledger_of sample_delivery ''s-1'' ''bob'' = Some (SDelivered, 0)"
  "ledger_of sample_delivery ''s-1'' ''eve'' = Some (SPending, 0)"
  by (simp_all add: sample_delivery_def sample_store_def NewInMemoryStore_def find_entry_def
      mem_inv_def store_wf_def gall_def entry_ok_def new_entry_def ledger_of_def status_of_def)

theorem deliver_one_correct_witness:
  "ledger_of (snd (deliver_one (InMemoryStore sample_backend) (\<lambda>_. sample_rt 0) 5 1
     [(''bob'', True)] ''s-1'' sample_delivery)) ''s-1'' ''eve'' = Some (SPending, 1)"
proof -
  have "GetMessageByServerID sample_backend ''s-1'' sample_delivery =
      (Some (zero_Message\<lparr>ServerMsgID := ''s-1'', From := ''ann'', To := ''bob''\<rparr>), sample_delivery)"
    using sample_delivery_facts(3) by (simp add: GetMessageByServerID_def)
  from deliver_one_correct[OF this refl, of "\<lambda>_. sample_rt 0" 5 1 "[(''bob'', True)]"] sample_delivery_facts
  show ?thesis by (simp add: retry_status_def)
qed

text \<open>
  The addressee of a direct message is served on every round, acknowledged or not: while he
  is online, processing the id again sends him the message again.
\<close>

theorem addressee_sent_again:
  assumes "mem_inv s" and "i \<noteq> []" and "range_ok (rs 0)" and "find_entry s i [] = None"
    and "map_of (messages s) i = Some msg" and "To msg \<noteq> []"
    and "ledger_of s i (To msg) = Some (SDelivered, n)" and "map_of online (To msg) = Some True"
  shows "(To msg, deliver_message i msg (To msg)) \<in>
    set (fst (deliver_one (InMemoryStore b) rs mx base online i s))"
proof -
  have "ledger_of s i [] = None" and "fst (i_GetMessageByServerID (InMemoryStore b) i s) = Some msg"
    using assms(4,5) by (simp_all add: ledger_of_def InMemoryStore_def GetMessageByServerID_def)
  from ms.deliver_one_spec[where rs = rs, OF assms(1-3) this] assms(6,8) show ?thesis by blast
qed

theorem addressee_sent_again_witness:
  "\<exists>m. (''bob'', m) \<in> set (fst (deliver_one (InMemoryStore sample_backend) (\<lambda>_. sample_rt 0) 5 1
     [(''bob'', True)] ''s-1'' sample_delivery))"
  using addressee_sent_again[of sample_delivery "''s-1''" "\<lambda>_. sample_rt 0" _ 0
      "[(''bob'', True)]" sample_backend 5 1] sample_delivery_facts
  by simp blast

text \<open>
  In memory mode, after a tick of the retry worker every message with a due entry is in
  the pipeline of the delivery worker, as long as at most 500 messages are due and the queue has
  room for 500; the in-flight set stays exact. (For the database mode see \<open>Crash_Recovery\<close>.)
\<close>

theorem retry_tick_in_memory:
  assumes "mem_inv s" and "range_ok r" and "queue_inv w"
    and "card {i. \<exists>to e. find_entry s i to = Some e \<and> due (clk r 0) e} \<le> 500"
    and "length (deliverQueue w) + 500 \<le> queue_cap"
  shows "queue_inv (fst (retry_tick (InMemoryStore b) r (w, s))) \<and>
    {i. i \<noteq> [] \<and> (\<exists>to e. find_entry s i to = Some e \<and> due (clk r 0) e)} \<subseteq>
      set (pipeline (fst (retry_tick (InMemoryStore b) r (w, s))))"
proof -
  have p: "\<not> persistent s" and wf: "store_wf s" using assms(1) by (simp_all add: mem_inv_def)
  define scan where "scan = mem_scan r (due (clk r 0)) s"
  have set_scan: "set scan = {i. \<exists>to e. find_entry s i to = Some e \<and> due (clk r 0) e}"
    unfolding scan_def by (rule set_mem_scan[OF assms(2) wf])
  have "distinct scan"
    using assms(2) wf by (simp add: scan_def mem_scan_def store_wf_def)
  then have len: "length scan \<le> 500" using assms(4) set_scan by (metis distinct_card)
  then have due: "i_GetDueRetryServerMsgIDs (InMemoryStore b) r 500 s = (dedupeStrings scan, s)"
    using p by (simp add: InMemoryStore_def GetDueRetryServerMsgIDs_def scan_def limit_to_def)
  let ?w = "enqueue_all (dedupeStrings scan) w"
  have "length (dedupeStrings scan) \<le> length scan"
    by (metis card_length distinct_card distinct_dedupeStrings le_trans card_mono Diff_subset
        finite_set set_dedupeStrings)
  then have "in_flight ?w = in_flight w \<union> (set (dedupeStrings scan) - {[]})"
    using len assms(5) by (intro enqueue_all_room) linarith
  moreover have inv: "queue_inv ?w"
    using assms(3) unfolding enqueue_all_def
    by (rule_tac fold_invariant[where Q = "\<lambda>_. True" and P = queue_inv])
      (simp_all add: queue_inv_Enqueue)
  moreover have "set (pipeline ?w) = in_flight ?w"
    using inv by (simp add: queue_inv_def in_flight_def del: set_map)
  ultimately show ?thesis
    using set_scan by (auto simp: retry_tick_def due)
qed

theorem retry_tick_in_memory_witness:
  "''s-1'' \<in> set (pipeline (fst (retry_tick (InMemoryStore sample_backend) (sample_rt (9 * second))
     (NewWorker, sample_store\<lparr>deliveries := [(''s-1'', [(''eve'', (new_entry ''eve'')\<lparr>NextRetryAt := 8\<rparr>)])]\<rparr>))))"
proof -
  let ?s = "sample_store\<lparr>deliveries := [(''s-1'', [(''eve'', (new_entry ''eve'')\<lparr>NextRetryAt := 8\<rparr>)])]\<rparr>"
  have inv: "mem_inv ?s"
    by (simp add: mem_inv_def store_wf_def gall_def sample_store_def NewInMemoryStore_def
        entry_ok_def new_entry_def)
  have due: "{i. \<exists>to e. find_entry ?s i to = Some e \<and> due (clk (sample_rt (9 * second)) 0) e} = {''s-1''}"
    by (auto simp: find_entry_def due_def undelivered_def new_entry_def sample_rt_def unix_def)
  then have "\<exists>to e. find_entry ?s ''s-1'' to = Some e \<and> due (clk (sample_rt (9 * second)) 0) e" by blast
  with retry_tick_in_memory[OF inv range_ok_sample queue_inv_new, of "9 * second" sample_backend]
  show ?thesis unfolding due by (simp add: NewWorker_def queue_cap_def) blast
qed

end
