(* ===== verification/Server.thy ===== *)
theory Server
  imports Group_Manager Config Delivery_Worker
begin

text \<open>
  The server (\<open>internal/server\<close>): the map of online users, the counters, and the calls that
  sessions make into it, each delegating to the logic service, the store, the worker or the
  group manager.
\<close>

section \<open>State\<close>

text \<open>A \<open>Sender\<close> is the user object of a connection, named by the number of the connection.\<close>

record OnlineInfo =
  sender :: nat
  addr :: string

record ('d, 'c) server =
  OnlineMap :: "OnlineInfo gomap"
  logic :: "('d, 'c) store LogicService"
  groupManager :: groups
  srv_worker :: "worker option"
  sec :: conn_sec
  startAt :: int
  totalConnections :: "64 word"
  rejectedConn :: "64 word"
  inboundMessages :: "64 word"
  outboundMessages :: "64 word"
  activeConn :: int

text \<open>\<open>NewServer\<close>, on the environment and a fresh store; \<open>SetWorker\<close>.\<close>

definition NewServer :: "env \<Rightarrow> int \<Rightarrow> ('d, 'c) store \<Rightarrow> ('d, 'c) server" where
  "NewServer e now s =
     \<lparr>OnlineMap = [], logic = newLogicService s, groupManager = NewGroupManager, srv_worker = None,
      sec = new_conn_sec e, startAt = now, totalConnections = 0, rejectedConn = 0,
      inboundMessages = 0, outboundMessages = 0, activeConn = 0\<rparr>"

definition SetWorker :: "worker \<Rightarrow> ('d, 'c) server \<Rightarrow> ('d, 'c) server" where
  "SetWorker w srv = srv\<lparr>srv_worker := Some w\<rparr>"

abbreviation the_store :: "('d, 'c) server \<Rightarrow> ('d, 'c) store" where
  "the_store srv \<equiv> l_store (logic srv)"

definition set_store :: "('d, 'c) store \<Rightarrow> ('d, 'c) server \<Rightarrow> ('d, 'c) server" where
  "set_store s srv = srv\<lparr>logic := (logic srv)\<lparr>l_store := s\<rparr>\<rparr>"

section \<open>The API of the server (api.go, id.go, broadcast.go, stats.go)\<close>

text \<open>A nil sender is \<open>None\<close>.\<close>

definition RegisterOnline ::
  "string \<Rightarrow> nat option \<Rightarrow> string \<Rightarrow> ('d, 'c) server \<Rightarrow> ('d, 'c) server" where
  "RegisterOnline name sndr a srv =
     (case sndr of
        None \<Rightarrow> srv
      | Some c \<Rightarrow>
          if name = [] then srv
          else srv\<lparr>OnlineMap := gput name \<lparr>sender = c, addr = a\<rparr> (OnlineMap srv)\<rparr>)"

definition UnregisterOnline :: "string \<Rightarrow> ('d, 'c) server \<Rightarrow> ('d, 'c) server" where
  "UnregisterOnline name srv =
     (if name = [] then srv else srv\<lparr>OnlineMap := gdel name (OnlineMap srv)\<rparr>)"

definition srv_ProcessSend ::
  "('d, 'c) backend \<Rightarrow> rt \<Rightarrow> Message option \<Rightarrow> string list \<Rightarrow> ('d, 'c) server \<Rightarrow>
   send_result \<times> ('d, 'c) server" where
  "srv_ProcessSend b r req recipients srv =
     (case ProcessSend (InMemoryStore b) r req recipients (logic srv) of
        (res, l) \<Rightarrow> (res, srv\<lparr>logic := l\<rparr>))"

definition srv_HandleDeliverAck ::
  "('d, 'c) backend \<Rightarrow> rt \<Rightarrow> string \<Rightarrow> string \<Rightarrow> ('d, 'c) server \<Rightarrow> ('d, 'c) server" where
  "srv_HandleDeliverAck b r username i srv =
     srv\<lparr>logic := HandleDeliverAck (InMemoryStore b) r username i (logic srv)\<rparr>"

definition srv_HandleReadAck ::
  "('d, 'c) backend \<Rightarrow> rt \<Rightarrow> string \<Rightarrow> string \<Rightarrow> ('d, 'c) server \<Rightarrow> ('d, 'c) server" where
  "srv_HandleReadAck b r username i srv =
     srv\<lparr>logic := HandleReadAck (InMemoryStore b) r username i (logic srv)\<rparr>"

definition srv_EnqueueServerMsg :: "string \<Rightarrow> ('d, 'c) server \<Rightarrow> ('d, 'c) server" where
  "srv_EnqueueServerMsg i srv = srv\<lparr>srv_worker := map_option (EnqueueServerMsg i) (srv_worker srv)\<rparr>"

definition srv_EnqueuePendingForUser ::
  "('d, 'c) backend \<Rightarrow> rt \<Rightarrow> string \<Rightarrow> int \<Rightarrow> ('d, 'c) server \<Rightarrow> ('d, 'c) server" where
  "srv_EnqueuePendingForUser b r username limit srv =
     (case srv_worker srv of
        None \<Rightarrow> srv
      | Some w \<Rightarrow>
          (case EnqueuePendingForUser (InMemoryStore b) r username limit (w, the_store srv) of
             (w', s) \<Rightarrow> set_store s (srv\<lparr>srv_worker := Some w'\<rparr>)))"

definition srv_GetC2CHistory ::
  "('d, 'c) backend \<Rightarrow> rt \<Rightarrow> string \<Rightarrow> string \<Rightarrow> int \<Rightarrow> ('d, 'c) server \<Rightarrow>
   Message list \<times> ('d, 'c) server" where
  "srv_GetC2CHistory b r userA userB limit srv =
     (case GetC2CHistory b r userA userB limit (the_store srv) of (ms, s) \<Rightarrow> (ms, set_store s srv))"

text \<open>Two calls of \<open>id.go\<close>; the \<open>logic\<close> field is never nil.\<close>

definition srv_GenerateServerMsgID :: "int \<Rightarrow> ('d, 'c) server \<Rightarrow> string \<times> ('d, 'c) server" where
  "srv_GenerateServerMsgID now srv =
     (case GenerateServerMsgID now ''s'' (logic srv) of (i, l) \<Rightarrow> (i, srv\<lparr>logic := l\<rparr>))"

definition srv_NextSeq ::
  "('d, 'c) backend \<Rightarrow> string \<Rightarrow> ('d, 'c) server \<Rightarrow> 64 word \<times> ('d, 'c) server" where
  "srv_NextSeq b chatID srv = (case NextSeq b chatID (the_store srv) of (n, s) \<Rightarrow> (n, set_store s srv))"

text \<open>\<open>BroadcastSystemEvent\<close>: everybody online but one, in the iteration order of the map.\<close>

definition BroadcastSystemEvent ::
  "('d, 'c) backend \<Rightarrow> rt \<Rightarrow> string \<Rightarrow> string \<Rightarrow> ('d, 'c) server \<Rightarrow>
   (string \<times> 64 word) \<times> ('d, 'c) server" where
  "BroadcastSystemEvent b r body exclude srv =
     (case system_event (InMemoryStore b) r body
             (filter (\<lambda>name. name \<noteq> exclude) (rng r (gkeys (OnlineMap srv)))) (logic srv) of
        ((i, seq), l) \<Rightarrow> ((i, seq), srv_EnqueueServerMsg i (srv\<lparr>logic := l\<rparr>)))"

definition markInboundMessage :: "('d, 'c) server \<Rightarrow> ('d, 'c) server" where
  "markInboundMessage srv = srv\<lparr>inboundMessages := inboundMessages srv + 1\<rparr>"

definition markOutboundMessage :: "('d, 'c) server \<Rightarrow> ('d, 'c) server" where
  "markOutboundMessage srv = srv\<lparr>outboundMessages := outboundMessages srv + 1\<rparr>"

definition ListOnlineUsers :: "rt \<Rightarrow> ('d, 'c) server \<Rightarrow> (string \<times> string) list" where
  "ListOnlineUsers r srv =
     List.map_filter (\<lambda>name. map_option (\<lambda>info. (name, addr info)) (map_of (OnlineMap srv) name))
       (rng r (gkeys (OnlineMap srv)))"

text \<open>
  \<open>SnapshotStats\<close>. The rate \<open>MsgPerSec\<close>, a float, is left as the pair of which it is the
  quotient: messages and nanoseconds of uptime.
\<close>

record StatsSnapshot =
  st_StartAt :: int
  Uptime :: int
  OnlineUsers :: nat
  st_ActiveConn :: int
  st_TotalConnections :: "64 word"
  st_RejectedConn :: "64 word"
  st_Inbound :: "64 word"
  st_Outbound :: "64 word"
  MsgPerUptime :: "64 word \<times> int"
  st_Deliveries :: DeliveryStatusStats

definition SnapshotStats ::
  "('d, 'c) backend \<Rightarrow> rt \<Rightarrow> ('d, 'c) server \<Rightarrow> StatsSnapshot \<times> ('d, 'c) server" where
  "SnapshotStats b r srv =
     (let up0 = i64 (clk r 0 - startAt srv);
          up = (if up0 < second then second else up0)
      in case DeliveryStats b (the_store srv) of
           (ds, s) \<Rightarrow>
             (\<lparr>st_StartAt = startAt srv, Uptime = up, OnlineUsers = length (OnlineMap srv),
               st_ActiveConn = activeConn srv, st_TotalConnections = totalConnections srv,
               st_RejectedConn = rejectedConn srv, st_Inbound = inboundMessages srv,
               st_Outbound = outboundMessages srv,
               MsgPerUptime = (inboundMessages srv + outboundMessages srv, up),
               st_Deliveries = ds\<rparr>, set_store s srv))"

section \<open>Accepting connections (accept.go)\<close>

text \<open>
  One round of \<open>acceptLoop\<close> for a connection from the given remote address: the reason of a
  refusal, or \<open>None\<close> when the connection goes to a handler, which counts it.
\<close>

definition accept_round :: "rt \<Rightarrow> string option \<Rightarrow> ('d, 'c) server \<Rightarrow> reject option \<times> ('d, 'c) server" where
  "accept_round r remote srv =
     (case allowConnection r (parseIP remote) (sec srv) of
        (Some reason, sc) \<Rightarrow> (Some reason, srv\<lparr>sec := sc, rejectedConn := rejectedConn srv + 1\<rparr>)
      | (None, sc) \<Rightarrow> (None, srv\<lparr>sec := sc\<rparr>))"

text \<open>The counters of \<open>Handler\<close>, at its start and at its return.\<close>

definition handler_enter :: "('d, 'c) server \<Rightarrow> ('d, 'c) server" where
  "handler_enter srv = srv\<lparr>totalConnections := totalConnections srv + 1, activeConn := activeConn srv + 1\<rparr>"

definition handler_leave :: "('d, 'c) server \<Rightarrow> ('d, 'c) server" where
  "handler_leave srv = srv\<lparr>activeConn := activeConn srv - 1\<rparr>"

text \<open>\<open>Start\<close>, after the listener is open: recovery of pending deliveries.\<close>

definition Start :: "('d, 'c) backend \<Rightarrow> rt \<Rightarrow> ('d, 'c) server \<Rightarrow> ('d, 'c) server" where
  "Start b r srv =
     (case srv_worker srv of
        None \<Rightarrow> srv
      | Some w \<Rightarrow>
          (case RecoverPendingDeliveries (InMemoryStore b) r 2000 (w, the_store srv) of
             (w', s) \<Rightarrow> set_store s (srv\<lparr>srv_worker := Some w'\<rparr>)))"

end
