(* ===== verification/Session.thy ===== *)
theory Session
  imports Texts Json_Message Server
begin

text \<open>
  Sessions (\<open>internal/session\<close>): the user object of a connection with its bounded output
  channel, presence (online, offline, heartbeat), registration and login. The users work on the one server and its store, so every operation is a
  function on the state of the whole process. A goroutine started with \<open>go u.Logout()\<close> is an
  entry of \<open>logouts\<close>; the goroutine that writes a user's messages runs between the operations.
  \<open>rs k\<close> is what the \<open>k\<close>-th call that reads the clock or ranges over a map sees.
\<close>

section \<open>State\<close>

record heartbeat =
  hb_key :: string
  hb_val :: string
  hb_ttl :: int

text \<open>
  \<open>C\<close> is the content of the channel. \<open>isClosed\<close> also says that \<open>closeOnce\<close> has run,
  \<open>loggedOut\<close> that \<open>logoutOnce\<close> has. \<open>wire\<close> are the bytes written to the connection and
  \<open>listening\<close> says that the goroutine of \<open>ListenMessage\<close> is running. The \<open>Server\<close>
  field is always the one server.
\<close>

record user =
  u_Name :: string
  u_Addr :: string
  C :: "string list"
  Authenticated :: bool
  isClosed :: bool
  loggedOut :: bool
  heartbeatCancel :: "heartbeat option"
  listening :: bool
  wire :: string

definition chan_cap :: nat where
  "chan_cap = 10"

record ('d, 'c) sys =
  im_srv :: "('d, 'c) server"
  conns :: "user list"
  logouts :: "nat list"
  crashed :: bool

text \<open>
  What the process takes from outside the repository: the GB18030 decoder, bcrypt (\<open>x_hash\<close>
  with the salt it drew, \<open>Inl\<close> an error), the JSON form of a user row, the environment and host
  name, the text of a JSON error, and the formatting that depends on the time zone or on floats.
\<close>

record ext =
  x_gb18030 :: "string \<Rightarrow> string option"
  x_hash :: "string \<Rightarrow> string + string"
  x_check :: "string \<Rightarrow> string \<Rightarrow> bool"
  x_user_json :: user_json
  x_env :: env
  x_host :: "string option"
  x_json_error :: "string \<Rightarrow> string"
  x_datetime :: "int \<Rightarrow> string"
  x_rfc3339 :: "int \<Rightarrow> string"
  x_rate :: "64 word \<times> int \<Rightarrow> string"

abbreviation the_user :: "('d, 'c) sys \<Rightarrow> nat \<Rightarrow> user" where
  "the_user y c \<equiv> conns y ! c"

definition upd :: "nat \<Rightarrow> (user \<Rightarrow> user) \<Rightarrow> ('d, 'c) sys \<Rightarrow> ('d, 'c) sys" where
  "upd c f y = y\<lparr>conns := (conns y)[c := f (conns y ! c)]\<rparr>"

definition on_srv :: "(('d, 'c) server \<Rightarrow> ('d, 'c) server) \<Rightarrow> ('d, 'c) sys \<Rightarrow> ('d, 'c) sys" where
  "on_srv f y = y\<lparr>im_srv := f (im_srv y)\<rparr>"

definition on_cache :: "('c \<Rightarrow> 'c) \<Rightarrow> ('d, 'c) sys \<Rightarrow> ('d, 'c) sys" where
  "on_cache f y = on_srv (\<lambda>v. set_store ((the_store v)\<lparr>cache := f (cache (the_store v))\<rparr>) v) y"

text \<open>A call into \<open>dao\<close>.\<close>

definition on_store :: "(('d, 'c) store \<Rightarrow> 'a \<times> ('d, 'c) store) \<Rightarrow> ('d, 'c) sys \<Rightarrow> 'a \<times> ('d, 'c) sys" where
  "on_store f y = (case f (the_store (im_srv y)) of (a, s) \<Rightarrow> (a, on_srv (set_store s) y))"

section \<open>User objects (session.go)\<close>

definition NewUser :: "string \<Rightarrow> ('d, 'c) sys \<Rightarrow> nat \<times> ('d, 'c) sys" where
  "NewUser remote y =
     (length (conns y),
      y\<lparr>conns := conns y @
         [\<lparr>u_Name = remote, u_Addr = remote, C = [], Authenticated = False, isClosed = False,
           loggedOut = False, heartbeatCancel = None, listening = True, wire = []\<rparr>]\<rparr>)"

definition SendMsg :: "nat \<Rightarrow> string \<Rightarrow> ('d, 'c) sys \<Rightarrow> ('d, 'c) sys" where
  "SendMsg c msg y =
     (if isClosed (the_user y c) then y
      else if length (C (the_user y c)) < chan_cap
      then on_srv markOutboundMessage (upd c (\<lambda>u. u\<lparr>C := C u @ [msg]\<rparr>) y)
      else y\<lparr>logouts := logouts y @ [c]\<rparr>)"

definition SendJSON :: "nat \<Rightarrow> Message option \<Rightarrow> ('d, 'c) sys \<Rightarrow> ('d, 'c) sys" where
  "SendJSON c m y = (case m of None \<Rightarrow> y | Some msg \<Rightarrow> SendMsg c (marshal_message msg) y)"

text \<open>
  The heartbeat goroutine is given by the values it captured; its ticker panics, which ends the
  process, when half the time-to-live is not positive.
\<close>

definition startOnlineHeartbeat ::
  "ext \<Rightarrow> ('d, 'c) backend \<Rightarrow> nat \<Rightarrow> ('d, 'c) sys \<Rightarrow> ('d, 'c) sys" where
  "startOnlineHeartbeat x b c y =
     (let y0 = upd c (\<lambda>u. u\<lparr>heartbeatCancel := None\<rparr>) y;
          name = u_Name (the_user y c)
      in case client b of
           None \<Rightarrow> y0
         | Some rd \<Rightarrow>
             if name = [] then y0
             else
               (let ttl = OnlineTTL (x_env x);
                    hb = \<lparr>hb_key = OnlineKey name, hb_val = GatewayID (x_host x) (x_env x), hb_ttl = ttl\<rparr>;
                    y1 = on_cache (r_set rd (hb_key hb) (hb_val hb) ttl) y0;
                    y2 = upd c (\<lambda>u. u\<lparr>heartbeatCancel := Some hb\<rparr>) y1
                in y2\<lparr>crashed := crashed y2 \<or> ttl div 2 \<le> 0\<rparr>))"

text \<open>One tick of a heartbeat.\<close>

definition heartbeat_tick :: "('d, 'c) backend \<Rightarrow> nat \<Rightarrow> ('d, 'c) sys \<Rightarrow> ('d, 'c) sys" where
  "heartbeat_tick b c y =
     (case (client b, heartbeatCancel (the_user y c)) of
        (Some rd, Some hb) \<Rightarrow> on_cache (r_set rd (hb_key hb) (hb_val hb) (hb_ttl hb)) y
      | _ \<Rightarrow> y)"

definition stopOnlineHeartbeat ::
  "('d, 'c) backend \<Rightarrow> nat \<Rightarrow> ('d, 'c) sys \<Rightarrow> ('d, 'c) sys" where
  "stopOnlineHeartbeat b c y =
     (let y1 = upd c (\<lambda>u. u\<lparr>heartbeatCancel := None\<rparr>) y;
          name = u_Name (the_user y c)
      in case client b of
           None \<Rightarrow> y1
         | Some rd \<Rightarrow> if name \<noteq> [] then on_cache (r_del rd (OnlineKey name)) y1 else y1)"

definition broadcast ::
  "('d, 'c) backend \<Rightarrow> rt \<Rightarrow> string \<Rightarrow> string \<Rightarrow> ('d, 'c) sys \<Rightarrow> (string \<times> 64 word) \<times> ('d, 'c) sys" where
  "broadcast b r body exclude y =
     (case BroadcastSystemEvent b r body exclude (im_srv y) of (iq, v) \<Rightarrow> (iq, y\<lparr>im_srv := v\<rparr>))"

text \<open>The greeting and the farewell.\<close>

definition system_message :: "string \<Rightarrow> 64 word \<Rightarrow> string \<Rightarrow> Message" where
  "system_message i seq body =
     zero_Message\<lparr>Type := TypeDeliver, ServerMsgID := i, From := ''system'', ChatID := ''system'',
       Seq := seq, Body := body\<rparr>"

definition Online ::
  "ext \<Rightarrow> ('d, 'c) backend \<Rightarrow> (nat \<Rightarrow> rt) \<Rightarrow> nat \<Rightarrow> ('d, 'c) sys \<Rightarrow> ('d, 'c) sys" where
  "Online x b rs c y =
     (let u = the_user y c;
          y1 = on_srv (RegisterOnline (u_Name u) (Some c) (u_Addr u)) y;
          y2 = on_srv (srv_EnqueuePendingForUser b (rs 0) (u_Name u) 500) y1
      in case broadcast b (rs 1) (u_Name u @ txt_online) (u_Name u) y2 of
           ((i, seq), y3) \<Rightarrow>
             startOnlineHeartbeat x b c (SendJSON c (Some (system_message i seq txt_welcome)) y3))"

definition Offline ::
  "('d, 'c) backend \<Rightarrow> (nat \<Rightarrow> rt) \<Rightarrow> nat \<Rightarrow> ('d, 'c) sys \<Rightarrow> ('d, 'c) sys" where
  "Offline b rs c y =
     (let y1 = stopOnlineHeartbeat b c y;
          name = u_Name (the_user y c);
          y2 = on_srv (UnregisterOnline name) y1
      in case broadcast b (rs 0) (name @ txt_offline) name y2 of
           ((i, seq), y3) \<Rightarrow> SendJSON c (Some (system_message i seq txt_goodbye)) y3)"

definition Close :: "nat \<Rightarrow> ('d, 'c) sys \<Rightarrow> ('d, 'c) sys" where
  "Close c y = (if isClosed (the_user y c) then y else upd c (\<lambda>u. u\<lparr>isClosed := True\<rparr>) y)"

definition Logout ::
  "('d, 'c) backend \<Rightarrow> (nat \<Rightarrow> rt) \<Rightarrow> nat \<Rightarrow> ('d, 'c) sys \<Rightarrow> ('d, 'c) sys" where
  "Logout b rs c y =
     (if loggedOut (the_user y c) then y
      else Close c (Offline b rs c (upd c (\<lambda>u. u\<lparr>loggedOut := True\<rparr>) y)))"

text \<open>
  One round of \<open>ListenMessage\<close>: the message and the prompt are written; \<open>w\<close> is \<open>None\<close> when
  both writes succeed and otherwise the number of bytes written before the error. Writing to a
  closed connection fails.
\<close>

definition listen_round ::
  "('d, 'c) backend \<Rightarrow> (nat \<Rightarrow> rt) \<Rightarrow> nat option \<Rightarrow> nat \<Rightarrow> ('d, 'c) sys \<Rightarrow> ('d, 'c) sys" where
  "listen_round b rs w c y =
     (let u = the_user y c in
      if \<not> listening u then y
      else case C u of
        [] \<Rightarrow> (if isClosed u then upd c (\<lambda>u. u\<lparr>listening := False\<rparr>) y else y)
      | msg # q \<Rightarrow>
          (let text = msg @ [CHR 0x0A] @ u_Name u @ ''> '';
               y1 = upd c (\<lambda>u. u\<lparr>C := q\<rparr>) y
           in if isClosed u then upd c (\<lambda>u. u\<lparr>listening := False\<rparr>) (Logout b rs c y1)
              else case w of
                None \<Rightarrow> upd c (\<lambda>u. u\<lparr>wire := wire u @ text\<rparr>) y1
              | Some k \<Rightarrow> upd c (\<lambda>u. u\<lparr>listening := False\<rparr>)
                  (Logout b rs c (upd c (\<lambda>u. u\<lparr>wire := wire u @ take k text\<rparr>) y1))))"

section \<open>Accounts (auth.go)\<close>

definition name_breaks :: string where
  "name_breaks = [CHR 0x20, CHR 0x09, CHR 0x0A, CHR 0x0D, CHR ''|'']"

definition is_online :: "rt \<Rightarrow> string \<Rightarrow> ('d, 'c) sys \<Rightarrow> bool" where
  "is_online r name y = list_ex (\<lambda>info. fst info = name) (ListOnlineUsers r (im_srv y))"

text \<open>The end of \<open>Register\<close> and \<open>Login\<close>: the connection takes the name and goes online.\<close>

definition enter ::
  "ext \<Rightarrow> ('d, 'c) backend \<Rightarrow> (nat \<Rightarrow> rt) \<Rightarrow> nat \<Rightarrow> string \<Rightarrow> ('d, 'c) sys \<Rightarrow> ('d, 'c) sys" where
  "enter x b rs c name y =
     Online x b rs c (upd c (\<lambda>u. u\<lparr>u_Name := name, Authenticated := True\<rparr>) y)"

definition Register ::
  "ext \<Rightarrow> ('d, 'c) backend \<Rightarrow> (nat \<Rightarrow> rt) \<Rightarrow> nat \<Rightarrow> string \<Rightarrow> string \<Rightarrow> ('d, 'c) sys \<Rightarrow>
   string option \<times> ('d, 'c) sys" where
  "Register x b rs c username0 password y =
     (let username = TrimSpace username0 in
      if username = [] \<or> ContainsAny username name_breaks then (Some err_bad_name, y)
      else if is_online (rs 0) username y then (Some err_name_online, y)
      else case on_store (GetUserByName b (x_user_json x) username) y of
        (Inr _, y1) \<Rightarrow> (Some err_user_exists, y1)
      | (Inl _, y1) \<Rightarrow>
          (case x_hash x password of
             Inl e \<Rightarrow> (Some (err_hash @ e), y1)
           | Inr hash \<Rightarrow>
               (case on_store (CreateUser b (x_user_json x) (Some (new_user username hash))) y1 of
                  (Some e, y2) \<Rightarrow> (Some (err_create @ dao_error_text e), y2)
                | (None, y2) \<Rightarrow> (None, enter x b (\<lambda>k. rs (Suc k)) c username y2))))"

text \<open>\<open>Login\<close> up to its last check, and the rest; no lock spans the two.\<close>

definition login_check ::
  "ext \<Rightarrow> ('d, 'c) backend \<Rightarrow> rt \<Rightarrow> string \<Rightarrow> string \<Rightarrow> ('d, 'c) sys \<Rightarrow> string option \<times> ('d, 'c) sys" where
  "login_check x b r username password y =
     (if username = [] then (Some err_name_empty, y)
      else case on_store (GetUserByName b (x_user_json x) username) y of
        (Inl _, y1) \<Rightarrow> (Some err_no_user, y1)
      | (Inr su, y1) \<Rightarrow>
          if \<not> x_check x (DU_PasswordHash su) password then (Some err_password, y1)
          else if is_online r username y1 then (Some err_logged_in, y1)
          else (None, y1))"

definition login_commit ::
  "ext \<Rightarrow> ('d, 'c) backend \<Rightarrow> (nat \<Rightarrow> rt) \<Rightarrow> nat \<Rightarrow> string \<Rightarrow> ('d, 'c) sys \<Rightarrow> ('d, 'c) sys" where
  "login_commit x b rs c username y =
     snd (on_store (UpdateUserStatus b username 1) (enter x b rs c username y))"

definition Login ::
  "ext \<Rightarrow> ('d, 'c) backend \<Rightarrow> (nat \<Rightarrow> rt) \<Rightarrow> nat \<Rightarrow> string \<Rightarrow> string \<Rightarrow> ('d, 'c) sys \<Rightarrow>
   string option \<times> ('d, 'c) sys" where
  "Login x b rs c username password y =
     (case login_check x b (rs 0) (TrimSpace username) password y of
        (Some e, y1) \<Rightarrow> (Some e, y1)
      | (None, y1) \<Rightarrow> (None, login_commit x b (\<lambda>k. rs (Suc k)) c (TrimSpace username) y1))"

end
