(* ===== verification/Commands.thy ===== *)
theory Commands
  imports Session
begin

text \<open>
  The text commands of a session (\<open>internal/session/commands.go\<close>) and their dispatch
  (\<open>internal/session/dispatch.go\<close>), with the text of the statistics
  (\<open>internal/server/api.go\<close>).
\<close>

abbreviation nl :: string where "nl \<equiv> [CHR 0x0A]"

section \<open>Arguments\<close>

text \<open>\<open>strings.SplitN(msg, "|", n)\<close> and the checks that follow it in every command.\<close>

definition arg1 :: "string \<Rightarrow> string option" where
  "arg1 msg =
     (case SplitN CHR ''|'' 2 msg of
        [_, a] \<Rightarrow> (if TrimSpace a = [] then None else Some (TrimSpace a))
      | _ \<Rightarrow> None)"

definition arg2 :: "string \<Rightarrow> (string \<times> string) option" where
  "arg2 msg =
     (case SplitN CHR ''|'' 3 msg of
        [_, a, b] \<Rightarrow> (if TrimSpace a = [] \<or> TrimSpace b = [] then None
                     else Some (TrimSpace a, TrimSpace b))
      | _ \<Rightarrow> None)"

section \<open>Texts of errors and of statistics\<close>

definition store_error_text :: "store_error \<Rightarrow> string" where
  "store_error_text e = (case e of InvalidMessage \<Rightarrow> ''invalid message'' | StoreDB g \<Rightarrow> db_error_text g)"

definition send_error_text :: "send_error \<Rightarrow> string" where
  "send_error_text e = (case e of
     RequestIsNil \<Rightarrow> ''request is nil'' | FromIsEmpty \<Rightarrow> ''from is empty''
   | SaveFailed s \<Rightarrow> store_error_text s)"

text \<open>\<open>Duration.String\<close> of a whole number of seconds, at least one.\<close>

definition duration_text :: "int \<Rightarrow> string" where
  "duration_text t =
     (let s = t div second; h = s div 3600; m = s div 60 mod 60
      in (if h > 0 then itoa_int h @ ''h'' else []) @
         (if s div 60 > 0 then itoa_int m @ ''m'' else []) @ itoa_int (s mod 60) @ ''s'')"

definition SnapshotStatsText ::
  "ext \<Rightarrow> ('d, 'c) backend \<Rightarrow> rt \<Rightarrow> ('d, 'c) server \<Rightarrow> string \<times> ('d, 'c) server" where
  "SnapshotStatsText x b r v =
     (case SnapshotStats b r v of
        (st, v1) \<Rightarrow>
          (''Server Stats'' @ nl @ ''start_at: '' @ x_rfc3339 x (st_StartAt st) @ nl @
           ''uptime: '' @ duration_text (Uptime st) @ nl @
           ''online_users: '' @ itoa (OnlineUsers st) @ nl @
           ''active_conn: '' @ itoa_int (st_ActiveConn st) @ nl @
           ''total_conn: '' @ itoa (unat (st_TotalConnections st)) @ nl @
           ''rejected_conn: '' @ itoa (unat (st_RejectedConn st)) @ nl @
           ''inbound_msgs: '' @ itoa (unat (st_Inbound st)) @ nl @
           ''outbound_msgs: '' @ itoa (unat (st_Outbound st)) @ nl @
           ''throughput: '' @ x_rate x (MsgPerUptime st) @ '' msg/s'' @ nl @
           ''delivery_pending: '' @ itoa_int (Pending (st_Deliveries st)) @ nl @
           ''delivery_delivered: '' @ itoa_int (Delivered (st_Deliveries st)) @ nl @
           ''delivery_read: '' @ itoa_int (ReadCount (st_Deliveries st)) @ nl @
           ''dead_letter: '' @ itoa_int (DeadCount (st_Deliveries st)), v1))"

section \<open>Commands\<close>

definition useHelp :: "nat \<Rightarrow> ('d, 'c) sys \<Rightarrow> ('d, 'c) sys" where
  "useHelp c y = SendMsg c (join nl help_lines) y"

definition useWho :: "rt \<Rightarrow> nat \<Rightarrow> ('d, 'c) sys \<Rightarrow> ('d, 'c) sys" where
  "useWho r c y =
     fold (\<lambda>info. SendMsg c (''['' @ snd info @ '']'' @ fst info @ txt_who))
       (ListOnlineUsers r (im_srv y)) y"

definition useStats :: "ext \<Rightarrow> ('d, 'c) backend \<Rightarrow> rt \<Rightarrow> nat \<Rightarrow> ('d, 'c) sys \<Rightarrow> ('d, 'c) sys" where
  "useStats x b r c y =
     (case SnapshotStatsText x b r (im_srv y) of (t, v) \<Rightarrow> SendMsg c t (y\<lparr>im_srv := v\<rparr>))"

definition useRename :: "nat \<Rightarrow> string \<Rightarrow> ('d, 'c) sys \<Rightarrow> ('d, 'c) sys" where
  "useRename c msg y =
     (case arg1 msg of
        None \<Rightarrow> SendMsg c txt_rename_usage y
      | Some newName \<Rightarrow>
          if length newName > 20 then SendMsg c txt_name_long y
          else if ContainsAny newName name_breaks then SendMsg c txt_name_chars y
          else
            (let old = u_Name (the_user y c);
                 y1 = on_srv (UnregisterOnline old) y;
                 y2 = upd c (\<lambda>u. u\<lparr>u_Name := newName\<rparr>) y1;
                 y3 = on_srv (RegisterOnline newName (Some c) (u_Addr (the_user y c))) y2
             in SendMsg c (txt_renamed_1 @ old @ txt_renamed_2 @ newName @ nl) y3))"

text \<open>A call of \<open>u.Server.ProcessSend\<close>.\<close>

definition send ::
  "('d, 'c) backend \<Rightarrow> rt \<Rightarrow> Message \<Rightarrow> string list \<Rightarrow> ('d, 'c) sys \<Rightarrow> send_result \<times> ('d, 'c) sys" where
  "send b r req recipients y =
     (case srv_ProcessSend b r (Some req) recipients (im_srv y) of (res, v) \<Rightarrow> (res, y\<lparr>im_srv := v\<rparr>))"

definition enqueue :: "string \<Rightarrow> ('d, 'c) sys \<Rightarrow> ('d, 'c) sys" where
  "enqueue i y = on_srv (srv_EnqueueServerMsg i) y"

definition useChat ::
  "('d, 'c) backend \<Rightarrow> (nat \<Rightarrow> rt) \<Rightarrow> nat \<Rightarrow> string \<Rightarrow> ('d, 'c) sys \<Rightarrow> ('d, 'c) sys" where
  "useChat b rs c msg y =
     (case arg2 msg of
        None \<Rightarrow> SendMsg c txt_chat_usage y
      | Some (toName, toMsg) \<Rightarrow>
          if toName = u_Name (the_user y c) then SendMsg c txt_chat_self y
          else
            (let req = zero_Message\<lparr>Type := TypeSend, ClientMsgID := ''c-'' @ itoa_int (clk (rs 0) 0),
                   From := u_Name (the_user y c), To := toName, Body := toMsg\<rparr>
             in case send b (rs 1) req [toName] y of
                  (SendError e, y1) \<Rightarrow> SendMsg c (txt_send_failed @ send_error_text e) y1
                | (Existing ex, y1) \<Rightarrow> SendMsg c (txt_chat_existing @ ServerMsgID ex) y1
                | (Saved m, y1) \<Rightarrow>
                    SendMsg c (txt_chat_sent_1 @ toMsg @ txt_chat_sent_2 @ toName @ nl)
                      (enqueue (ServerMsgID m) y1)))"

definition useRead ::
  "('d, 'c) backend \<Rightarrow> rt \<Rightarrow> nat \<Rightarrow> string \<Rightarrow> ('d, 'c) sys \<Rightarrow> ('d, 'c) sys" where
  "useRead b r c msg y =
     (case arg1 msg of
        None \<Rightarrow> SendMsg c txt_read_usage y
      | Some i \<Rightarrow>
          SendMsg c (txt_read_done @ i)
            (on_srv (srv_HandleReadAck b r (u_Name (the_user y c)) i) y))"

definition useExit :: "('d, 'c) backend \<Rightarrow> (nat \<Rightarrow> rt) \<Rightarrow> nat \<Rightarrow> ('d, 'c) sys \<Rightarrow> ('d, 'c) sys" where
  "useExit b rs c y = Logout b rs c (SendMsg c txt_bye y)"

text \<open>The limit of a history request: \<open>strconv.Atoi\<close> in 1 to 200, otherwise 20.\<close>

definition history_limit :: "string list \<Rightarrow> int" where
  "history_limit parts =
     (if length parts \<ge> 3 \<and> TrimSpace (parts ! 2) \<noteq> [] then
        (case Atoi (TrimSpace (parts ! 2)) of
           Some n \<Rightarrow> (if n > 0 \<and> n \<le> 200 then n else 20)
         | None \<Rightarrow> 20)
      else 20)"

definition history_line :: "ext \<Rightarrow> Message \<Rightarrow> string" where
  "history_line x h =
     ''['' @ x_datetime x (Ts h) @ ''] '' @ From h @ '' -> '' @ To h @ '' | seq='' @
     itoa (unat (Seq h)) @ '' id='' @ ServerMsgID h @ '' status='' @ itoa_int (Status h) @ '' | '' @
     Body h"

definition useHistory ::
  "ext \<Rightarrow> ('d, 'c) backend \<Rightarrow> rt \<Rightarrow> nat \<Rightarrow> string \<Rightarrow> ('d, 'c) sys \<Rightarrow> ('d, 'c) sys" where
  "useHistory x b r c msg y =
     (let parts = Split CHR ''|'' msg in
      if length parts < 2 \<or> TrimSpace (parts ! 1) = [] then SendMsg c txt_history_usage y
      else
        (let peer = TrimSpace (parts ! 1) in
         case srv_GetC2CHistory b r (u_Name (the_user y c)) peer (history_limit parts) (im_srv y) of
           (history, v) \<Rightarrow>
             (let y1 = y\<lparr>im_srv := v\<rparr> in
              if history = [] then SendMsg c txt_no_history y1
              else SendMsg c
                (join nl ((''History with '' @ peer @ '' (count='' @ itoa (length history) @ '')'') #
                   map (history_line x) history) @ nl) y1)))"

text \<open>A command that calls the group manager: the error, or the new groups and the confirmation.\<close>

abbreviation the_groups :: "('d, 'c) sys \<Rightarrow> groups" where
  "the_groups y \<equiv> groupManager (im_srv y)"

definition group_reply ::
  "nat \<Rightarrow> string \<Rightarrow> string \<Rightarrow> group_error + groups \<Rightarrow> ('d, 'c) sys \<Rightarrow> ('d, 'c) sys" where
  "group_reply c failed done_text res y =
     (case res of
        Inl e \<Rightarrow> SendMsg c (failed @ group_error_text e @ nl) y
      | Inr g \<Rightarrow> SendMsg c (done_text @ nl) (on_srv (\<lambda>v. v\<lparr>groupManager := g\<rparr>) y))"

definition useGroupCreate :: "nat \<Rightarrow> string \<Rightarrow> ('d, 'c) sys \<Rightarrow> ('d, 'c) sys" where
  "useGroupCreate c msg y =
     (case arg1 msg of
        None \<Rightarrow> SendMsg c txt_gc_usage y
      | Some i \<Rightarrow>
          group_reply c txt_gc_failed (txt_gc_done @ i) (Create (the_groups y) i (u_Name (the_user y c))) y)"

definition useGroupJoin :: "nat \<Rightarrow> string \<Rightarrow> ('d, 'c) sys \<Rightarrow> ('d, 'c) sys" where
  "useGroupJoin c msg y =
     (case arg1 msg of
        None \<Rightarrow> SendMsg c txt_gj_usage y
      | Some i \<Rightarrow>
          group_reply c txt_gj_failed (txt_gj_done @ i) (Join (the_groups y) i (u_Name (the_user y c))) y)"

definition useGroupLeave :: "nat \<Rightarrow> string \<Rightarrow> ('d, 'c) sys \<Rightarrow> ('d, 'c) sys" where
  "useGroupLeave c msg y =
     (case arg1 msg of
        None \<Rightarrow> SendMsg c txt_gl_usage y
      | Some i \<Rightarrow>
          group_reply c txt_gl_failed (txt_gl_done @ i) (Leave (the_groups y) i (u_Name (the_user y c))) y)"

definition useGroupDelete :: "nat \<Rightarrow> string \<Rightarrow> ('d, 'c) sys \<Rightarrow> ('d, 'c) sys" where
  "useGroupDelete c msg y =
     (case arg1 msg of
        None \<Rightarrow> SendMsg c txt_gd_usage y
      | Some i \<Rightarrow>
          group_reply c txt_gd_failed (txt_gd_done @ i) (Delete (the_groups y) i (u_Name (the_user y c))) y)"

definition useGroupKick :: "nat \<Rightarrow> string \<Rightarrow> ('d, 'c) sys \<Rightarrow> ('d, 'c) sys" where
  "useGroupKick c msg y =
     (case arg2 msg of
        None \<Rightarrow> SendMsg c txt_gk_usage y
      | Some (i, target) \<Rightarrow>
          group_reply c txt_gk_failed (txt_gk_done @ target)
            (Kick (the_groups y) i (u_Name (the_user y c)) target) y)"

definition useGroupGrantAdmin :: "nat \<Rightarrow> string \<Rightarrow> ('d, 'c) sys \<Rightarrow> ('d, 'c) sys" where
  "useGroupGrantAdmin c msg y =
     (case arg2 msg of
        None \<Rightarrow> SendMsg c txt_ga_usage y
      | Some (i, target) \<Rightarrow>
          group_reply c txt_ga_failed (txt_ga_done @ target)
            (GrantAdmin (the_groups y) i (u_Name (the_user y c)) target) y)"

definition useGroupRevokeAdmin :: "nat \<Rightarrow> string \<Rightarrow> ('d, 'c) sys \<Rightarrow> ('d, 'c) sys" where
  "useGroupRevokeAdmin c msg y =
     (case arg2 msg of
        None \<Rightarrow> SendMsg c txt_gr_usage y
      | Some (i, target) \<Rightarrow>
          group_reply c txt_gr_failed (txt_gr_done @ target)
            (RevokeAdmin (the_groups y) i (u_Name (the_user y c)) target) y)"

definition useGroupMembers :: "rt \<Rightarrow> nat \<Rightarrow> string \<Rightarrow> ('d, 'c) sys \<Rightarrow> ('d, 'c) sys" where
  "useGroupMembers r c msg y =
     (case arg1 msg of
        None \<Rightarrow> SendMsg c txt_gm_usage y
      | Some i \<Rightarrow>
          (let members = Members r (the_groups y) i in
           if members = [] then SendMsg c (txt_gm_none @ i @ nl) y
           else SendMsg c (txt_gm_members @ i @ ''): '' @ join '', '' members @ nl) y))"

definition useGroupTalk ::
  "('d, 'c) backend \<Rightarrow> (nat \<Rightarrow> rt) \<Rightarrow> nat \<Rightarrow> string \<Rightarrow> ('d, 'c) sys \<Rightarrow> ('d, 'c) sys" where
  "useGroupTalk b rs c msg y =
     (case arg2 msg of
        None \<Rightarrow> SendMsg c txt_gt_usage y
      | Some (i, body) \<Rightarrow>
          (let me = u_Name (the_user y c) in
           if \<not> snd (RoleOf (the_groups y) i me) then SendMsg c txt_gt_not_member y
           else
             (let recipients = filter (\<lambda>m. m \<noteq> me) (Members (rs 0) (the_groups y) i);
                  req = zero_Message\<lparr>Type := TypeSend, ClientMsgID := ''gc-'' @ itoa_int (clk (rs 1) 0),
                    ChatID := ''group:'' @ i, From := me, Body := body\<rparr>
              in case send b (rs 2) req recipients y of
                   (SendError e, y1) \<Rightarrow> SendMsg c (txt_gt_failed @ send_error_text e @ nl) y1
                 | (Existing ex, y1) \<Rightarrow> SendMsg c (txt_gt_existing @ ServerMsgID ex @ nl) y1
                 | (Saved m, y1) \<Rightarrow>
                     SendMsg c (txt_gt_done @ ServerMsgID m @ nl) (enqueue (ServerMsgID m) y1))))"

definition useIllegal :: "nat \<Rightarrow> string \<Rightarrow> ('d, 'c) sys \<Rightarrow> ('d, 'c) sys" where
  "useIllegal c msg y = SendMsg c (txt_illegal_1 @ TrimSpace msg @ txt_illegal_2) y"

section \<open>Dispatch\<close>

text \<open>The answer to a message sent as JSON or as plain text.\<close>

definition send_ack :: "string \<Rightarrow> Message \<Rightarrow> Message" where
  "send_ack clientMsgID m =
     zero_Message\<lparr>Type := TypeSendAck, ClientMsgID := clientMsgID, ServerMsgID := ServerMsgID m,
       Seq := Seq m\<rparr>"

text \<open>The last branch: a line that is no command is sent to the broadcast chat.\<close>

definition plain_text ::
  "('d, 'c) backend \<Rightarrow> (nat \<Rightarrow> rt) \<Rightarrow> nat \<Rightarrow> string \<Rightarrow> ('d, 'c) sys \<Rightarrow> ('d, 'c) sys" where
  "plain_text b rs c msg y =
     (let req = zero_Message\<lparr>Type := TypeSend, ClientMsgID := ''c-'' @ itoa_int (clk (rs 0) 0),
            From := u_Name (the_user y c), Body := msg\<rparr>
      in case send b (rs 1) req [] y of
           (SendError e, y1) \<Rightarrow> SendMsg c (txt_send_failed @ send_error_text e) y1
         | (Existing ex, y1) \<Rightarrow> SendJSON c (Some (send_ack (ClientMsgID req) ex)) y1
         | (Saved m, y1) \<Rightarrow>
             enqueue (ServerMsgID m) (SendJSON c (Some (send_ack (ClientMsgID req) m)) y1))"

definition DoMessage ::
  "ext \<Rightarrow> ('d, 'c) backend \<Rightarrow> (nat \<Rightarrow> rt) \<Rightarrow> nat \<Rightarrow> string \<Rightarrow> ('d, 'c) sys \<Rightarrow> ('d, 'c) sys" where
  "DoMessage x b rs c msg0 y =
     (let msg = TrimSpace msg0 in
      if msg = [] then y
      else if msg = ''exit'' then useExit b rs c y
      else if msg = ''who'' then useWho (rs 0) c y
      else if msg = ''help'' then useHelp c y
      else if msg = ''stats'' then useStats x b (rs 0) c y
      else if HasPrefix msg ''read|'' then useRead b (rs 0) c msg y
      else if HasPrefix msg ''history|'' then useHistory x b (rs 0) c msg y
      else if HasPrefix msg ''gc|'' then useGroupCreate c msg y
      else if HasPrefix msg ''gj|'' then useGroupJoin c msg y
      else if HasPrefix msg ''gl|'' then useGroupLeave c msg y
      else if HasPrefix msg ''gd|'' then useGroupDelete c msg y
      else if HasPrefix msg ''gk|'' then useGroupKick c msg y
      else if HasPrefix msg ''ga|'' then useGroupGrantAdmin c msg y
      else if HasPrefix msg ''gr|'' then useGroupRevokeAdmin c msg y
      else if HasPrefix msg ''gm|'' then useGroupMembers (rs 0) c msg y
      else if HasPrefix msg ''gt|'' then useGroupTalk b rs c msg y
      else if HasPrefix msg ''rename|'' then useRename c msg y
      else if HasPrefix msg ''to|'' then useChat b rs c msg y
      else if CHR ''|'' \<in> set msg then useIllegal c msg y
      else plain_text b rs c msg y)"

end
