(* ===== verification/Conn_Input.thy ===== *)
theory Conn_Input
  imports Go_Strings Go_Json
begin

text \<open>
  Reading from a connection (\<open>internal/server/conn.go\<close>): \<open>readRawLine\<close> on top of
  \<open>bufio.Reader.ReadLine\<close>, which limits a line to 1024 bytes and skips the rest of a longer
  one, and the decoding of the bytes. The connection is the string of bytes the client will
  still send before the end of the stream.
\<close>

definition MaxMessageLength :: nat where
  "MaxMessageLength = 1024"

definition buf_size :: nat where
  "buf_size = 4096"

text \<open>
  \<open>ReadLine\<close> of \<open>bufio\<close> with its default buffer: a chunk with \<open>isPrefix\<close> when the
  buffer fills up before a newline (a trailing carriage return is put back), otherwise the line
  without its end; \<open>None\<close> at the end of the stream.
\<close>

definition ReadLine :: "string \<Rightarrow> (string \<times> bool) option \<times> string" where
  "ReadLine s =
     (case cut_at CHR 0x0A (take buf_size s) of
        (line, Some _) \<Rightarrow> (Some (drop_cr line, False), drop (Suc (length line)) s)
      | (line, None) \<Rightarrow>
          if length s \<ge> buf_size then
            (if last line = CHR 0x0D then (Some (butlast line, True), drop (buf_size - 1) s)
             else (Some (line, True), drop buf_size s))
          else if s = [] then (None, []) else (Some (s, False), []))"

lemma ReadLine_shorter: "ReadLine s = (Some c, t) \<Longrightarrow> length t < length s"
  by (auto simp: ReadLine_def buf_size_def split: prod.splits option.splits if_splits)
    (auto dest!: cut_at_Some[THEN iffD1] dest: arg_cong[where f = length])

datatype raw_line = RawError | RawTooLong | RawLine string

text \<open>The inner loop that discards the rest of an over-long line: whether it ended regularly.\<close>

function discard :: "string \<Rightarrow> bool \<times> string" where
  "discard s =
     (case ReadLine s of
        (None, t) \<Rightarrow> (False, t)
      | (Some (_, isPrefix), t) \<Rightarrow> (if isPrefix then discard t else (True, t)))"
  by auto
termination
  by (relation "measure length") (auto dest!: sym[of _ "ReadLine _"] dest: ReadLine_shorter)

function read_parts :: "string list \<Rightarrow> nat \<Rightarrow> string \<Rightarrow> raw_line \<times> string" where
  "read_parts parts tot s =
     (case ReadLine s of
        (None, t) \<Rightarrow> (RawError, t)
      | (Some (chunk, isPrefix), t) \<Rightarrow>
          (let tot' = tot + length chunk in
           if tot' > MaxMessageLength then
             (if isPrefix then (case discard t of (ok, u) \<Rightarrow> (if ok then RawTooLong else RawError, u))
              else (RawTooLong, t))
           else if isPrefix then read_parts (parts @ [chunk]) tot' t
           else (RawLine (concat (parts @ [chunk])), t)))"
  by auto
termination
  by (relation "measure (\<lambda>(_, _, s). length s)")
    (auto dest!: sym[of _ "ReadLine _"] dest: ReadLine_shorter)

declare discard.simps [simp del] read_parts.simps [simp del]

definition readRawLine :: "string \<Rightarrow> raw_line \<times> string" where
  "readRawLine s = read_parts [] 0 s"

text \<open>
  \<open>decodeInputText\<close>; the GB18030 decoder of \<open>golang.org/x/text\<close> is a parameter, \<open>None\<close>
  when it reports an error.
\<close>

definition decodeInputText :: "(string \<Rightarrow> string option) \<Rightarrow> string \<Rightarrow> string" where
  "decodeInputText gb18030 b =
     (if b = [] then []
      else if utf8_valid b then b
      else case gb18030 b of
        Some out \<Rightarrow> (if utf8_valid out then out else b)
      | None \<Rightarrow> b)"

section \<open>One line\<close>

lemma ReadLine_line:
  assumes "CHR 0x0A \<notin> set line" and "length line < buf_size"
  shows "ReadLine (line @ CHR 0x0A # rest) = (Some (drop_cr line, False), rest)"
proof -
  have "take buf_size (line @ CHR 0x0A # rest) =
      line @ CHR 0x0A # take (buf_size - Suc (length line)) rest"
    using assms(2) by (simp add: take_Cons')
  then show ?thesis using assms(1) by (simp add: ReadLine_def cut_at_append)
qed

lemma ReadLine_prefix:
  assumes "CHR 0x0A \<notin> set line" and "buf_size \<le> length line"
  obtains k where "ReadLine (line @ t) = (Some (take k line, True), drop k line @ t)"
    and "buf_size - 1 \<le> k" and "k \<le> buf_size"
proof -
  define chunk where "chunk = take buf_size line"
  have chunk: "take buf_size (line @ t) = chunk" "length chunk = buf_size"
    using assms(2) by (simp_all add: chunk_def)
  have "CHR 0x0A \<notin> set chunk" using assms(1) by (auto simp: chunk_def dest: in_set_takeD)
  then have cut: "cut_at CHR 0x0A (take buf_size (line @ t)) = (chunk, None)"
    unfolding chunk(1) by (rule cut_at_absent)
  have size: "buf_size \<le> length (line @ t)" using assms(2) by simp
  show thesis
  proof (cases "last chunk = CHR 0x0D")
    case True
    have "butlast chunk = take (buf_size - 1) line"
      using assms(2) by (simp add: chunk_def butlast_take)
    with True cut size assms(2) show thesis
      by (intro that[of "buf_size - 1"]) (simp_all add: ReadLine_def)
  next
    case False
    with cut size assms(2) show thesis
      by (intro that[of buf_size]) (simp_all add: ReadLine_def chunk_def)
  qed
qed

lemma discard_line: "CHR 0x0A \<notin> set line \<Longrightarrow> discard (line @ CHR 0x0A # rest) = (True, rest)"
proof (induction "length line" arbitrary: line rule: less_induct)
  case less
  show ?case
  proof (cases "length line < buf_size")
    case True
    with less.prems show ?thesis by (subst discard.simps) (simp add: ReadLine_line)
  next
    case False
    then obtain k where k: "ReadLine (line @ CHR 0x0A # rest) =
        (Some (take k line, True), drop k line @ CHR 0x0A # rest)" "buf_size - 1 \<le> k"
      using ReadLine_prefix[OF less.prems, of "CHR 0x0A # rest"] by (metis not_less)
    have "discard (drop k line @ CHR 0x0A # rest) = (True, rest)"
      using less.prems k(2) False
      by (intro less.hyps) (auto simp: buf_size_def dest: in_set_dropD)
    with k(1) show ?thesis by (subst discard.simps) simp
  qed
qed

lemma length_drop_cr: "length (drop_cr s) \<le> length s \<and> length s \<le> Suc (length (drop_cr s))"
  by (simp add: drop_cr_def)

lemma readRawLine_line:
  assumes "CHR 0x0A \<notin> set line"
  shows "readRawLine (line @ CHR 0x0A # rest) =
    (if length (drop_cr line) \<le> MaxMessageLength then RawLine (drop_cr line) else RawTooLong, rest)"
proof (cases "length line < buf_size")
  case True
  with assms show ?thesis
    unfolding readRawLine_def
    by (subst read_parts.simps) (simp add: ReadLine_line Let_def)
next
  case False
  then obtain k where k: "ReadLine (line @ CHR 0x0A # rest) =
      (Some (take k line, True), drop k line @ CHR 0x0A # rest)" "buf_size - 1 \<le> k" "k \<le> buf_size"
    using ReadLine_prefix[OF assms, of "CHR 0x0A # rest"] by (metis not_less)
  have "discard (drop k line @ CHR 0x0A # rest) = (True, rest)"
    using assms by (intro discard_line) (auto dest: in_set_dropD)
  moreover have "length (take k line) > MaxMessageLength"
    using k(2,3) False by (simp add: buf_size_def MaxMessageLength_def)
  moreover have "length (drop_cr line) > MaxMessageLength"
    using False length_drop_cr[of line] by (simp add: buf_size_def MaxMessageLength_def)
  ultimately show ?thesis
    unfolding readRawLine_def using k(1) by (subst read_parts.simps) (simp add: Let_def)
qed

section \<open>The stream\<close>

text \<open>The reading loop of \<open>ManagerMessage\<close>, for \<open>n\<close> rounds or up to the error that ends it.\<close>

fun read_frames :: "nat \<Rightarrow> string \<Rightarrow> raw_line list \<times> string" where
  "read_frames 0 s = ([], s)"
| "read_frames (Suc n) s =
     (case readRawLine s of
        (RawError, t) \<Rightarrow> ([RawError], t)
      | (x, t) \<Rightarrow> (case read_frames n t of (xs, u) \<Rightarrow> (x # xs, u)))"

text \<open>
  C32: framing. However long the lines a client sends, the server sees them one by one and in
  order: a line of at most 1024 bytes (without its end, \<open>\n\<close> or \<open>\r\n\<close>) arrives whole, a
  longer one is reported as too long and skipped completely, and the next line starts where it
  should. The 4096-byte buffer of the reader does not show.
\<close>

theorem lines_framed:
  assumes "list_all (\<lambda>l. CHR 0x0A \<notin> set l) ls"
  shows "read_frames (length ls) (concat (map (\<lambda>l. l @ [CHR 0x0A]) ls) @ rest) =
    (map (\<lambda>l. if length (drop_cr l) \<le> MaxMessageLength then RawLine (drop_cr l) else RawTooLong) ls,
     rest)"
  using assms by (induction ls) (simp_all add: readRawLine_line)

theorem lines_framed_witness:
  "read_frames 3 (''who'' @ [CHR 0x0D, CHR 0x0A] @ replicate 9000 CHR ''x'' @ [CHR 0x0A] @ ''exit'' @
     [CHR 0x0A] @ ''rest'') =
   ([RawLine ''who'', RawTooLong, RawLine ''exit''], ''rest'')"
proof -
  have "drop_cr (replicate 9000 CHR ''x'') = replicate 9000 CHR ''x''"
    by (simp add: drop_cr_def)
  moreover have "drop_cr (''who'' @ [CHR 0x0D]) = ''who''" "drop_cr ''exit'' = ''exit''"
    by (simp_all add: drop_cr_def)
  moreover have "CHR 0x0A \<notin> set (replicate 9000 CHR ''x'')" by simp
  ultimately show ?thesis
    using lines_framed[of "[''who'' @ [CHR 0x0D], replicate 9000 CHR ''x'', ''exit'']" "''rest''"]
    by (simp add: MaxMessageLength_def numeral_3_eq_3 del: read_frames.simps)
qed

end
