(* ===== verification/Connections.thy ===== *)
theory Connections
  imports Commands Conn_Input
begin

text \<open>
  The server side of a connection (\<open>internal/server/conn.go\<close>, \<open>internal/server/messages.go\<close>):
  the protocol messages, the commands before login, the handling of a line, and the process as a
  whole: an event for every thing a goroutine does between two points where it waits.
\<close>

section \<open>Protocol messages (messages.go)\<close>

definition HandleClientSend ::
  "('d, 'c) backend \<Rightarrow> (nat \<Rightarrow> rt) \<Rightarrow> nat \<Rightarrow> Message \<Rightarrow> ('d, 'c) sys \<Rightarrow> ('d, 'c) sys" where
  "HandleClientSend b rs c req0 y =
     (let me = u_Name (the_user y c);
          req1 = (if TrimSpace (From req0) = [] then req0\<lparr>From := me\<rparr> else req0);
          req = (if TrimSpace (ClientMsgID req1) = []
                 then req1\<lparr>ClientMsgID := ''c-'' @ itoa_int (clk (rs 0) 0)\<rparr> else req1);
          recipients = (if To req \<noteq> [] then [To req]
                        else filter (\<lambda>name. name \<noteq> me) (rng (rs 1) (gkeys (OnlineMap (im_srv y)))))
      in case send b (rs 2) req recipients y of
           (SendError e, y1) \<Rightarrow>
             SendJSON c (Some (zero_Message\<lparr>Type := TypeSendAck, ClientMsgID := ClientMsgID req\<rparr>)) y1
         | (Existing ex, y1) \<Rightarrow> SendJSON c (Some (send_ack (ClientMsgID req) ex)) y1
         | (Saved m, y1) \<Rightarrow>
             enqueue (ServerMsgID m) (SendJSON c (Some (send_ack (ClientMsgID req) m)) y1))"

definition HandleMessage ::
  "('d, 'c) backend \<Rightarrow> (nat \<Rightarrow> rt) \<Rightarrow> nat \<Rightarrow> Message \<Rightarrow> ('d, 'c) sys \<Rightarrow> ('d, 'c) sys" where
  "HandleMessage b rs c m y =
     (let me = u_Name (the_user y c) in
      if Type m = TypeSend then
        HandleClientSend b rs c (if From m = [] then m\<lparr>From := me\<rparr> else m) y
      else if Type m = TypeDeliverAck then
        (if ServerMsgID m \<noteq> [] then on_srv (srv_HandleDeliverAck b (rs 0) me (ServerMsgID m)) y else y)
      else if Type m = TypeReadAck then
        (if ServerMsgID m \<noteq> [] then on_srv (srv_HandleReadAck b (rs 0) me (ServerMsgID m)) y else y)
      else y)"

section \<open>Lines (conn.go)\<close>

text \<open>
  \<open>strings.HasPrefix(strings.ToLower(s), p)\<close> for lower-case ASCII letters and signs: besides
  the ASCII capitals, two code points have a lower case in ASCII, the dotted capital I and the
  Kelvin sign.
\<close>

fun lower_prefix :: "string \<Rightarrow> string \<Rightarrow> bool" where
  "lower_prefix [] s = True"
| "lower_prefix (p # ps) [] = False"
| "lower_prefix (p # ps) (c # s) =
     (if (if CHR ''A'' \<le> c \<and> c \<le> CHR ''Z'' then char_of (byte c + 32) else c) = p
      then lower_prefix ps s
      else if p = CHR ''i'' \<and> HasPrefix (c # s) [CHR 0xC4, CHR 0xB0] then lower_prefix ps (drop 1 s)
      else if p = CHR ''k'' \<and> HasPrefix (c # s) [CHR 0xE2, CHR 0x84, CHR 0xAA]
        then lower_prefix ps (drop 2 s)
      else False)"

text \<open>
  \<open>handleAuthCommand\<close>, which always returns true; the result says whether the connection is
  reported alive.
\<close>

definition handleAuthCommand ::
  "ext \<Rightarrow> ('d, 'c) backend \<Rightarrow> (nat \<Rightarrow> rt) \<Rightarrow> nat \<Rightarrow> string \<Rightarrow> ('d, 'c) sys \<Rightarrow> bool \<times> ('d, 'c) sys" where
  "handleAuthCommand x b rs c msgStr y =
     (if lower_prefix ''register|'' msgStr then
        (case SplitN CHR ''|'' 3 msgStr of
           [_, name, password] \<Rightarrow>
             (case Register x b rs c (TrimSpace name) password y of
                (Some e, y1) \<Rightarrow> (False, SendMsg c (txt_register_failed @ e @ nl) y1)
              | (None, y1) \<Rightarrow> (True, SendMsg c (txt_registered @ u_Name (the_user y1 c) @ nl) y1))
         | _ \<Rightarrow> (False, SendMsg c txt_register_usage y))
      else if lower_prefix ''login|'' msgStr then
        (case SplitN CHR ''|'' 3 msgStr of
           [_, name, password] \<Rightarrow>
             (if TrimSpace password = [] then (False, SendMsg c txt_login_usage y)
              else case Login x b rs c (TrimSpace name) (TrimSpace password) y of
                (Some e, y1) \<Rightarrow> (False, SendMsg c (txt_login_failed @ e @ nl) y1)
              | (None, y1) \<Rightarrow> (True, SendMsg c (txt_logged_in @ u_Name (the_user y1 c) @ nl) y1))
         | _ \<Rightarrow> (False, SendMsg c txt_login_usage y))
      else (False, SendMsg c txt_auth_first y))"

definition processRawLine ::
  "ext \<Rightarrow> ('d, 'c) backend \<Rightarrow> (nat \<Rightarrow> rt) \<Rightarrow> nat \<Rightarrow> string \<Rightarrow> ('d, 'c) sys \<Rightarrow> bool \<times> ('d, 'c) sys" where
  "processRawLine x b rs c raw y =
     (let msgStr = TrimSpace (decodeInputText (x_gb18030 x) raw) in
      if msgStr = [] then (False, y)
      else
        (let y1 = on_srv markInboundMessage y in
         if \<not> Authenticated (the_user y1 c) then handleAuthCommand x b rs c msgStr y1
         else if HasPrefix msgStr ''{'' then
           (case unmarshal_message msgStr of
              Some pm \<Rightarrow> (True, HandleMessage b rs c pm y1)
            | None \<Rightarrow> (False, SendMsg c (txt_bad_json @ x_json_error x msgStr) y1))
         else (True, DoMessage x b rs c msgStr y1)))"

text \<open>One round of \<open>ManagerMessage\<close> on what \<open>readRawLine\<close> returned.\<close>

definition manager_round ::
  "ext \<Rightarrow> ('d, 'c) backend \<Rightarrow> (nat \<Rightarrow> rt) \<Rightarrow> nat \<Rightarrow> raw_line \<Rightarrow> ('d, 'c) sys \<Rightarrow> bool \<times> ('d, 'c) sys" where
  "manager_round x b rs c line y =
     (case line of
        RawError \<Rightarrow> (False, Logout b rs c y)
      | RawTooLong \<Rightarrow> (False, SendMsg c (txt_too_long_1 @ itoa MaxMessageLength @ txt_too_long_2) y)
      | RawLine raw \<Rightarrow> processRawLine x b rs c raw y)"

text \<open>The start of \<open>Handler\<close>, and what it does after 300 seconds without a sign of life.\<close>

definition Handler_start :: "string \<Rightarrow> ('d, 'c) sys \<Rightarrow> nat \<times> ('d, 'c) sys" where
  "Handler_start remote y =
     (case NewUser remote (on_srv handler_enter y) of (c, y1) \<Rightarrow> (c, SendMsg c txt_prompt_auth y1))"

definition Handler_timeout ::
  "('d, 'c) backend \<Rightarrow> (nat \<Rightarrow> rt) \<Rightarrow> nat \<Rightarrow> ('d, 'c) sys \<Rightarrow> ('d, 'c) sys" where
  "Handler_timeout b rs c y = on_srv handler_leave (Logout b rs c (SendMsg c txt_kicked y))"

section \<open>The process\<close>

text \<open>
  The map the delivery worker is given (\<open>src/main.go\<close>): every online name with its sender,
  which is never nil.
\<close>

definition online_map :: "('d, 'c) server \<Rightarrow> bool gomap" where
  "online_map v = map (\<lambda>(name, info). (name, True)) (OnlineMap v)"

text \<open>\<open>sender.SendJSON(deliver)\<close> for the messages of a round, on the map read at its start.\<close>

definition hand_out ::
  "OnlineInfo gomap \<Rightarrow> (string \<times> Message) list \<Rightarrow> ('d, 'c) sys \<Rightarrow> ('d, 'c) sys" where
  "hand_out online out y =
     fold (\<lambda>(to, m) y1. case map_of online to of
         None \<Rightarrow> y1 | Some info \<Rightarrow> SendJSON (sender info) (Some m) y1) out y"

text \<open>One round of the delivery goroutine.\<close>

definition deliver ::
  "ext \<Rightarrow> ('d, 'c) backend \<Rightarrow> (nat \<Rightarrow> rt) \<Rightarrow> ('d, 'c) sys \<Rightarrow> ('d, 'c) sys" where
  "deliver x b rs y =
     (case srv_worker (im_srv y) of
        None \<Rightarrow> y
      | Some w \<Rightarrow>
          (case deliver_round (InMemoryStore b) rs (max_retry_setting (x_env x))
                  (retry_delay_setting (x_env x)) (online_map (im_srv y)) (w, the_store (im_srv y)) of
             (out, w', s) \<Rightarrow>
               hand_out (OnlineMap (im_srv y)) out (on_srv (\<lambda>v. set_store s (v\<lparr>srv_worker := Some w'\<rparr>)) y)))"

definition retry :: "('d, 'c) backend \<Rightarrow> rt \<Rightarrow> ('d, 'c) sys \<Rightarrow> ('d, 'c) sys" where
  "retry b r y =
     (case srv_worker (im_srv y) of
        None \<Rightarrow> y
      | Some w \<Rightarrow>
          (case retry_tick (InMemoryStore b) r (w, the_store (im_srv y)) of
             (w', s) \<Rightarrow> on_srv (\<lambda>v. set_store s (v\<lparr>srv_worker := Some w'\<rparr>)) y))"

text \<open>
  The events: a connection from a remote address, a round of \<open>ManagerMessage\<close>, of
  \<open>ListenMessage\<close>, the idle timeout and the return of a handler, a \<open>go u.Logout()\<close>, a
  heartbeat, and a round of each of the worker's two goroutines.
\<close>

datatype event =
    Connect string
  | Line nat raw_line
  | Listen nat "nat option"
  | Idle nat
  | Leave_handler
  | Run_logout
  | Heartbeat nat
  | Deliver
  | Retry

definition valid_event :: "event \<Rightarrow> ('d, 'c) sys \<Rightarrow> bool" where
  "valid_event e y = (case e of
     Line c _ \<Rightarrow> c < length (conns y) | Listen c _ \<Rightarrow> c < length (conns y)
   | Idle c \<Rightarrow> c < length (conns y) | Heartbeat c \<Rightarrow> c < length (conns y) | _ \<Rightarrow> True)"

definition exec_event ::
  "ext \<Rightarrow> ('d, 'c) backend \<Rightarrow> (nat \<Rightarrow> rt) \<Rightarrow> event \<Rightarrow> ('d, 'c) sys \<Rightarrow> ('d, 'c) sys" where
  "exec_event x b rs e y = (case e of
     Connect remote \<Rightarrow>
       (case accept_round (rs 0) (Some remote) (im_srv y) of
          (Some _, v) \<Rightarrow> y\<lparr>im_srv := v\<rparr>
        | (None, v) \<Rightarrow> snd (Handler_start remote (y\<lparr>im_srv := v\<rparr>)))
   | Line c line \<Rightarrow> snd (manager_round x b rs c line y)
   | Listen c w \<Rightarrow> listen_round b rs w c y
   | Idle c \<Rightarrow> Handler_timeout b rs c y
   | Leave_handler \<Rightarrow> on_srv handler_leave y
   | Run_logout \<Rightarrow> (case logouts y of [] \<Rightarrow> y | c # cs \<Rightarrow> Logout b rs c (y\<lparr>logouts := cs\<rparr>))
   | Heartbeat c \<Rightarrow> heartbeat_tick b c y
   | Deliver \<Rightarrow> deliver x b rs y
   | Retry \<Rightarrow> retry b (rs 0) y)"

text \<open>The process after \<open>main\<close> has set it up, on the given database and cache.\<close>

definition boot :: "env \<Rightarrow> bool \<Rightarrow> 'd \<Rightarrow> 'c \<Rightarrow> int \<Rightarrow> ('d, 'c) backend \<Rightarrow> rt \<Rightarrow> ('d, 'c) sys" where
  "boot e dbset d c0 now b r =
     \<lparr>im_srv = Start b r (SetWorker NewWorker (NewServer e now (NewInMemoryStore dbset d c0))),
      conns = [], logouts = [], crashed = False\<rparr>"

text \<open>
  What can happen: any event that names an existing connection, with any clock readings and
  iteration orders, and with any outside world that keeps the environment.
\<close>

inductive step :: "('d, 'c) backend \<Rightarrow> env \<Rightarrow> ('d, 'c) sys \<Rightarrow> ('d, 'c) sys \<Rightarrow> bool"
  for b :: "('d, 'c) backend" and e :: env where
  step_event: "valid_event ev y \<Longrightarrow> x_env x = e \<Longrightarrow> step b e y (exec_event x b rs ev y)"

inductive_cases step_elim: "step b e y y'"

definition reachable ::
  "('d, 'c) backend \<Rightarrow> env \<Rightarrow> bool \<Rightarrow> 'd \<Rightarrow> 'c \<Rightarrow> ('d, 'c) sys \<Rightarrow> bool" where
  "reachable b e dbset d c0 y \<longleftrightarrow> (\<exists>now r. (step b e)\<^sup>*\<^sup>* (boot e dbset d c0 now b r) y)"

end
