(* ===== verification/Session_Inv.thy ===== *)
theory Session_Inv
  imports Connections
begin

text \<open>
  What every run of the process keeps: the server's parts stay well-formed, every entry of the
  online map belongs to an authenticated connection of that name and address, no channel exceeds
  its capacity, and a closed session is a logged-out one.
\<close>

section \<open>The server's parts\<close>

definition srv_ok :: "('d, 'c) server \<Rightarrow> bool" where
  "srv_ok v \<longleftrightarrow> (\<forall>w. srv_worker v = Some w \<longrightarrow> queue_inv w) \<and> groups_wf (groupManager v) \<and>
     store_wf (the_store v)"

text \<open>
  Most server calls of a session leave the online map alone and keep the parts well-formed. This
  contract is stated once; what it means for the whole process follows below.
\<close>

locale quiet_op =
  fixes f :: "('d, 'c) server \<Rightarrow> ('d, 'c) server"
  assumes keeps_ok: "srv_ok v \<Longrightarrow> srv_ok (f v)"
    and keeps_online: "OnlineMap (f v) = OnlineMap v"

text \<open>
  The calls of the store that the process makes on their own. It saves only as part of a send or of
  a system event.
\<close>

fun plain_call :: "store_op \<Rightarrow> bool" where
  "plain_call (OpSave m rs) = False"
| "plain_call (OpSaveMessage m) = False"
| "plain_call (OpSaveDelivery i to) = False"
| "plain_call op = True"

text \<open>What the process keeps of its store, with whole sends and system events as single accesses.\<close>

locale served_store =
  fixes st :: "'s Store"
    and wf :: "'s \<Rightarrow> bool"
  assumes wf_plain: "plain_call (snd x) \<Longrightarrow> wf s \<Longrightarrow> wf (call_store st x s)"
    and wf_send: "wf (l_store l) \<Longrightarrow> wf (l_store (snd (ProcessSend st r req rs l)))"
    and wf_event: "wf (l_store l) \<Longrightarrow> wf (l_store (snd (system_event st r body rs l)))"

context kept_store
begin

lemma wf_parts:
  "wf s \<Longrightarrow> wf (snd (i_NextSeq st c s))"
  "wf s \<Longrightarrow> wf (snd (i_SaveMessageWithRecipients st m rs s))"
  "wf s \<Longrightarrow> wf (snd (i_GetMessageByClientID st f k s))"
  using wf_call[of s "(undefined, OpNextSeq c)"] wf_call[of s "(undefined, OpSave m rs)"]
    wf_call[of s "(undefined, OpByClient f k)"]
  by simp_all

lemma commit_kept:
  assumes "wf (l_store l)"
  shows "wf (l_store (snd (send_commit st r q rs l)))"
proof -
  obtain n s1 where s1: "i_NextSeq st (chat_of q) (l_store l) = (n, s1)" by fastforce
  obtain i l1 where l1: "GenerateServerMsgID (clk r 1) ''s'' (l\<lparr>l_store := s1\<rparr>) = (i, l1)" by fastforce
  define msg where "msg = zero_Message\<lparr>Type := TypeDeliver, ServerMsgID := i,
    ClientMsgID := ClientMsgID q, ChatID := chat_of q, From := From q, To := To q, Seq := n,
    Body := Body q, Ts := unix (clk r 2)\<rparr>"
  obtain e s2 where s2: "i_SaveMessageWithRecipients st (Some msg) rs (l_store l1) = (e, s2)"
    by fastforce
  have "l_store l1 = s1" using Generate_frame(1)[of "clk r 1" "''s''" "l\<lparr>l_store := s1\<rparr>"] l1
    by (simp del: One_nat_def)
  then have "wf s2" using wf_parts(1)[OF assms, of "chat_of q"] wf_parts(2)[of s1 "Some msg" rs] s1 s2 by simp
  moreover have "l_store (snd (send_commit st r q rs l)) = s2"
    unfolding send_commit_def s1 l1 prod.case Let_def msg_def[symmetric] s2 by (cases e) simp_all
  ultimately show ?thesis by simp
qed

lemma send_kept:
  assumes "wf (l_store l)"
  shows "wf (l_store (snd (ProcessSend st r req rs l)))"
proof -
  have "wf (l_store (snd (send_check st r req l)))"
    using assms by (simp add: send_check_def case_prod_beta Let_def wf_parts split: option.split)
  then show ?thesis by (simp add: ProcessSend_def commit_kept case_prod_beta split: sum.split)
qed

lemma event_kept: "wf (l_store l) \<Longrightarrow> wf (l_store (snd (system_event st r body rs l)))"
  by (simp add: system_event_def Let_def case_prod_beta wf_parts)

end

sublocale kept_store \<subseteq> served_store st wf
  by unfold_locales (rule wf_call send_kept event_kept; assumption)+

context served_store
begin

lemma wf_calls:
  "wf s \<Longrightarrow> wf (snd (i_GetMessageByClientID st f k s))"
  "wf s \<Longrightarrow> wf (snd (i_GetMessageByServerID st i s))"
  "wf s \<Longrightarrow> wf (snd (i_GetRecipients st r i s))"
  "wf s \<Longrightarrow> wf (snd (i_MarkDeliverySent st r i to err s))"
  "wf s \<Longrightarrow> wf (snd (i_MarkDeliveryAcked st r i to s))"
  "wf s \<Longrightarrow> wf (snd (i_MarkDeliveryRead st r i to s))"
  "wf s \<Longrightarrow> wf (snd (i_ScheduleRetry st r i to err mx base s))"
  "wf s \<Longrightarrow> wf (snd (i_GetDueRetryServerMsgIDs st r n s))"
  "wf s \<Longrightarrow> wf (snd (i_DeliveryStats st s))"
  "wf s \<Longrightarrow> wf (snd (i_RecoverPendingServerMsgIDs st r n s))"
  "wf s \<Longrightarrow> wf (snd (i_ListPendingServerMsgIDsByUser st r u n s))"
  "wf s \<Longrightarrow> wf (snd (i_GetC2CHistory st r u v n s))"
  using wf_plain[of "(undefined, OpByClient f k)" s] wf_plain[of "(undefined, OpByServer i)" s]
    wf_plain[of "(r, OpRecipients i)" s] wf_plain[of "(r, OpSent i to err)" s]
    wf_plain[of "(r, OpAcked i to)" s] wf_plain[of "(r, OpRead i to)" s]
    wf_plain[of "(r, OpRetry i to err mx base)" s] wf_plain[of "(r, OpDue n)" s]
    wf_plain[of "(undefined, OpStats)" s] wf_plain[of "(r, OpRecover n)" s]
    wf_plain[of "(r, OpPending u n)" s] wf_plain[of "(r, OpHistory u v n)" s]
  by simp_all

lemma wf_deliver_loop:
  "wf s \<Longrightarrow> wf (snd (deliver_loop st rs mx base online i msg k tos s))"
  by (induction tos arbitrary: k s) (simp_all add: wf_calls case_prod_beta split: option.split)

lemma wf_deliver_one: "wf s \<Longrightarrow> wf (snd (deliver_one st rs mx base online i s))"
  by (auto simp: deliver_one_def case_prod_beta split: option.split intro!: wf_deliver_loop wf_calls)

lemma wf_deliver_round: "wf s \<Longrightarrow> wf (snd (snd (deliver_round st rs mx base online (w, s))))"
  by (simp add: deliver_round_def case_prod_beta wf_deliver_one split: list.split)

end

lemma enqueue_all_inv: "queue_inv w \<Longrightarrow> queue_inv (enqueue_all ids w)"
  unfolding enqueue_all_def by (induction ids arbitrary: w) (simp_all add: queue_inv_Enqueue)

lemma srv_ok_store: "srv_ok v \<Longrightarrow> store_wf s \<Longrightarrow> srv_ok (set_store s v)"
  by (simp add: srv_ok_def set_store_def)

lemma srv_ok_logic: "srv_ok v \<Longrightarrow> store_wf (l_store l) \<Longrightarrow> srv_ok (v\<lparr>logic := l\<rparr>)"
  by (simp add: srv_ok_def)

lemma online_set_store [simp]: "OnlineMap (set_store s v) = OnlineMap v"
  by (simp add: set_store_def)

interpretation send_op: quiet_op "\<lambda>v. snd (srv_ProcessSend b r req rs v)" for b r req rs
  by unfold_locales
    (simp_all add: srv_ProcessSend_def case_prod_beta srv_ok_logic cs.wf_send srv_ok_def)

interpretation deliver_ack: quiet_op "srv_HandleDeliverAck b r u i" for b r u i
  by unfold_locales
    (simp_all add: srv_HandleDeliverAck_def HandleDeliverAck_def srv_ok_def cs.wf_calls)

interpretation read_ack: quiet_op "srv_HandleReadAck b r u i" for b r u i
  by unfold_locales (simp_all add: srv_HandleReadAck_def HandleReadAck_def srv_ok_def cs.wf_calls)

interpretation enqueue_op: quiet_op "srv_EnqueueServerMsg i" for i
  by unfold_locales (auto simp: srv_EnqueueServerMsg_def srv_ok_def queue_inv_Enqueue)

interpretation pending_op: quiet_op "srv_EnqueuePendingForUser b r u n" for b r u n
  by unfold_locales
    (auto simp: srv_EnqueuePendingForUser_def EnqueuePendingForUser_def srv_ok_def enqueue_all_inv
      set_store_def cs.wf_calls case_prod_beta split: option.split)

interpretation event_op: quiet_op "\<lambda>v. snd (BroadcastSystemEvent b r body who v)" for b r body who
proof
  fix v :: "('a, 'b) server"
  show "srv_ok (snd (BroadcastSystemEvent b r body who v))" if "srv_ok v"
    using that unfolding BroadcastSystemEvent_def case_prod_beta snd_conv
    by (intro enqueue_op.keeps_ok srv_ok_logic) (simp_all add: cs.wf_event srv_ok_def)
qed (simp add: BroadcastSystemEvent_def case_prod_beta enqueue_op.keeps_online)

interpretation history_op: quiet_op "\<lambda>v. snd (srv_GetC2CHistory b r u w n v)" for b r u w n
proof
  fix v :: "('a, 'b) server"
  show "srv_ok (snd (srv_GetC2CHistory b r u w n v))" if "srv_ok v"
    using that cs.wf_calls(12)[of "the_store v" b r u w n]
    by (simp add: srv_GetC2CHistory_def case_prod_beta srv_ok_store srv_ok_def InMemoryStore_def
        set_store_def)
qed (simp add: srv_GetC2CHistory_def case_prod_beta)

interpretation stats_op: quiet_op "\<lambda>v. snd (SnapshotStats b r v)" for b r
proof
  fix v :: "('a, 'b) server"
  show "srv_ok (snd (SnapshotStats b r v))" if "srv_ok v"
    using that cs.wf_calls(9)[of "the_store v" b]
    by (simp add: SnapshotStats_def Let_def case_prod_beta srv_ok_def InMemoryStore_def set_store_def)
qed (simp add: SnapshotStats_def Let_def case_prod_beta)

interpretation inbound_op: quiet_op markInboundMessage
  by unfold_locales (simp_all add: markInboundMessage_def srv_ok_def)

interpretation outbound_op: quiet_op markOutboundMessage
  by unfold_locales (simp_all add: markOutboundMessage_def srv_ok_def)

interpretation enter_op: quiet_op handler_enter
  by unfold_locales (simp_all add: handler_enter_def srv_ok_def)

interpretation leave_op: quiet_op handler_leave
  by unfold_locales (simp_all add: handler_leave_def srv_ok_def)

interpretation accept_op: quiet_op "\<lambda>v. snd (accept_round r remote v)" for r remote
  by unfold_locales (simp_all add: accept_round_def srv_ok_def split: prod.split option.split)

text \<open>Changes of the two services only: the cache keys of presence and the account tables.\<close>

interpretation cache_op: quiet_op "\<lambda>v. set_store ((the_store v)\<lparr>cache := g v\<rparr>) v" for g
  by unfold_locales (simp_all add: srv_ok_def set_store_def store_wf_def)

text \<open>A tick of the retry worker and a round of the delivery goroutine.\<close>

interpretation retry_op: quiet_op "\<lambda>v. case srv_worker v of None \<Rightarrow> v
    | Some w \<Rightarrow> set_store (snd (retry_tick (InMemoryStore b) r (w, the_store v)))
        (v\<lparr>srv_worker := Some (fst (retry_tick (InMemoryStore b) r (w, the_store v)))\<rparr>)" for b r
  by unfold_locales
    (auto simp: srv_ok_def set_store_def retry_tick_def case_prod_beta enqueue_all_inv cs.wf_calls
      split: option.split)

lemma queue_inv_deliver_round:
  assumes "queue_inv w"
  shows "queue_inv (fst (snd (deliver_round st rs mx base online (w, s))))"
proof (cases "deliverQueue w")
  case Nil
  with assms show ?thesis by (simp add: deliver_round_def)
next
  case (Cons i q)
  have "queue_inv (unmark i (w\<lparr>deliverQueue := q\<rparr>))"
  proof (rule queue_inv_leave[OF assms])
    show "mset (pipeline w) = add_mset i (mset (pipeline (unmark i (w\<lparr>deliverQueue := q\<rparr>))))"
      by (simp add: pipeline_def unmark_def Cons split: option.split)
    show "length (deliverQueue (unmark i (w\<lparr>deliverQueue := q\<rparr>))) \<le> queue_cap"
      using assms Cons by (simp add: unmark_def queue_inv_def)
  qed (simp add: unmark_def)
  with Cons show ?thesis by (simp add: deliver_round_def case_prod_beta)
qed

section \<open>Presence and channels\<close>

definition presence_ok :: "user list \<Rightarrow> OnlineInfo gomap \<Rightarrow> bool" where
  "presence_ok us m \<longleftrightarrow> (\<forall>name info. map_of m name = Some info \<longrightarrow>
     name \<noteq> [] \<and> sender info < length us \<and> u_Name (us ! sender info) = name \<and>
     Authenticated (us ! sender info) \<and> addr info = u_Addr (us ! sender info))"

definition box_ok :: "user \<Rightarrow> bool" where
  "box_ok u \<longleftrightarrow> length (C u) \<le> chan_cap \<and> (isClosed u \<longrightarrow> loggedOut u) \<and>
     (heartbeatCancel u \<noteq> None \<longrightarrow> Authenticated u)"

definition sys_inv :: "('d, 'c) sys \<Rightarrow> bool" where
  "sys_inv y \<longleftrightarrow> srv_ok (im_srv y) \<and> presence_ok (conns y) (OnlineMap (im_srv y)) \<and>
     (\<forall>u \<in> set (conns y). box_ok u) \<and> set (logouts y) \<subseteq> {..<length (conns y)}"

context quiet_op
begin

lemma sys_inv_on_srv [simp, intro]: "sys_inv y \<Longrightarrow> sys_inv (on_srv f y)"
  by (simp add: sys_inv_def on_srv_def keeps_ok keeps_online)

lemma sys_inv_set_srv: "sys_inv y \<Longrightarrow> sys_inv (y\<lparr>im_srv := f (im_srv y)\<rparr>)"
  by (simp add: sys_inv_def keeps_ok keeps_online)

end

text \<open>Projections of the two ways to change the state.\<close>

lemma sys_frame [simp]:
  "im_srv (on_srv g y) = g (im_srv y)" "conns (on_srv g y) = conns y"
  "logouts (on_srv g y) = logouts y" "crashed (on_srv g y) = crashed y"
  "im_srv (upd c f y) = im_srv y" "conns (upd c f y) = (conns y)[c := f (conns y ! c)]"
  "logouts (upd c f y) = logouts y" "crashed (upd c f y) = crashed y"
  by (simp_all add: on_srv_def upd_def)

text \<open>What identifies a session; sending, broadcasting and the heartbeat leave it alone.\<close>

definition ident :: "user \<Rightarrow> string \<times> string \<times> bool \<times> bool \<times> bool" where
  "ident u = (u_Name u, u_Addr u, Authenticated u, isClosed u, loggedOut u)"

definition idents :: "('d, 'c) sys \<Rightarrow> (string \<times> string \<times> bool \<times> bool \<times> bool) list" where
  "idents y = map ident (conns y)"

lemma idents_length: "idents y' = idents y \<Longrightarrow> length (conns y') = length (conns y)"
  unfolding idents_def by (rule map_eq_imp_length_eq)

lemma idents_nth: "idents y' = idents y \<Longrightarrow> c < length (conns y) \<Longrightarrow> ident (the_user y' c) = ident (the_user y c)"
  unfolding idents_def by (metis map_eq_imp_length_eq nth_map)

lemma idents_on_srv [simp]: "idents (on_srv g y) = idents y"
  by (simp add: idents_def)

lemma idents_set_srv [simp]: "idents (y\<lparr>im_srv := v\<rparr>) = idents y"
  by (simp add: idents_def)

lemma idents_logouts [simp]: "idents (y\<lparr>logouts := cs\<rparr>) = idents y"
  by (simp add: idents_def)

lemma idents_crashed [simp]: "idents (y\<lparr>crashed := k\<rparr>) = idents y"
  by (simp add: idents_def)

lemma idents_upd: "ident (f (the_user y c)) = ident (the_user y c) \<Longrightarrow> idents (upd c f y) = idents y"
  by (cases "c < length (conns y)") (simp_all add: idents_def map_update list_update_same_conv list_update_beyond)

lemma idents_SendMsg [simp]: "idents (SendMsg c m y) = idents y"
  by (simp add: SendMsg_def idents_upd ident_def)

lemma idents_SendJSON [simp]: "idents (SendJSON c m y) = idents y"
  by (simp add: SendJSON_def split: option.split)

lemma idents_on_cache [simp]: "idents (on_cache g y) = idents y"
  by (simp add: on_cache_def)

lemma idents_heartbeat [simp]:
  "idents (startOnlineHeartbeat x b c y) = idents y"
  "idents (stopOnlineHeartbeat b c y) = idents y"
  by (simp_all add: startOnlineHeartbeat_def stopOnlineHeartbeat_def Let_def idents_upd ident_def
      split: option.split)

lemma idents_broadcast [simp]: "idents (snd (broadcast b r body who y)) = idents y"
  by (simp add: broadcast_def case_prod_beta)

lemma idents_on_store [simp]: "idents (snd (on_store g y)) = idents y"
  by (simp add: on_store_def case_prod_beta)

lemma idents_Online [simp]: "idents (Online x b rs c y) = idents y"
  by (simp add: Online_def Let_def case_prod_beta)

lemma idents_Offline [simp]: "idents (Offline b rs c y) = idents y"
  by (simp add: Offline_def Let_def case_prod_beta)

section \<open>Preservation\<close>

lemma sys_inv_upd:
  assumes "sys_inv y"
    and "c < length (conns y) \<Longrightarrow> u_Name (f (the_user y c)) = u_Name (the_user y c) \<and>
      u_Addr (f (the_user y c)) = u_Addr (the_user y c) \<and>
      (Authenticated (the_user y c) \<longrightarrow> Authenticated (f (the_user y c)))"
    and "c < length (conns y) \<Longrightarrow> box_ok (the_user y c) \<Longrightarrow> box_ok (f (the_user y c))"
  shows "sys_inv (upd c f y)"
proof (cases "c < length (conns y)")
  case True
  have "presence_ok ((conns y)[c := f (the_user y c)]) (OnlineMap (im_srv y))"
    using assms(1) assms(2)[OF True] True
    by (auto simp: sys_inv_def presence_ok_def nth_list_update)
  moreover have "\<forall>u \<in> set ((conns y)[c := f (the_user y c)]). box_ok u"
    using assms(1) assms(3)[OF True] True nth_mem[OF True]
    by (auto simp: sys_inv_def dest!: set_update_subset_insert[THEN subsetD])
  ultimately show ?thesis using assms(1) by (simp add: sys_inv_def)
qed (use assms(1) in \<open>simp add: sys_inv_def list_update_beyond\<close>)

text \<open>No entry of the online map points to the connection.\<close>

definition no_entry :: "nat \<Rightarrow> ('d, 'c) sys \<Rightarrow> bool" where
  "no_entry c y \<longleftrightarrow> (\<forall>name info. map_of (OnlineMap (im_srv y)) name = Some info \<longrightarrow> sender info \<noteq> c)"

lemma sys_inv_rename:
  assumes "sys_inv y" and "no_entry c y"
    and "c < length (conns y) \<Longrightarrow> box_ok (the_user y c) \<Longrightarrow> box_ok (f (the_user y c))"
  shows "sys_inv (upd c f y)"
proof (cases "c < length (conns y)")
  case True
  have "presence_ok ((conns y)[c := f (the_user y c)]) (OnlineMap (im_srv y))"
    using assms(1,2) True by (auto simp: sys_inv_def presence_ok_def no_entry_def nth_list_update)
  moreover have "\<forall>u \<in> set ((conns y)[c := f (the_user y c)]). box_ok u"
    using assms(1) assms(3)[OF True] nth_mem[OF True]
    by (auto simp: sys_inv_def dest!: set_update_subset_insert[THEN subsetD])
  ultimately show ?thesis using assms(1) by (simp add: sys_inv_def)
qed (use assms(1) in \<open>simp add: sys_inv_def list_update_beyond\<close>)

lemma no_entry_unauthenticated:
  "sys_inv y \<Longrightarrow> \<not> Authenticated (the_user y c) \<Longrightarrow> no_entry c y"
  by (auto simp: sys_inv_def presence_ok_def no_entry_def)

lemma srv_ok_presence:
  "srv_ok (UnregisterOnline n v) = srv_ok v" "srv_ok (RegisterOnline n s a v) = srv_ok v"
  by (simp_all add: srv_ok_def UnregisterOnline_def RegisterOnline_def split: option.split)

lemma sys_inv_unregister [simp]: "sys_inv y \<Longrightarrow> sys_inv (on_srv (UnregisterOnline n) y)"
  by (auto simp: sys_inv_def srv_ok_presence) (auto simp: UnregisterOnline_def presence_ok_def)

lemma no_entry_unregister:
  assumes "sys_inv y"
  shows "no_entry c (on_srv (UnregisterOnline (u_Name (the_user y c))) y)"
  using assms by (auto simp: no_entry_def UnregisterOnline_def sys_inv_def presence_ok_def)

lemma sys_inv_register:
  assumes "sys_inv y" and "c < length (conns y)" and "Authenticated (the_user y c)"
    and "n = u_Name (the_user y c)" and "a = u_Addr (the_user y c)"
  shows "sys_inv (on_srv (RegisterOnline n (Some c) a) y)"
  using assms by (auto simp: sys_inv_def srv_ok_presence)
    (auto simp: RegisterOnline_def presence_ok_def)

lemma sys_inv_SendMsg [simp]:
  assumes "sys_inv y" and "c < length (conns y)"
  shows "sys_inv (SendMsg c m y)"
proof -
  have "sys_inv (upd c (\<lambda>u. u\<lparr>C := C u @ [m]\<rparr>) y)" if "length (C (the_user y c)) < chan_cap"
    using assms(1) that by (intro sys_inv_upd) (auto simp: box_ok_def)
  moreover have "sys_inv (y\<lparr>logouts := logouts y @ [c]\<rparr>)"
    using assms by (auto simp: sys_inv_def)
  ultimately show ?thesis using assms by (simp add: SendMsg_def outbound_op.sys_inv_on_srv)
qed

lemma sys_inv_SendJSON [simp]: "sys_inv y \<Longrightarrow> c < length (conns y) \<Longrightarrow> sys_inv (SendJSON c m y)"
  by (simp add: SendJSON_def split: option.split)

lemma sys_inv_on_cache [simp]: "sys_inv y \<Longrightarrow> sys_inv (on_cache g y)"
  unfolding on_cache_def by (rule cache_op.sys_inv_on_srv)

lemma sys_inv_broadcast [simp]: "sys_inv y \<Longrightarrow> sys_inv (snd (broadcast b r body who y))"
  by (simp add: broadcast_def case_prod_beta event_op.sys_inv_set_srv)

lemma sys_inv_crashed [simp]: "sys_inv (y\<lparr>crashed := k\<rparr>) = sys_inv y"
  by (simp add: sys_inv_def)

lemma sys_inv_heartbeat:
  assumes "sys_inv y"
  shows "sys_inv (upd c (\<lambda>u. u\<lparr>heartbeatCancel := None\<rparr>) y)"
    and "Authenticated (the_user y c) \<Longrightarrow> sys_inv (upd c (\<lambda>u. u\<lparr>heartbeatCancel := Some hb\<rparr>) y)"
  using assms by (auto intro!: sys_inv_upd simp: box_ok_def)

lemma sys_inv_startOnlineHeartbeat:
  assumes "sys_inv y" and "Authenticated (the_user y c)"
  shows "sys_inv (startOnlineHeartbeat x b c y)"
proof -
  let ?y0 = "upd c (\<lambda>u. u\<lparr>heartbeatCancel := None\<rparr>) y"
  have "sys_inv ?y0" using assms(1) by (rule sys_inv_heartbeat)
  moreover have "Authenticated (the_user (on_cache g ?y0) c)" for g
    using assms(2) by (cases "c < length (conns y)") (simp_all add: on_cache_def list_update_beyond)
  ultimately show ?thesis
    by (auto simp: startOnlineHeartbeat_def Let_def split: option.split
        intro!: sys_inv_heartbeat sys_inv_on_cache)
qed

lemma sys_inv_stopOnlineHeartbeat: "sys_inv y \<Longrightarrow> sys_inv (stopOnlineHeartbeat b c y)"
  by (auto simp: stopOnlineHeartbeat_def Let_def split: option.split
      intro!: sys_inv_heartbeat sys_inv_on_cache)

lemma idents_fields:
  assumes "idents y' = idents y" and "c < length (conns y)"
  shows "u_Name (the_user y' c) = u_Name (the_user y c)" "u_Addr (the_user y' c) = u_Addr (the_user y c)"
    "Authenticated (the_user y' c) = Authenticated (the_user y c)"
    "isClosed (the_user y' c) = isClosed (the_user y c)"
    "loggedOut (the_user y' c) = loggedOut (the_user y c)"
  using idents_nth[OF assms] by (simp_all add: ident_def)

lemma length_broadcast [simp]: "length (conns (snd (broadcast b r body who y))) = length (conns y)"
  by (rule idents_length) simp

lemma length_SendJSON [simp]: "length (conns (SendJSON c m y)) = length (conns y)"
  by (rule idents_length) simp

lemma length_SendMsg [simp]: "length (conns (SendMsg c m y)) = length (conns y)"
  by (rule idents_length) simp

lemma length_stopOnlineHeartbeat [simp]:
  "length (conns (stopOnlineHeartbeat b c y)) = length (conns y)"
  by (rule idents_length) simp

lemma sys_inv_Online:
  assumes "sys_inv y" and "c < length (conns y)" and "Authenticated (the_user y c)"
  shows "sys_inv (Online x b rs c y)"
proof -
  define y1 where "y1 = on_srv (RegisterOnline (u_Name (the_user y c)) (Some c) (u_Addr (the_user y c))) y"
  define y2 where "y2 = on_srv (srv_EnqueuePendingForUser b (rs 0) (u_Name (the_user y c)) 500) y1"
  define z where "z = broadcast b (rs 1) (u_Name (the_user y c) @ txt_online) (u_Name (the_user y c)) y2"
  have "sys_inv y1" unfolding y1_def by (intro sys_inv_register assms refl)
  then have "sys_inv y2" unfolding y2_def by (rule pending_op.sys_inv_on_srv)
  then have inv: "sys_inv (snd z)" unfolding z_def by (rule sys_inv_broadcast)
  have id: "idents (snd z) = idents y" by (simp add: z_def y2_def y1_def)
  then have len: "length (conns (snd z)) = length (conns y)" by (rule idents_length)
  have "sys_inv (SendJSON c m (snd z))" for m using inv assms(2) len by simp
  moreover have "Authenticated (the_user (SendJSON c m (snd z)) c)" for m
    using idents_fields(3)[of "SendJSON c m (snd z)" y c] id assms(2,3) by simp
  ultimately have "sys_inv (startOnlineHeartbeat x b c (SendJSON c m (snd z)))" for m
    by (rule sys_inv_startOnlineHeartbeat)
  then show ?thesis
    by (simp add: Online_def Let_def case_prod_beta del: One_nat_def flip: y1_def y2_def z_def)
qed

lemma sys_inv_Offline:
  assumes "sys_inv y" and "c < length (conns y)"
  shows "sys_inv (Offline b rs c y)"
  using assms
  by (auto simp: Offline_def Let_def case_prod_beta intro!: sys_inv_SendJSON sys_inv_broadcast
      sys_inv_unregister sys_inv_stopOnlineHeartbeat)

lemma length_Close [simp]: "length (conns (Close c y)) = length (conns y)"
  by (simp add: Close_def)

lemma length_Offline [simp]: "length (conns (Offline b rs c y)) = length (conns y)"
  by (rule idents_length) simp

lemma length_Logout [simp]: "length (conns (Logout b rs c y)) = length (conns y)"
  by (simp add: Logout_def)

lemma sys_inv_Logout:
  assumes "sys_inv y" and "c < length (conns y)"
  shows "sys_inv (Logout b rs c y)"
proof -
  let ?y1 = "upd c (\<lambda>u. u\<lparr>loggedOut := True\<rparr>) y"
  have y1: "sys_inv ?y1" using assms(1) by (rule sys_inv_upd) (auto simp: box_ok_def)
  then have "sys_inv (Offline b rs c ?y1)" using assms(2) by (simp add: sys_inv_Offline)
  moreover have "loggedOut (the_user (Offline b rs c ?y1) c)"
    using idents_fields(5)[OF idents_Offline[of b rs c ?y1], of c] assms(2) by simp
  ultimately have "sys_inv (Close c (Offline b rs c ?y1))"
    by (auto simp: Close_def box_ok_def intro!: sys_inv_upd)
  with assms(1) show ?thesis by (simp add: Logout_def)
qed

lemma sys_inv_listen:
  assumes "sys_inv y" and "c < length (conns y)"
  shows "sys_inv (listen_round b rs w c y)"
proof -
  have take: "sys_inv (upd c (\<lambda>u. u\<lparr>C := q\<rparr>) y)" if "C (the_user y c) = m # q" for m q
    using assms(1) that by (rule_tac sys_inv_upd) (auto simp: box_ok_def)
  have flag: "sys_inv (upd c (\<lambda>u. u\<lparr>listening := l\<rparr>) z)" if "sys_inv z" for l and z :: "('a, 'b) sys"
    using that by (rule sys_inv_upd) (auto simp: box_ok_def)
  have out: "sys_inv (upd c (\<lambda>u. u\<lparr>wire := wire u @ k\<rparr>) z)" if "sys_inv z" for k and z :: "('a, 'b) sys"
    using that by (rule sys_inv_upd) (auto simp: box_ok_def)
  show ?thesis
    using assms
    by (auto simp: listen_round_def Let_def split: list.split option.split
        intro!: flag out take sys_inv_Logout)
qed

lemma on_store_eq:
  "on_store g y = (fst (g (the_store (im_srv y))), on_srv (set_store (snd (g (the_store (im_srv y))))) y)"
  by (simp add: on_store_def case_prod_beta)

text \<open>The functions of \<open>dao\<close> change the two services only.\<close>

lemma store_wf_updates [simp]:
  "store_wf (s\<lparr>db := d\<rparr>) = store_wf s" "store_wf (s\<lparr>cache := c\<rparr>) = store_wf s"
  by (simp_all add: store_wf_def)

lemma dao_parts [simp]:
  "store_wf (cache_user b j name u s) = store_wf s" "store_wf (del_user_key b name s) = store_wf s"
  "store_wf (snd (GetUserByID b i s)) = store_wf s" "store_wf (snd (set_status tbl w f s)) = store_wf s"
  by (simp_all add: cache_user_def del_user_key_def GetUserByID_def set_status_def case_prod_beta
      split: option.split sum.split)

lemma dao_frame:
  "store_wf s \<Longrightarrow> store_wf (snd (GetUserByName b j name s))"
  "store_wf s \<Longrightarrow> store_wf (snd (CreateUser b j u s))"
  "store_wf s \<Longrightarrow> store_wf (snd (UpdateUserStatus b name st s))"
proof -
  assume s: "store_wf s"
  show "store_wf (snd (GetUserByName b j name s))" and "store_wf (snd (CreateUser b j u s))"
    using s by (simp_all add: GetUserByName_def CreateUser_def case_prod_beta split: option.split sum.split)
  have "store_wf (snd (case (e, s1) of (Some e, s1) \<Rightarrow> (Some e, s1) | (None, s1) \<Rightarrow> (None, g s1)))"
    if "store_wf s1" "\<And>s'. store_wf s' \<Longrightarrow> store_wf (g s')"
    for e :: "dao_error option" and s1 :: "('a, 'b) store" and g
    using that by (simp split: option.split)
  note branch = this[of "snd p" "\<lambda>s. _ s" "fst p" for p, simplified prod.collapse]
  have id: "store_wf (if client b = None then s1 else case GetUserByID b i s1 of
      (Inr u, s2) \<Rightarrow> del_user_key b (DU_UserName u) s2 | (Inl _, s2) \<Rightarrow> s2)"
    if "store_wf s1" for s1 :: "('a, 'b) store" and i
  proof (cases "GetUserByID b i s1")
    case (Pair r s2)
    then have "store_wf s2" using dao_parts(3)[of b i s1] that by simp
    with Pair that show ?thesis by (simp split: sum.split)
  qed
  show "store_wf (snd (UpdateUserStatus b name st s))"
    unfolding UpdateUserStatus_def using s
    by (auto split: option.split intro!: branch id)
qed

lemma sys_inv_on_store:
  assumes "sys_inv y" and "\<And>s. store_wf s \<Longrightarrow> store_wf (snd (g s))"
  shows "sys_inv (snd (on_store g y))"
proof -
  have "srv_ok (im_srv y)" "store_wf (the_store (im_srv y))"
    using assms(1) by (simp_all add: sys_inv_def srv_ok_def)
  then have "srv_ok (set_store (snd (g (the_store (im_srv y)))) (im_srv y))"
    using assms(2) by (intro srv_ok_store) blast+
  with assms(1) show ?thesis by (simp add: on_store_eq sys_inv_def)
qed

lemma length_on_store [simp]: "length (conns (snd (on_store g y))) = length (conns y)"
  by (rule idents_length) simp

lemma length_Online [simp]: "length (conns (Online x b rs c y)) = length (conns y)"
  by (rule idents_length) simp

lemma auth_on_store [simp]:
  "c < length (conns y) \<Longrightarrow> Authenticated (the_user (snd (on_store g y)) c) = Authenticated (the_user y c)"
  by (intro idents_fields) simp_all

lemma sys_inv_named:
  assumes "sys_inv y" and "\<not> Authenticated (the_user y c)"
  shows "sys_inv (upd c (\<lambda>u. u\<lparr>u_Name := name, Authenticated := True\<rparr>) y)"
  using assms(1) no_entry_unauthenticated[OF assms] by (rule sys_inv_rename) (auto simp: box_ok_def)

lemma sys_inv_enter:
  assumes "sys_inv y" and "c < length (conns y)" and "\<not> Authenticated (the_user y c)"
  shows "sys_inv (enter x b rs c name y)"
  using sys_inv_named[OF assms(1,3)] assms(2) by (simp add: enter_def sys_inv_Online)

lemma length_enter [simp]: "length (conns (enter x b rs c name y)) = length (conns y)"
  by (simp add: enter_def)

lemma sys_inv_Register:
  assumes "sys_inv y" and "c < length (conns y)" and "\<not> Authenticated (the_user y c)"
  shows "sys_inv (snd (Register x b rs c name password y))"
proof -
  obtain r1 y1 where y1: "on_store (GetUserByName b (x_user_json x) (TrimSpace name)) y = (r1, y1)"
    by fastforce
  have eq: "y1 = snd (on_store (GetUserByName b (x_user_json x) (TrimSpace name)) y)" by (simp add: y1)
  have 1: "sys_inv y1" "length (conns y1) = length (conns y)" "\<not> Authenticated (the_user y1 c)"
    unfolding eq by (rule sys_inv_on_store[OF assms(1) dao_frame(1)], assumption)
      (use assms(2,3) in simp_all)
  have 2: "sys_inv (snd (on_store (CreateUser b j u) y1))" for j u
    using 1(1) dao_frame(2) by (rule sys_inv_on_store)
  have "sys_inv (enter x b rs' c n (snd (on_store (CreateUser b j u) y1)))" for rs' n j u
    using 1 2 assms(2) by (intro sys_inv_enter) simp_all
  with 1 2 assms(1) show ?thesis
    by (simp add: Register_def Let_def y1 case_prod_beta split: sum.split option.split)
qed

lemma sys_inv_login_check:
  assumes "sys_inv y"
  shows "sys_inv (snd (login_check x b r name password y))"
proof -
  obtain r1 y1 where y1: "on_store (GetUserByName b (x_user_json x) name) y = (r1, y1)" by fastforce
  then have eq: "y1 = snd (on_store (GetUserByName b (x_user_json x) name) y)" by simp
  have "sys_inv y1" unfolding eq by (rule sys_inv_on_store[OF assms dao_frame(1)])
  with assms show ?thesis by (simp add: login_check_def y1 split: sum.split)
qed

lemma idents_login_check: "idents (snd (login_check x b r name password y)) = idents y"
proof -
  obtain r1 y1 where y1: "on_store (GetUserByName b (x_user_json x) name) y = (r1, y1)" by fastforce
  then have eq: "y1 = snd (on_store (GetUserByName b (x_user_json x) name) y)" by simp
  have "idents y1 = idents y" unfolding eq by (rule idents_on_store)
  then show ?thesis by (simp add: login_check_def y1 split: sum.split)
qed

lemma sys_inv_Login:
  assumes "sys_inv y" and "c < length (conns y)" and "\<not> Authenticated (the_user y c)"
  shows "sys_inv (snd (Login x b rs c name password y))"
proof -
  obtain e y1 where y1: "login_check x b (rs 0) (TrimSpace name) password y = (e, y1)" by fastforce
  have inv: "sys_inv y1"
    using sys_inv_login_check[OF assms(1), of x b "rs 0" "TrimSpace name" password] y1 by simp
  have id: "idents y1 = idents y"
    using idents_login_check[of x b "rs 0" "TrimSpace name" password y] y1 by simp
  then have "sys_inv (enter x b rs' c n y1)" for rs' n
    using inv assms(2,3) idents_length[OF id] idents_fields(3)[OF id assms(2)]
    by (intro sys_inv_enter) simp_all
  then have "sys_inv (login_commit x b rs' c n y1)" for rs' n
    unfolding login_commit_def using dao_frame(3) by (rule sys_inv_on_store)
  with inv show ?thesis by (simp add: Login_def y1 split: option.split)
qed

section \<open>Commands, messages and rounds\<close>

lemma groups_wf_ops:
  assumes "groups_wf gm"
  shows "Create gm i u = Inr g \<Longrightarrow> groups_wf g" "Delete gm i u = Inr g \<Longrightarrow> groups_wf g"
    "Join gm i u = Inr g \<Longrightarrow> groups_wf g" "Leave gm i u = Inr g \<Longrightarrow> groups_wf g"
    "Kick gm i u v = Inr g \<Longrightarrow> groups_wf g" "GrantAdmin gm i u v = Inr g \<Longrightarrow> groups_wf g"
    "RevokeAdmin gm i u v = Inr g \<Longrightarrow> groups_wf g"
  using exec_group_wf[OF assms, of "OpCreate i u"] exec_group_wf[OF assms, of "OpDelete i u"]
    exec_group_wf[OF assms, of "OpJoin i u"] exec_group_wf[OF assms, of "OpLeave i u"]
    exec_group_wf[OF assms, of "OpKick i u v"] exec_group_wf[OF assms, of "OpGrant i u v"]
    exec_group_wf[OF assms, of "OpRevoke i u v"]
  by simp_all

lemma sys_inv_groups: "sys_inv y \<Longrightarrow> groups_wf (the_groups y)"
  by (simp add: sys_inv_def srv_ok_def)

lemma sys_inv_group_reply:
  assumes "sys_inv y" and "c < length (conns y)" and "\<And>g. res = Inr g \<Longrightarrow> groups_wf g"
  shows "sys_inv (group_reply c failed done_text res y)"
proof (cases res)
  case (Inr g)
  then have "sys_inv (on_srv (\<lambda>v. v\<lparr>groupManager := g\<rparr>) y)"
    using assms(1,3) by (simp add: sys_inv_def srv_ok_def)
  with Inr assms(2) show ?thesis by (simp add: group_reply_def)
qed (use assms in \<open>simp add: group_reply_def\<close>)

lemma sys_inv_send [simp]: "sys_inv y \<Longrightarrow> sys_inv (snd (send b r req rs y))"
  by (simp add: send_def case_prod_beta send_op.sys_inv_set_srv)

lemma idents_send [simp]: "idents (snd (send b r req rs y)) = idents y"
  by (simp add: send_def case_prod_beta)

lemma length_send [simp]: "length (conns (snd (send b r req rs y))) = length (conns y)"
  by (rule idents_length) simp

lemma sys_inv_enqueue [simp]: "sys_inv y \<Longrightarrow> sys_inv (enqueue i y)"
  by (simp add: enqueue_def enqueue_op.sys_inv_on_srv)

lemma length_enqueue [simp]: "length (conns (enqueue i y)) = length (conns y)"
  by (simp add: enqueue_def)

text \<open>The replies to a send, in the four places that make one.\<close>

lemma sys_inv_after_send:
  assumes "sys_inv y" and "c < length (conns y)"
    and "\<And>e y1. sys_inv y1 \<Longrightarrow> c < length (conns y1) \<Longrightarrow> sys_inv (failed e y1)"
    and "\<And>m y1. sys_inv y1 \<Longrightarrow> c < length (conns y1) \<Longrightarrow> sys_inv (found m y1)"
    and "\<And>m y1. sys_inv y1 \<Longrightarrow> c < length (conns y1) \<Longrightarrow> sys_inv (saved m y1)"
  shows "sys_inv (case send b r req rs y of (SendError e, y1) \<Rightarrow> failed e y1
    | (Existing m, y1) \<Rightarrow> found m y1 | (Saved m, y1) \<Rightarrow> saved m y1)"
proof (cases "send b r req rs y")
  case (Pair res y1)
  then have "sys_inv y1" "c < length (conns y1)"
    using sys_inv_send[OF assms(1), of b r req rs] length_send[of b r req rs y] assms(2) by simp_all
  with Pair assms(3-5) show ?thesis by (simp split: send_result.split)
qed

lemma sys_inv_useWho: "sys_inv y \<Longrightarrow> c < length (conns y) \<Longrightarrow> sys_inv (useWho r c y)"
proof -
  have "sys_inv (fold (\<lambda>info. SendMsg c (g info)) infos z)"
    if "sys_inv z" "c < length (conns z)" for g infos and z :: "('a, 'b) sys"
    using that by (induction infos arbitrary: z) simp_all
  then show "sys_inv y \<Longrightarrow> c < length (conns y) \<Longrightarrow> sys_inv (useWho r c y)"
    by (simp add: useWho_def)
qed

lemma sys_inv_useStats:
  assumes "sys_inv y" and "c < length (conns y)"
  shows "sys_inv (useStats x b r c y)"
proof -
  have "snd (SnapshotStatsText x b r v) = snd (SnapshotStats b r v)" for v
    by (simp add: SnapshotStatsText_def case_prod_beta)
  then have "sys_inv (y\<lparr>im_srv := snd (SnapshotStatsText x b r (im_srv y))\<rparr>)"
    using stats_op.sys_inv_set_srv[OF assms(1), of b r] by simp
  with assms(2) show ?thesis by (simp add: useStats_def case_prod_beta)
qed

lemma sys_inv_useRename:
  assumes "sys_inv y" and "c < length (conns y)" and "Authenticated (the_user y c)"
  shows "sys_inv (useRename c msg y)"
proof -
  have "sys_inv (on_srv (RegisterOnline n (Some c) (u_Addr (the_user y c)))
      (upd c (\<lambda>u. u\<lparr>u_Name := n\<rparr>) (on_srv (UnregisterOnline (u_Name (the_user y c))) y)))" for n
  proof (rule sys_inv_register)
    show "sys_inv (upd c (\<lambda>u. u\<lparr>u_Name := n\<rparr>) (on_srv (UnregisterOnline (u_Name (the_user y c))) y))"
      using assms(1)
      by (intro sys_inv_rename sys_inv_unregister no_entry_unregister) (auto simp: box_ok_def)
  qed (use assms in simp_all)
  with assms show ?thesis by (simp add: useRename_def Let_def split: option.split)
qed

lemma sys_inv_useHistory:
  assumes "sys_inv y" and "c < length (conns y)"
  shows "sys_inv (useHistory x b r c msg y)"
  using assms by (simp add: useHistory_def Let_def case_prod_beta history_op.sys_inv_set_srv)

lemma sys_inv_useChat:
  "sys_inv y \<Longrightarrow> c < length (conns y) \<Longrightarrow> sys_inv (useChat b rs c msg y)"
  by (auto simp: useChat_def Let_def split: option.split intro!: sys_inv_after_send)

lemma sys_inv_useGroupTalk:
  "sys_inv y \<Longrightarrow> c < length (conns y) \<Longrightarrow> sys_inv (useGroupTalk b rs c msg y)"
  by (auto simp: useGroupTalk_def Let_def split: option.split intro!: sys_inv_after_send)

lemma sys_inv_plain_text:
  "sys_inv y \<Longrightarrow> c < length (conns y) \<Longrightarrow> sys_inv (plain_text b rs c msg y)"
  by (auto simp: plain_text_def Let_def intro!: sys_inv_after_send)

lemma sys_inv_group_commands:
  assumes "sys_inv y" and "c < length (conns y)"
  shows "sys_inv (useGroupCreate c msg y)" "sys_inv (useGroupJoin c msg y)"
    "sys_inv (useGroupLeave c msg y)" "sys_inv (useGroupDelete c msg y)"
    "sys_inv (useGroupKick c msg y)" "sys_inv (useGroupGrantAdmin c msg y)"
    "sys_inv (useGroupRevokeAdmin c msg y)" "sys_inv (useGroupMembers r c msg y)"
  using assms groups_wf_ops[OF sys_inv_groups[OF assms(1)]]
  by (auto simp: useGroupCreate_def useGroupJoin_def useGroupLeave_def useGroupDelete_def
      useGroupKick_def useGroupGrantAdmin_def useGroupRevokeAdmin_def useGroupMembers_def Let_def
      split: option.split intro!: sys_inv_group_reply)

lemma sys_inv_useRead:
  "sys_inv y \<Longrightarrow> c < length (conns y) \<Longrightarrow> sys_inv (useRead b r c msg y)"
  by (simp add: useRead_def read_ack.sys_inv_on_srv split: option.split)

lemma sys_inv_useExit:
  "sys_inv y \<Longrightarrow> c < length (conns y) \<Longrightarrow> sys_inv (useExit b rs c y)"
  by (simp add: useExit_def sys_inv_Logout)

lemma sys_inv_if: "sys_inv y \<Longrightarrow> sys_inv z \<Longrightarrow> sys_inv (if P then y else z)"
  by simp

lemma sys_inv_DoMessage:
  assumes "sys_inv y" and "c < length (conns y)" and "Authenticated (the_user y c)"
  shows "sys_inv (DoMessage x b rs c msg y)"
  unfolding DoMessage_def Let_def
  by (intro sys_inv_if)
    (simp_all add: assms sys_inv_useExit sys_inv_useWho sys_inv_useStats sys_inv_useRead
      sys_inv_useHistory sys_inv_group_commands sys_inv_useGroupTalk sys_inv_useRename
      sys_inv_useChat sys_inv_plain_text useHelp_def useIllegal_def)

lemma sys_inv_HandleClientSend:
  assumes "sys_inv y" and "c < length (conns y)"
  shows "sys_inv (HandleClientSend b rs c req y)"
proof -
  have "sys_inv (case send b r q names y of
      (SendError e, y1) \<Rightarrow> SendJSON c (Some (zero_Message\<lparr>Type := TypeSendAck, ClientMsgID := ClientMsgID q\<rparr>)) y1
    | (Existing ex, y1) \<Rightarrow> SendJSON c (Some (send_ack (ClientMsgID q) ex)) y1
    | (Saved m, y1) \<Rightarrow> enqueue (ServerMsgID m) (SendJSON c (Some (send_ack (ClientMsgID q) m)) y1))"
    for r q names
    using assms by (rule sys_inv_after_send) simp_all
  then show ?thesis unfolding HandleClientSend_def Let_def .
qed

lemma sys_inv_HandleMessage:
  "sys_inv y \<Longrightarrow> c < length (conns y) \<Longrightarrow> sys_inv (HandleMessage b rs c m y)"
  by (simp add: HandleMessage_def Let_def sys_inv_HandleClientSend deliver_ack.sys_inv_on_srv
      read_ack.sys_inv_on_srv)

text \<open>
  The answer to a registration or login: the state afterwards is well-formed and the connections
  are the same.
\<close>

lemma length_Register [simp]: "length (conns (snd (Register x b rs c name pw y))) = length (conns y)"
proof -
  obtain r1 y1 where y1: "on_store (GetUserByName b (x_user_json x) (TrimSpace name)) y = (r1, y1)"
    by fastforce
  then have eq: "y1 = snd (on_store (GetUserByName b (x_user_json x) (TrimSpace name)) y)" by simp
  have "length (conns y1) = length (conns y)" unfolding eq by simp
  then show ?thesis
    by (simp add: Register_def Let_def y1 case_prod_beta split: sum.split option.split)
qed

lemma length_Login [simp]: "length (conns (snd (Login x b rs c name pw y))) = length (conns y)"
proof -
  obtain e y1 where y1: "login_check x b (rs 0) (TrimSpace name) pw y = (e, y1)" by fastforce
  have "length (conns y1) = length (conns y)"
    using idents_length[OF idents_login_check[of x b "rs 0" "TrimSpace name" pw y]] y1 by simp
  then show ?thesis by (simp add: Login_def y1 login_commit_def split: option.split)
qed

lemma sys_inv_answer:
  assumes "sys_inv (snd p)" and "c < length (conns (snd p))"
  shows "sys_inv (snd (case p of (Some e, y1) \<Rightarrow> (False, SendMsg c (f e) y1)
    | (None, y1) \<Rightarrow> (True, SendMsg c (g y1) y1)))"
  using assms by (auto split: prod.split option.split)

lemma sys_inv_handleAuthCommand:
  assumes "sys_inv y" and "c < length (conns y)" and "\<not> Authenticated (the_user y c)"
  shows "sys_inv (snd (handleAuthCommand x b rs c msg y))"
proof -
  have reg: "sys_inv (snd (case Register x b rs c n pw y of
      (Some e, y1) \<Rightarrow> (False, SendMsg c (txt_register_failed @ e @ nl) y1)
    | (None, y1) \<Rightarrow> (True, SendMsg c (txt_registered @ u_Name (the_user y1 c) @ nl) y1)))" for n pw
    using assms by (intro sys_inv_answer sys_inv_Register) simp_all
  have log: "sys_inv (snd (case Login x b rs c n pw y of
      (Some e, y1) \<Rightarrow> (False, SendMsg c (txt_login_failed @ e @ nl) y1)
    | (None, y1) \<Rightarrow> (True, SendMsg c (txt_logged_in @ u_Name (the_user y1 c) @ nl) y1)))" for n pw
    using assms by (intro sys_inv_answer sys_inv_Login) simp_all
  have send: "sys_inv (SendMsg c m y)" for m using assms by simp
  show ?thesis
    unfolding handleAuthCommand_def
    by (simp only: if_split[of "\<lambda>p. sys_inv (snd p)"] snd_conv send simp_thms)
      (intro conjI impI; simp only: snd_conv send reg log simp_thms split: list.split if_split)
qed

lemma sys_inv_processRawLine:
  assumes "sys_inv y" and "c < length (conns y)"
  shows "sys_inv (snd (processRawLine x b rs c raw y))"
proof -
  let ?y1 = "on_srv markInboundMessage y"
  have y1: "sys_inv ?y1" "c < length (conns ?y1)" using assms inbound_op.sys_inv_on_srv by simp_all
  have "sys_inv (snd (handleAuthCommand x b rs c m ?y1))" if "\<not> Authenticated (the_user ?y1 c)" for m
    using y1 that by (rule sys_inv_handleAuthCommand)
  moreover have "sys_inv (DoMessage x b rs c m ?y1)" if "Authenticated (the_user ?y1 c)" for m
    using y1 that by (rule sys_inv_DoMessage)
  moreover have "sys_inv (HandleMessage b rs c m ?y1)" for m
    using y1 by (rule sys_inv_HandleMessage)
  ultimately show ?thesis
    using y1 assms(1) by (simp add: processRawLine_def Let_def split: option.split)
qed

lemma sys_inv_manager_round:
  "sys_inv y \<Longrightarrow> c < length (conns y) \<Longrightarrow> sys_inv (snd (manager_round x b rs c line y))"
  by (simp add: manager_round_def sys_inv_Logout sys_inv_processRawLine split: raw_line.split)

lemma sys_inv_NewUser:
  assumes "sys_inv y"
  shows "sys_inv (snd (NewUser remote y))"
proof -
  have "presence_ok (conns y @ [u]) (OnlineMap (im_srv y))" for u
    using assms by (force simp: sys_inv_def presence_ok_def nth_append)
  with assms show ?thesis
    by (auto simp: sys_inv_def NewUser_def box_ok_def chan_cap_def)
qed

lemma sys_inv_Handler_start:
  assumes "sys_inv y"
  shows "sys_inv (snd (Handler_start remote y))"
proof -
  have "sys_inv (snd (NewUser remote (on_srv handler_enter y)))"
    by (intro sys_inv_NewUser enter_op.sys_inv_on_srv assms)
  then show ?thesis by (simp add: Handler_start_def case_prod_beta) (simp add: NewUser_def)
qed

lemma sys_inv_hand_out:
  assumes "sys_inv y" and "\<And>to info. map_of online to = Some info \<Longrightarrow> sender info < length (conns y)"
  shows "sys_inv (hand_out online out y)"
  using assms unfolding hand_out_def
  by (induction out arbitrary: y) (auto split: option.split)

lemma sys_inv_deliver:
  assumes "sys_inv y"
  shows "sys_inv (deliver x b rs y)"
proof (cases "srv_worker (im_srv y)")
  case (Some w)
  let ?d = "deliver_round (InMemoryStore b) rs (max_retry_setting (x_env x))
      (retry_delay_setting (x_env x)) (online_map (im_srv y)) (w, the_store (im_srv y))"
  have "queue_inv w" "store_wf (the_store (im_srv y))"
    using assms Some by (simp_all add: sys_inv_def srv_ok_def)
  then have "queue_inv (fst (snd ?d))" "store_wf (snd (snd ?d))"
    by (simp_all add: queue_inv_deliver_round cs.wf_deliver_round)
  with assms have "sys_inv (on_srv (\<lambda>v. set_store (snd (snd ?d)) (v\<lparr>srv_worker := Some (fst (snd ?d))\<rparr>)) y)"
    by (simp add: sys_inv_def srv_ok_def set_store_def)
  moreover have "sender info < length (conns y)" if "map_of (OnlineMap (im_srv y)) to = Some info" for to info
    using assms that by (auto simp: sys_inv_def presence_ok_def)
  ultimately show ?thesis
    using Some by (simp add: deliver_def case_prod_beta sys_inv_hand_out)
qed (use assms in \<open>simp add: deliver_def\<close>)

lemma sys_inv_retry:
  assumes "sys_inv y"
  shows "sys_inv (retry b r y)"
  using retry_op.sys_inv_on_srv[OF assms, of b r] assms
  by (cases "srv_worker (im_srv y)") (simp_all add: retry_def on_srv_def case_prod_beta)

lemma sys_inv_event:
  assumes "sys_inv y" and "valid_event ev y"
  shows "sys_inv (exec_event x b rs ev y)"
proof (cases ev)
  case (Connect remote)
  let ?v = "accept_round (rs 0) (Some remote) (im_srv y)"
  have "sys_inv (y\<lparr>im_srv := snd ?v\<rparr>)" by (rule accept_op.sys_inv_set_srv[OF assms(1)])
  then show ?thesis
    by (auto simp: exec_event_def Connect sys_inv_Handler_start split: prod.splits option.split)
next
  case Run_logout
  show ?thesis
  proof (cases "logouts y")
    case (Cons c cs)
    then have "sys_inv (y\<lparr>logouts := cs\<rparr>)" "c < length (conns y)"
      using assms(1) by (auto simp: sys_inv_def)
    then show ?thesis by (simp add: exec_event_def Run_logout Cons sys_inv_Logout)
  qed (use assms(1) in \<open>simp add: exec_event_def Run_logout\<close>)
next
  case (Heartbeat c)
  with assms(1) show ?thesis
    by (simp add: exec_event_def heartbeat_tick_def split: option.split)
qed (use assms in \<open>simp_all add: exec_event_def valid_event_def sys_inv_manager_round sys_inv_listen
  Handler_timeout_def sys_inv_Logout sys_inv_deliver sys_inv_retry leave_op.sys_inv_on_srv\<close>)

lemma sys_inv_boot: "sys_inv (boot e p d c0 now b r)"
proof -
  let ?w = "(NewWorker, NewInMemoryStore p d c0) :: worker \<times> ('a, 'b) store"
  let ?v = "RecoverPendingDeliveries (InMemoryStore b) r 2000 ?w"
  have "queue_inv (fst ?v)" and "store_wf (snd ?v)"
    using cs.wf_calls(10)[OF store_wf_new, of b r 2000]
    by (simp_all add: RecoverPendingDeliveries_def case_prod_beta enqueue_all_inv queue_inv_new)
  then show ?thesis
    by (simp add: boot_def Start_def SetWorker_def NewServer_def newLogicService_def sys_inv_def
        srv_ok_def set_store_def case_prod_beta presence_ok_def groups_wf_init)
qed

lemma reachable_inv:
  assumes "reachable b e p d c0 y"
  shows "sys_inv y"
proof -
  obtain now r where "(step b e)\<^sup>*\<^sup>* (boot e p d c0 now b r) y"
    using assms by (auto simp: reachable_def)
  then show ?thesis
    by (induction rule: rtranclp_induct) (auto intro: sys_inv_boot sys_inv_event elim!: step_elim)
qed

section \<open>Properties\<close>

text \<open>
  C3: the whole process keeps its data well-formed. After any sequence of events, with any clock
  readings, iteration orders and answers of the database and the cache: the store, the groups and
  the delivery queue satisfy their invariants; every entry of the online map is filed under the
  current name of an authenticated connection, with its address; no output channel holds more
  than ten messages; a closed session is logged out; only authenticated sessions have a heartbeat.
\<close>

theorem sys_inv_reachable: "reachable b e p d c0 y \<Longrightarrow> sys_inv y"
  by (rule reachable_inv)

theorem sys_inv_reachable_witness:
  "sys_inv (boot [] True no_tables [] 0 sample_backend (sample_rt 0))"
proof -
  have "reachable sample_backend [] True no_tables [] (boot [] True no_tables [] 0 sample_backend (sample_rt 0))"
    unfolding reachable_def by blast
  then show ?thesis by (rule sys_inv_reachable)
qed

end
