(* ===== verification/Logout_Props.thy ===== *)
theory Logout_Props
  imports Session_Inv
begin

text \<open>
  Ending sessions: what a logout does, that the logouts started by full output channels come to
  an end, and the output of a session.
\<close>

section \<open>Logout\<close>

lemma logouts_frame [simp]:
  "logouts (on_cache g y) = logouts y" "logouts (stopOnlineHeartbeat b c y) = logouts y"
  "logouts (snd (broadcast b r body who y)) = logouts y" "logouts (Close c y) = logouts y"
  by (simp_all add: on_cache_def stopOnlineHeartbeat_def Let_def broadcast_def case_prod_beta
      Close_def split: option.split)

lemma logouts_SendJSON:
  "logouts y = ls \<Longrightarrow> logouts (SendJSON c m y) = ls \<or> logouts (SendJSON c m y) = ls @ [c]"
  by (simp add: SendJSON_def SendMsg_def split: option.split)

lemma logouts_Offline: "logouts (Offline b rs c y) = logouts y \<or> logouts (Offline b rs c y) = logouts y @ [c]"
  unfolding Offline_def Let_def case_prod_beta by (rule logouts_SendJSON) simp

lemma online_upd_cache [simp]: "OnlineMap (im_srv (on_cache g y)) = OnlineMap (im_srv y)"
  by (simp add: on_cache_def)

lemma online_stop [simp]: "OnlineMap (im_srv (stopOnlineHeartbeat b c y)) = OnlineMap (im_srv y)"
  by (simp add: stopOnlineHeartbeat_def Let_def split: option.split)

lemma online_broadcast [simp]:
  "OnlineMap (im_srv (snd (broadcast b r body who y))) = OnlineMap (im_srv y)"
  by (simp add: broadcast_def case_prod_beta event_op.keeps_online)

lemma online_SendMsg [simp]: "OnlineMap (im_srv (SendMsg c m y)) = OnlineMap (im_srv y)"
  by (simp add: SendMsg_def markOutboundMessage_def)

lemma online_SendJSON [simp]: "OnlineMap (im_srv (SendJSON c m y)) = OnlineMap (im_srv y)"
  by (simp add: SendJSON_def split: option.split)

lemma online_Offline [simp]:
  "OnlineMap (im_srv (Offline b rs c y)) = OnlineMap (UnregisterOnline (u_Name (the_user y c)) (im_srv y))"
  by (simp add: Offline_def Let_def case_prod_beta UnregisterOnline_def)

definition logged_out :: "string \<times> string \<times> bool \<times> bool \<times> bool \<Rightarrow> string \<times> string \<times> bool \<times> bool \<times> bool" where
  "logged_out i = (case i of (n, a, auth, _, _) \<Rightarrow> (n, a, auth, True, True))"

lemma idents_upd_at:
  "c < length (conns y) \<Longrightarrow> idents (upd c f y) = (idents y)[c := ident (f (the_user y c))]"
  by (simp add: idents_def map_update)

lemma nth_idents: "c < length (conns y) \<Longrightarrow> idents y ! c = ident (the_user y c)"
  by (simp add: idents_def)

lemma length_idents [simp]: "length (idents y) = length (conns y)"
  by (simp add: idents_def)

lemma idents_Logout:
  assumes "c < length (conns y)" and "\<not> loggedOut (the_user y c)"
  shows "idents (Logout b rs c y) = (idents y)[c := logged_out (ident (the_user y c))]"
proof -
  define y1 where "y1 = upd c (\<lambda>u. u\<lparr>loggedOut := True\<rparr>) y"
  define y2 where "y2 = Offline b rs c y1"
  have y1: "idents y1 = (idents y)[c := ident (the_user y c\<lparr>loggedOut := True\<rparr>)]"
    unfolding y1_def by (rule idents_upd_at[OF assms(1)])
  then have y2: "idents y2 = (idents y)[c := ident (the_user y c\<lparr>loggedOut := True\<rparr>)]"
    by (simp add: y2_def)
  have c: "c < length (conns y2)" using assms(1) by (simp add: y2_def y1_def)
  then have u: "ident (the_user y2 c) = ident (the_user y c\<lparr>loggedOut := True\<rparr>)"
    using nth_idents[OF c] assms(1) by (simp add: y2)
  have "idents (Close c y2) = (idents y)[c := logged_out (ident (the_user y c))]"
  proof (cases "isClosed (the_user y2 c)")
    case True
    then have "ident (the_user y c\<lparr>loggedOut := True\<rparr>) = logged_out (ident (the_user y c))"
      using u by (simp add: ident_def logged_out_def)
    with True y2 show ?thesis by (simp add: Close_def)
  next
    case False
    then show ?thesis
      using u y2 idents_upd_at[OF c, of "\<lambda>u. u\<lparr>isClosed := True\<rparr>"]
      by (simp add: Close_def ident_def logged_out_def)
  qed
  then show ?thesis using assms(2) by (simp add: Logout_def y2_def y1_def)
qed

lemma logouts_Logout:
  "logouts (Logout b rs c y) = logouts y \<or> logouts (Logout b rs c y) = logouts y @ [c]"
  using logouts_Offline[of b rs c "upd c (\<lambda>u. u\<lparr>loggedOut := True\<rparr>) y"]
  by (auto simp: Logout_def)

text \<open>Sessions that are still open, and the bound on what is left to do.\<close>

definition open_conns :: "('d, 'c) sys \<Rightarrow> nat" where
  "open_conns y = length (filter (\<lambda>u. \<not> loggedOut u) (conns y))"

definition logout_work :: "('d, 'c) sys \<Rightarrow> nat" where
  "logout_work y = length (logouts y) + 2 * open_conns y"

lemma filter_update:
  "c < length xs \<Longrightarrow> P (xs ! c) \<Longrightarrow> \<not> P v \<Longrightarrow> Suc (length (filter P (xs[c := v]))) = length (filter P xs)"
proof (induction xs arbitrary: c)
  case (Cons x xs)
  then show ?case by (cases c) auto
qed simp

lemma open_conns_idents: "open_conns y = length (filter (\<lambda>(_, _, _, _, out). \<not> out) (idents y))"
  by (simp add: open_conns_def idents_def filter_map comp_def ident_def)

lemma open_conns_Logout:
  assumes "c < length (conns y)" and "\<not> loggedOut (the_user y c)"
  shows "Suc (open_conns (Logout b rs c y)) = open_conns y"
  unfolding open_conns_idents idents_Logout[OF assms] using assms
  by (intro filter_update) (simp_all add: idents_def ident_def logged_out_def)

text \<open>One spawned logout makes progress.\<close>

lemma run_logout_less:
  assumes "sys_inv y" and "logouts y \<noteq> []"
  shows "logout_work (exec_event x b rs Run_logout y) < logout_work y"
proof -
  obtain c cs where cs: "logouts y = c # cs" using assms(2) by (cases "logouts y") auto
  let ?y = "y\<lparr>logouts := cs\<rparr>"
  have c: "c < length (conns y)" using assms(1) cs by (auto simp: sys_inv_def)
  show ?thesis
  proof (cases "loggedOut (the_user y c)")
    case True
    then show ?thesis by (simp add: exec_event_def cs Logout_def logout_work_def open_conns_def)
  next
    case False
    have "Suc (open_conns (Logout b rs c ?y)) = open_conns ?y"
      using c False by (intro open_conns_Logout) simp_all
    then have "Suc (open_conns (Logout b rs c ?y)) = open_conns y" by (simp add: open_conns_def)
    moreover have "length (logouts (Logout b rs c ?y)) \<le> Suc (length cs)"
      using logouts_Logout[of b rs c ?y] by auto
    ultimately show ?thesis by (simp add: exec_event_def cs logout_work_def)
  qed
qed

lemma loggedOut_kept:
  assumes "c < length (conns y)" and "loggedOut (the_user y c)" and "k < length (conns y)"
  shows "loggedOut (the_user (Logout b rs k y) c)"
proof (cases "loggedOut (the_user y k)")
  case False
  then have "k \<noteq> c" using assms(2) by blast
  then have "idents (Logout b rs k y) ! c = idents y ! c"
    unfolding idents_Logout[OF assms(3) False] by simp
  then show ?thesis using assms by (simp add: nth_idents ident_def)
qed (use assms in \<open>simp add: Logout_def\<close>)

lemma loggedOut_Logout:
  assumes "c < length (conns y)"
  shows "loggedOut (the_user (Logout b rs c y) c)"
proof (cases "loggedOut (the_user y c)")
  case False
  have "idents (Logout b rs c y) ! c = logged_out (ident (the_user y c))"
    unfolding idents_Logout[OF assms False] using assms by simp
  then show ?thesis using assms by (simp add: nth_idents ident_def logged_out_def)
qed (simp add: Logout_def)

lemma run_logouts:
  assumes "sys_inv y" and "logout_work y \<le> length rss"
  shows "logouts (fold (\<lambda>rs. exec_event x b rs Run_logout) rss y) = [] \<and>
    (\<forall>c < length (conns y). c \<in> set (logouts y) \<or> loggedOut (the_user y c) \<longrightarrow>
      loggedOut (the_user (fold (\<lambda>rs. exec_event x b rs Run_logout) rss y) c))"
  using assms
proof (induction rss arbitrary: y)
  case Nil
  then show ?case by (simp add: logout_work_def)
next
  case (Cons rs rss)
  show ?case
  proof (cases "logouts y")
    case Nil
    then have "exec_event x b rs' Run_logout y = y" for rs' by (simp add: exec_event_def)
    then have "fold (\<lambda>rs. exec_event x b rs Run_logout) (rs # rss) y = y"
      by (induction rss) simp_all
    with Nil show ?thesis by simp
  next
    case (Cons c cs)
    let ?y = "y\<lparr>logouts := cs\<rparr>" and ?z = "exec_event x b rs Run_logout y"
    have z: "?z = Logout b rs c ?y" by (simp add: exec_event_def Cons)
    have c: "c < length (conns y)" using Cons.prems(1) Cons by (auto simp: sys_inv_def)
    have "sys_inv ?z" using Cons.prems(1) by (rule sys_inv_event) (simp add: valid_event_def)
    moreover have "logout_work ?z \<le> length rss"
      using run_logout_less[OF Cons.prems(1), of x b rs] Cons Cons.prems(2) by simp
    ultimately have IH: "logouts (fold (\<lambda>rs. exec_event x b rs Run_logout) rss ?z) = [] \<and>
        (\<forall>k < length (conns ?z). k \<in> set (logouts ?z) \<or> loggedOut (the_user ?z k) \<longrightarrow>
          loggedOut (the_user (fold (\<lambda>rs. exec_event x b rs Run_logout) rss ?z) k))"
      by (rule Cons.IH)
    have "k \<in> set (logouts ?z) \<or> loggedOut (the_user ?z k)"
      if "k < length (conns y)" "k \<in> set (logouts y) \<or> loggedOut (the_user y k)" for k
      using that logouts_Logout[of b rs c ?y] loggedOut_kept[of k ?y c b rs]
        loggedOut_Logout[of c ?y b rs] c Cons unfolding z by auto
    moreover have len: "length (conns ?z) = length (conns y)" by (simp add: z)
    ultimately show ?thesis using IH unfolding len fold_simps(2) by blast
  qed
qed

text \<open>
  C14: the logouts that full output channels start always come to an end. Each of them sends a
  farewell, whose failure starts another logout, and so on; but from any well-formed state of the
  process, as many of them as there are started logouts and twice the open sessions, run one
  after the other, leave none, and every session that was to be ended is logged out.
\<close>

theorem spawned_logouts_finish:
  assumes "sys_inv y" and "logout_work y \<le> length rss"
  shows "logouts (fold (\<lambda>rs. exec_event x b rs Run_logout) rss y) = [] \<and>
    (\<forall>c \<in> set (logouts y). loggedOut (the_user (fold (\<lambda>rs. exec_event x b rs Run_logout) rss y) c))"
  using run_logouts[OF assms, of x b] assms(1) by (auto simp: sys_inv_def)

text \<open>A session whose client does not read: ten messages wait, two logouts have been started.\<close>

definition sample_ext :: ext where
  "sample_ext = \<lparr>x_gb18030 = (\<lambda>_. None), x_hash = (\<lambda>pw. Inr pw), x_check = (\<lambda>h pw. h = pw),
     x_user_json = \<lparr>enc_user = (\<lambda>_. None), dec_user = (\<lambda>_. None)\<rparr>, x_env = [], x_host = None,
     x_json_error = (\<lambda>_. []), x_datetime = (\<lambda>_. []), x_rfc3339 = (\<lambda>_. []), x_rate = (\<lambda>_. [])\<rparr>"

definition sample_user :: "string \<Rightarrow> user" where
  "sample_user name = \<lparr>u_Name = name, u_Addr = ''10.0.0.7:5000'', C = [], Authenticated = True,
     isClosed = False, loggedOut = False, heartbeatCancel = None, listening = True, wire = []\<rparr>"

text \<open>The process without a database, with the given users and online map.\<close>

definition sample_sys ::
  "user list \<Rightarrow> OnlineInfo gomap \<Rightarrow> (tables, (string \<times> string) list) sys" where
  "sample_sys us m =
     (let y = boot [] False no_tables [] 0 sample_backend (sample_rt 0)
      in y\<lparr>im_srv := (im_srv y)\<lparr>OnlineMap := m\<rparr>, conns := us\<rparr>)"

lemma sys_inv_sample:
  assumes "presence_ok us m" and "\<forall>u \<in> set us. box_ok u"
  shows "sys_inv (sample_sys us m)"
proof -
  let ?y = "boot [] False no_tables [] 0 sample_backend (sample_rt 0)"
  have "sys_inv ?y" by (rule sys_inv_boot)
  moreover have "logouts ?y = []" by (simp add: boot_def)
  ultimately show ?thesis using assms by (simp add: sample_sys_def Let_def sys_inv_def srv_ok_def)
qed

definition flooded :: "(tables, (string \<times> string) list) sys" where
  "flooded = (sample_sys [(sample_user ''bob'')\<lparr>C := replicate 10 []\<rparr>] [])\<lparr>logouts := [0, 0]\<rparr>"

theorem spawned_logouts_finish_witness:
  "logouts (fold (\<lambda>rs. exec_event sample_ext sample_backend rs Run_logout)
     (replicate 4 (\<lambda>_. sample_rt 0)) flooded) = []"
proof -
  have "sys_inv (sample_sys [(sample_user ''bob'')\<lparr>C := replicate 10 []\<rparr>] [])"
    by (rule sys_inv_sample) (simp_all add: presence_ok_def box_ok_def chan_cap_def sample_user_def)
  then have "sys_inv flooded" by (simp add: flooded_def sys_inv_def sample_sys_def Let_def)
  moreover have "logout_work flooded \<le> length (replicate 4 (\<lambda>_::nat. sample_rt 0))"
    by (simp add: logout_work_def open_conns_def flooded_def sample_sys_def Let_def sample_user_def)
  ultimately show ?thesis using spawned_logouts_finish by blast
qed

lemma user_other [simp]:
  assumes "k \<noteq> c"
  shows "the_user (upd c f y) k = the_user y k" "the_user (SendMsg c m y) k = the_user y k"
    "the_user (SendJSON c mm y) k = the_user y k" "the_user (stopOnlineHeartbeat b c y) k = the_user y k"
  using assms by (simp_all add: SendJSON_def SendMsg_def stopOnlineHeartbeat_def Let_def on_cache_def
      split: option.split)

lemma conns_broadcast [simp]: "conns (snd (broadcast b r body who y)) = conns y"
  by (simp add: broadcast_def case_prod_beta)

lemma user_other_Logout [simp]:
  assumes "k \<noteq> c"
  shows "the_user (Offline b rs c y) k = the_user y k" "the_user (Logout b rs c y) k = the_user y k"
  using assms by (simp_all add: Logout_def Close_def Offline_def Let_def case_prod_beta)

lemma heartbeat_SendJSON [simp]:
  "c < length (conns y) \<Longrightarrow> heartbeatCancel (the_user (SendJSON c m y) c) = heartbeatCancel (the_user y c)"
  by (simp add: SendJSON_def SendMsg_def split: option.split)

lemma heartbeat_Offline:
  "c < length (conns y) \<Longrightarrow> heartbeatCancel (the_user (Offline b rs c y) c) = None"
  by (simp add: Offline_def Let_def case_prod_beta)
    (simp add: stopOnlineHeartbeat_def Let_def on_cache_def split: option.split)

lemma name_kept_Logout:
  "c < length (conns y) \<Longrightarrow> k < length (conns y) \<Longrightarrow> u_Name (the_user (Logout b rs c y) k) = u_Name (the_user y k)"
  using idents_Logout[of c y b rs] nth_idents[of k "Logout b rs c y"] nth_idents[of k y]
  by (cases "loggedOut (the_user y c)"; cases "k = c") (auto simp: Logout_def ident_def logged_out_def)

lemma online_Logout:
  "c < length (conns y) \<Longrightarrow> \<not> loggedOut (the_user y c) \<Longrightarrow>
   OnlineMap (im_srv (Logout b rs c y)) = OnlineMap (UnregisterOnline (u_Name (the_user y c)) (im_srv y))"
  by (simp add: Logout_def Close_def UnregisterOnline_def)

lemma ended_Logout:
  assumes "c < length (conns y)" and "\<not> loggedOut (the_user y c)"
  shows "isClosed (the_user (Logout b rs c y) c)" "loggedOut (the_user (Logout b rs c y) c)"
proof -
  have "idents (Logout b rs c y) ! c = logged_out (ident (the_user y c))"
    unfolding idents_Logout[OF assms] using assms(1) by simp
  then show "isClosed (the_user (Logout b rs c y) c)" "loggedOut (the_user (Logout b rs c y) c)"
    using assms(1) by (simp_all add: nth_idents ident_def logged_out_def)
qed

text \<open>
  C15: a logout is complete and happens once. It closes the session, ends its heartbeat and takes
  exactly its name out of the online map; the other sessions are untouched. After it, a second
  logout changes nothing and nothing is queued for the closed channel any more.
\<close>

theorem logout_complete_once:
  assumes "sys_inv y" and "c < length (conns y)" and "\<not> loggedOut (the_user y c)"
    and z_def: "z = Logout b rs c y"
  shows "isClosed (the_user z c) \<and> heartbeatCancel (the_user z c) = None \<and>
    map_of (OnlineMap (im_srv z)) = (map_of (OnlineMap (im_srv y)))(u_Name (the_user y c) := None) \<and>
    (\<forall>k. k \<noteq> c \<longrightarrow> the_user z k = the_user y k) \<and>
    Logout b rs' c z = z \<and> SendMsg c m z = z"
proof -
  let ?y1 = "upd c (\<lambda>u. u\<lparr>loggedOut := True\<rparr>) y"
  note out = ended_Logout[OF assms(2,3), of b rs, folded z_def]
  have "z = Close c (Offline b rs c ?y1)" using assms(3) by (simp add: z_def Logout_def)
  then have "heartbeatCancel (the_user z c) = heartbeatCancel (the_user (Offline b rs c ?y1) c)"
    using assms(2) by (simp add: Close_def)
  then have "heartbeatCancel (the_user z c) = None" using assms(2) by (simp add: heartbeat_Offline)
  moreover have "map_of (OnlineMap (im_srv y)) [] = None"
    using assms(1) by (cases "map_of (OnlineMap (im_srv y)) []") (auto simp: sys_inv_def presence_ok_def)
  then have "map_of (OnlineMap (im_srv z)) = (map_of (OnlineMap (im_srv y)))(u_Name (the_user y c) := None)"
    using online_Logout[OF assms(2,3), of b rs] by (auto simp: z_def UnregisterOnline_def fun_eq_iff)
  ultimately show ?thesis
    using out by (simp add: z_def Logout_def[of b rs' c "Logout b rs c y"] SendMsg_def)
qed

theorem logout_complete_once_witness:
  "isClosed (the_user (Logout sample_backend (\<lambda>_. sample_rt 0) 0 flooded) 0)"
proof -
  have "sys_inv (sample_sys [(sample_user ''bob'')\<lparr>C := replicate 10 []\<rparr>] [])"
    by (rule sys_inv_sample) (simp_all add: presence_ok_def box_ok_def chan_cap_def sample_user_def)
  then have "sys_inv flooded" by (simp add: flooded_def sys_inv_def sample_sys_def Let_def)
  moreover have "0 < length (conns flooded)" "\<not> loggedOut (the_user flooded 0)"
    by (simp_all add: flooded_def sample_sys_def Let_def sample_user_def)
  ultimately show ?thesis using logout_complete_once by blast
qed

section \<open>The output of a session\<close>

text \<open>
  A client that reads gets its messages complete and in order: from an open session, as many
  rounds of \<open>ListenMessage\<close> as messages wait write each of them, in the order in which they
  were queued, followed by a newline and the prompt; the channel is empty afterwards and nothing
  else in the process changes.
\<close>

theorem output_in_order:
  assumes "c < length (conns y)" and "listening (the_user y c)" and "\<not> isClosed (the_user y c)"
    and "length rss = length (C (the_user y c))"
  shows "fold (\<lambda>rs. listen_round b rs None c) rss y =
    upd c (\<lambda>u. u\<lparr>C := [], wire := wire u @
      concat (map (\<lambda>m. m @ [CHR 0x0A] @ u_Name u @ ''> '') (C u))\<rparr>) y"
  using assms
proof (induction rss arbitrary: y)
  case Nil
  then have "C (the_user y c) = []" by simp
  then have same: "(the_user y c)\<lparr>C := [], wire := wire (the_user y c)\<rparr> = the_user y c"
    by (cases "the_user y c") simp
  with Nil show ?case by (simp add: upd_def same)
next
  case (Cons rs rss)
  then obtain m q where C: "C (the_user y c) = m # q" by (cases "C (the_user y c)") auto
  let ?z = "upd c (\<lambda>u. u\<lparr>C := q, wire := wire u @ m @ [CHR 0x0A] @ u_Name u @ ''> ''\<rparr>) y"
  have "listen_round b rs None c y = ?z"
    using Cons.prems C by (simp add: listen_round_def Let_def upd_def)
  moreover have "fold (\<lambda>rs. listen_round b rs None c) rss ?z =
    upd c (\<lambda>u. u\<lparr>C := [], wire := wire u @
      concat (map (\<lambda>m. m @ [CHR 0x0A] @ u_Name u @ ''> '') (C u))\<rparr>) ?z"
    using Cons.prems C by (intro Cons.IH) simp_all
  ultimately show ?case
    using Cons.prems C by (simp add: upd_def)
qed

theorem output_in_order_witness:
  "wire (the_user (fold (\<lambda>rs. listen_round sample_backend rs None 0) (replicate 2 (\<lambda>_. sample_rt 0))
     (sample_sys [(sample_user ''bob'')\<lparr>C := [''hi'', ''there'']\<rparr>] [])) 0) =
   ''hi'' @ [CHR 0x0A] @ ''bob> there'' @ [CHR 0x0A] @ ''bob> ''"
proof -
  let ?y = "sample_sys [(sample_user ''bob'')\<lparr>C := [''hi'', ''there'']\<rparr>] []"
  have "0 < length (conns ?y)" "listening (the_user ?y 0)" "\<not> isClosed (the_user ?y 0)"
    "length (replicate 2 (\<lambda>_::nat. sample_rt 0)) = length (C (the_user ?y 0))"
    by (simp_all add: sample_sys_def Let_def sample_user_def)
  from output_in_order[OF this, of sample_backend] show ?thesis
    by (simp add: sample_sys_def Let_def sample_user_def)
qed

end
