(* ===== verification/Session_Props.thy ===== *)
theory Session_Props
  imports Logout_Props
begin

text \<open>
  What a connection can do before it has logged in.
\<close>

section \<open>Commands as a client writes them\<close>

lemma arg1_command: "CHR ''|'' \<notin> set cmd \<Longrightarrow> TrimSpace a \<noteq> [] \<Longrightarrow> arg1 (cmd @ CHR ''|'' # a) = Some (TrimSpace a)"
  by (simp add: arg1_def SplitN_two)

lemma arg2_command:
  "CHR ''|'' \<notin> set cmd \<Longrightarrow> CHR ''|'' \<notin> set a \<Longrightarrow> TrimSpace a \<noteq> [] \<Longrightarrow> TrimSpace d \<noteq> [] \<Longrightarrow>
   arg2 (cmd @ CHR ''|'' # a @ CHR ''|'' # d) = Some (TrimSpace a, TrimSpace d)"
  by (simp add: arg2_def SplitN_three)

section \<open>Before login\<close>

text \<open>The four maps of the store.\<close>

definition maps_of :: "('d, 'c) store \<Rightarrow>
    64 word gomap \<times> Message gomap \<times> Message gomap gomap \<times> DeliveryEntry gomap gomap" where
  "maps_of s = (nextSeq s, messages s, byClient s, deliveries s)"

lemma maps_of_dao [simp]:
  "maps_of (s\<lparr>db := d\<rparr>) = maps_of s" "maps_of (s\<lparr>cache := c\<rparr>) = maps_of s"
  by (simp_all add: maps_of_def)

text \<open>Everything a connection that is not logged in must leave alone.\<close>

definition untouched :: "('d, 'c) sys \<Rightarrow> ('d, 'c) sys \<Rightarrow> bool" where
  "untouched y z \<longleftrightarrow> idents z = idents y \<and> OnlineMap (im_srv z) = OnlineMap (im_srv y) \<and>
     the_groups z = the_groups y \<and> srv_worker (im_srv z) = srv_worker (im_srv y) \<and>
     maps_of (the_store (im_srv z)) = maps_of (the_store (im_srv y))"

lemma untouched_refl [simp]: "untouched y y"
  by (simp add: untouched_def)

lemma untouched_trans: "untouched x y \<Longrightarrow> untouched y z \<Longrightarrow> untouched x z"
  by (simp add: untouched_def)

lemma untouched_length: "untouched y z \<Longrightarrow> length (conns z) = length (conns y)"
  unfolding untouched_def by (blast intro: idents_length)

lemma untouched_SendMsg [simp]: "untouched y (SendMsg c m z) = untouched y z"
  by (simp add: untouched_def) (simp add: SendMsg_def markOutboundMessage_def)

lemma untouched_inbound [simp]: "untouched y (on_srv markInboundMessage y)"
  by (simp add: untouched_def markInboundMessage_def)

lemma untouched_on_store:
  "(\<And>s. maps_of (snd (g s)) = maps_of s) \<Longrightarrow> untouched y (snd (on_store g y))"
  by (simp add: untouched_def on_store_eq set_store_def)

lemma maps_of_parts [simp]:
  "maps_of (cache_user b j name u s) = maps_of s"
  by (simp add: cache_user_def split: option.split)

lemma maps_of_GetUserByName: "maps_of (snd (GetUserByName b j name s)) = maps_of s"
  by (simp add: GetUserByName_def case_prod_beta split: option.split sum.split)

lemma maps_of_CreateUser: "maps_of (snd (CreateUser b j u s)) = maps_of s"
  by (simp add: CreateUser_def case_prod_beta split: option.split sum.split)

text \<open>
  What it takes to get in: the login checks on name and password, against the account found in this
  state, and the checks of a registration: the name is well formed and has no account, and the row is
  created with the hash of this password, in the state the look-up leaves.
\<close>

definition may_log_in :: "ext \<Rightarrow> ('d, 'c) backend \<Rightarrow> string \<Rightarrow> string \<Rightarrow> ('d, 'c) sys \<Rightarrow> bool" where
  "may_log_in x b name pw y \<longleftrightarrow>
     (case fst (GetUserByName b (x_user_json x) name (the_store (im_srv y))) of
        Inr su \<Rightarrow> x_check x (DU_PasswordHash su) pw
      | Inl _ \<Rightarrow> False)"

definition may_register :: "ext \<Rightarrow> ('d, 'c) backend \<Rightarrow> string \<Rightarrow> string \<Rightarrow> ('d, 'c) sys \<Rightarrow> bool" where
  "may_register x b name pw y \<longleftrightarrow> name \<noteq> [] \<and> \<not> ContainsAny name name_breaks \<and>
     (case (GetUserByName b (x_user_json x) name (the_store (im_srv y)), x_hash x pw) of
        ((Inl _, s), Inr hash) \<Rightarrow> fst (CreateUser b (x_user_json x) (Some (new_user name hash)) s) = None
      | _ \<Rightarrow> False)"

text \<open>
  The line \<open>raw\<close> carries the credentials for \<open>name\<close>: it is \<open>login|name|password\<close> or
  \<open>register|name|password\<close>, in capitals or not, with the password after the second bar; a login
  ignores white space around the password, a registration takes it as it is.
\<close>

definition may_enter :: "ext \<Rightarrow> ('d, 'c) backend \<Rightarrow> string \<Rightarrow> ('d, 'c) sys \<Rightarrow> string \<Rightarrow> bool" where
  "may_enter x b raw y name \<longleftrightarrow>
     (let line = TrimSpace (decodeInputText (x_gb18030 x) raw) in
      case SplitN CHR ''|'' 3 line of
        [_, n, pw] \<Rightarrow> name = TrimSpace n \<and>
          (if lower_prefix ''register|'' line then may_register x b name pw y
           else lower_prefix ''login|'' line \<and> TrimSpace pw \<noteq> [] \<and> may_log_in x b name (TrimSpace pw) y)
      | _ \<Rightarrow> False)"

lemma name_frame [simp]:
  "k < length (conns y) \<Longrightarrow> u_Name (the_user (Online x b rs c y) k) = u_Name (the_user y k)"
  "k < length (conns y) \<Longrightarrow> u_Name (the_user (snd (on_store g y)) k) = u_Name (the_user y k)"
  "k < length (conns y) \<Longrightarrow> u_Name (the_user (SendMsg c m y) k) = u_Name (the_user y k)"
  by (rule idents_fields; simp)+

lemma name_enter:
  "c < length (conns y) \<Longrightarrow> u_Name (the_user (enter x b rs c name y) c) = name"
  by (simp add: enter_def)

lemma name_login_commit:
  "c < length (conns y) \<Longrightarrow> u_Name (the_user (login_commit x b rs c name y) c) = name"
  by (simp add: login_commit_def name_enter)

lemma Login_cases:
  assumes "c < length (conns y)"
  shows "fst (Login x b rs c name pw y) \<noteq> None \<and> untouched y (snd (Login x b rs c name pw y)) \<or>
    fst (Login x b rs c name pw y) = None \<and> may_log_in x b (TrimSpace name) pw y \<and>
    u_Name (the_user (snd (Login x b rs c name pw y)) c) = TrimSpace name"
proof -
  let ?n = "TrimSpace name"
  obtain r y1 where r: "on_store (GetUserByName b (x_user_json x) ?n) y = (r, y1)" by fastforce
  then have y1: "y1 = snd (on_store (GetUserByName b (x_user_json x) ?n) y)"
    and res: "r = fst (GetUserByName b (x_user_json x) ?n (the_store (im_srv y)))"
    by (simp_all add: on_store_eq)
  have same: "untouched y y1" unfolding y1 by (rule untouched_on_store[OF maps_of_GetUserByName])
  have "c < length (conns y1)" using assms untouched_length[OF same] by simp
  note name = name_login_commit[OF this]
  show ?thesis
  proof (cases r)
    case (Inl e)
    with same show ?thesis by (cases "?n = []") (simp_all add: Login_def login_check_def r)
  next
    case (Inr su)
    show ?thesis
    proof (cases "?n = [] \<or> \<not> x_check x (DU_PasswordHash su) pw \<or> is_online (rs 0) ?n y1")
      case True
      with same Inr show ?thesis by (auto simp: Login_def login_check_def r)
    next
      case False
      then have "may_log_in x b ?n pw y"
        using res[symmetric] Inr by (simp add: may_log_in_def)
      with False Inr name show ?thesis by (simp add: Login_def login_check_def r)
    qed
  qed
qed

lemma Register_cases:
  assumes "c < length (conns y)"
  shows "fst (Register x b rs c name pw y) \<noteq> None \<and> untouched y (snd (Register x b rs c name pw y)) \<or>
    fst (Register x b rs c name pw y) = None \<and> may_register x b (TrimSpace name) pw y \<and>
    u_Name (the_user (snd (Register x b rs c name pw y)) c) = TrimSpace name"
proof -
  let ?n = "TrimSpace name"
  obtain r y1 where r: "on_store (GetUserByName b (x_user_json x) ?n) y = (r, y1)" by fastforce
  then have y1: "y1 = snd (on_store (GetUserByName b (x_user_json x) ?n) y)"
    and res: "r = fst (GetUserByName b (x_user_json x) ?n (the_store (im_srv y)))"
    by (simp_all add: on_store_eq)
  have same: "untouched y y1" unfolding y1 by (rule untouched_on_store[OF maps_of_GetUserByName])
  show ?thesis
  proof (cases "x_hash x pw")
    case (Inr hash)
    obtain e y2 where e: "on_store (CreateUser b (x_user_json x) (Some (new_user ?n hash))) y1 = (e, y2)"
      by fastforce
    then have y2: "y2 = snd (on_store (CreateUser b (x_user_json x) (Some (new_user ?n hash))) y1)"
      and e': "e = fst (CreateUser b (x_user_json x) (Some (new_user ?n hash)) (the_store (im_srv y1)))"
      by (simp_all add: on_store_eq)
    have "untouched y1 y2" unfolding y2 by (rule untouched_on_store[OF maps_of_CreateUser])
    with same have same2: "untouched y y2" by (rule untouched_trans)
    have "c < length (conns y2)" using assms untouched_length[OF same2] by simp
    note name = name_enter[OF this]
    show ?thesis
    proof (cases "?n = [] \<or> ContainsAny ?n name_breaks \<or> is_online (rs 0) ?n y \<or> (\<exists>su. r = Inr su)")
      case True
      then show ?thesis
        using same
        by (cases "?n = [] \<or> ContainsAny ?n name_breaks"; cases "is_online (rs 0) ?n y")
          (auto simp: Register_def Let_def r)
    next
      case False
      then obtain er where er: "r = Inl er" by (cases r) auto
      show ?thesis
      proof (cases e)
        case None
        have "GetUserByName b (x_user_json x) ?n (the_store (im_srv y)) = (Inl er, the_store (im_srv y1))"
          using res er y1 by (simp add: on_store_eq prod_eq_iff set_store_def)
        then have "may_register x b ?n pw y"
          using e' None False Inr by (simp add: may_register_def)
        with None False er Inr name show ?thesis by (simp add: Register_def Let_def r e)
      qed (use False er Inr same2 in \<open>simp add: Register_def Let_def r e\<close>)
    qed
  next
    case (Inl er)
    have "fst (Register x b rs c name pw y) \<noteq> None" "untouched y (snd (Register x b rs c name pw y))"
      using same Inl by (simp_all add: Register_def Let_def r split: sum.split)
    then show ?thesis by blast
  qed
qed

text \<open>
  C5: a connection that is not logged in has no effect until it presents credentials. Any line it
  sends, in whatever form, either leaves the online map, the groups, the delivery queue, the
  messages and deliveries in memory, and every session's name and standing exactly as they were; or the
  line itself carries a name and a password, the password passes the check against the hash of the
  account found under that name, or there is no such account and it is created with the hash of
  that password, and the session has that name afterwards.
\<close>

theorem entry_requires_credentials:
  assumes "c < length (conns y)" and "\<not> Authenticated (the_user y c)"
  shows "untouched y (snd (manager_round x b rs c (RawLine raw) y)) \<or>
    may_enter x b raw y (u_Name (the_user (snd (manager_round x b rs c (RawLine raw) y)) c))"
proof -
  let ?y = "on_srv markInboundMessage y"
  define msg where "msg = TrimSpace (decodeInputText (x_gb18030 x) raw)"
  have store: "may_log_in x b n pw ?y = may_log_in x b n pw y" "may_register x b n pw ?y = may_register x b n pw y" for n pw
    by (simp_all add: may_log_in_def may_register_def markInboundMessage_def)
  have c: "c < length (conns ?y)" using assms(1) by simp
  have ok: "untouched y (snd p) \<or> u_Name (the_user (snd p) c) = n \<and> E"
    if "p = (case q of (Some e, y1) \<Rightarrow> (False, SendMsg c (f e) y1) | (None, y1) \<Rightarrow> (True, SendMsg c (g y1) y1))"
      and "fst q \<noteq> None \<and> untouched ?y (snd q) \<or>
        fst q = None \<and> E \<and> u_Name (the_user (snd q) c) = n"
      and "length (conns (snd q)) = length (conns ?y)" for p q f g n E
  proof (cases q)
    case (Pair e y1)
    show ?thesis
    proof (cases e)
      case None
      then have "u_Name (the_user (SendMsg c m y1) c) = n" for m
        using that Pair c by simp
      then show ?thesis using that Pair None by simp
    next
      case (Some err)
      then have "untouched y y1" using that Pair untouched_trans[OF untouched_inbound] by simp
      then show ?thesis using that Pair Some by simp
    qed
  qed
  have sent: "untouched y (SendMsg c m ?y)" for m by simp
  have "untouched y (snd (handleAuthCommand x b rs c msg ?y)) \<or>
      may_enter x b raw y (u_Name (the_user (snd (handleAuthCommand x b rs c msg ?y)) c))"
  proof (cases "\<exists>k n pw. SplitN CHR ''|'' 3 msg = [k, n, pw]")
    case True
    then obtain k n pw where "SplitN CHR ''|'' 3 msg = [k, n, pw]" by blast
    note line = this
    have reg: "untouched y (snd p) \<or> u_Name (the_user (snd p) c) = TrimSpace n \<and> may_register x b (TrimSpace n) pw y"
      if "p = (case Register x b rs c (TrimSpace n) pw ?y of
        (Some e, y1) \<Rightarrow> (False, SendMsg c (f e) y1) | (None, y1) \<Rightarrow> (True, SendMsg c (g y1) y1))" for p f g
      by (rule ok[OF that Register_cases[OF c, of x b rs "TrimSpace n" pw, unfolded store TrimSpace_idem] length_Register])
    have log: "untouched y (snd p) \<or> u_Name (the_user (snd p) c) = TrimSpace n \<and> may_log_in x b (TrimSpace n) (TrimSpace pw) y"
      if "p = (case Login x b rs c (TrimSpace n) (TrimSpace pw) ?y of
        (Some e, y1) \<Rightarrow> (False, SendMsg c (f e) y1) | (None, y1) \<Rightarrow> (True, SendMsg c (g y1) y1))" for p f g
      by (rule ok[OF that Login_cases[OF c, of x b rs "TrimSpace n" "TrimSpace pw", unfolded store TrimSpace_idem] length_Login])
    define R where "R = (case Register x b rs c (TrimSpace n) pw ?y of
      (Some e, y1) \<Rightarrow> (False, SendMsg c (txt_register_failed @ e @ nl) y1)
    | (None, y1) \<Rightarrow> (True, SendMsg c (txt_registered @ u_Name (the_user y1 c) @ nl) y1))"
    define L where "L = (case Login x b rs c (TrimSpace n) (TrimSpace pw) ?y of
      (Some e, y1) \<Rightarrow> (False, SendMsg c (txt_login_failed @ e @ nl) y1)
    | (None, y1) \<Rightarrow> (True, SendMsg c (txt_logged_in @ u_Name (the_user y1 c) @ nl) y1))"
    show ?thesis
      unfolding handleAuthCommand_def may_enter_def Let_def msg_def[symmetric] line list.case R_def[symmetric] L_def[symmetric]
      using sent reg[OF R_def] log[OF L_def] by auto
  next
    case False
    then show ?thesis
      unfolding handleAuthCommand_def using sent by (simp split: list.split)
  qed
  then show ?thesis using assms by (simp add: manager_round_def processRawLine_def Let_def msg_def)
qed

section \<open>A connection that registers, for instances\<close>

lemma connect_state:
  assumes "fst (accept_round (rs 0) (Some remote) (im_srv y)) = None" and "z = exec_event x b rs (Connect remote) y"
  shows "conns z = conns y @ [\<lparr>u_Name = remote, u_Addr = remote, C = [txt_prompt_auth], Authenticated = False, isClosed = False,
           loggedOut = False, heartbeatCancel = None, listening = True, wire = []\<rparr>]" "the_store (im_srv z) = the_store (im_srv y)"
    "OnlineMap (im_srv z) = OnlineMap (im_srv y)" "srv_worker (im_srv z) = srv_worker (im_srv y)"
proof -
  obtain v where v: "accept_round (rs 0) (Some remote) (im_srv y) = (None, v)" using assms(1) by (metis prod.collapse)
  then have eq: "v = snd (accept_round (rs 0) (Some remote) (im_srv y))" by simp
  have st: "the_store v = the_store (im_srv y)" "OnlineMap v = OnlineMap (im_srv y)" "srv_worker v = srv_worker (im_srv y)"
    unfolding eq by (simp_all add: accept_round_def case_prod_beta split: option.split)
  show "conns z = conns y @ [\<lparr>u_Name = remote, u_Addr = remote, C = [txt_prompt_auth], Authenticated = False, isClosed = False,
           loggedOut = False, heartbeatCancel = None, listening = True, wire = []\<rparr>]" "the_store (im_srv z) = the_store (im_srv y)"
    "OnlineMap (im_srv z) = OnlineMap (im_srv y)" "srv_worker (im_srv z) = srv_worker (im_srv y)"
    unfolding assms(2) by (simp_all add: exec_event_def v Handler_start_def NewUser_def SendMsg_def chan_cap_def st markOutboundMessage_def handler_enter_def)
qed

lemma sample_users:
  "t_first (users_t sample_db) w d = (case filter w (user_rows d) of [] \<Rightarrow> Inl ErrRecordNotFound | x # _ \<Rightarrow> Inr x, d)"
  "user_rows d = [] \<Longrightarrow> \<exists>x d'. t_create (users_t sample_db) row d = (Inr x, d')"
  by (simp_all add: sample_db_def list_table_def Let_def)

lemma new_name_registers:
  assumes "OnlineMap (im_srv y) = []" "persistent (the_store (im_srv y))" "user_rows (db (the_store (im_srv y))) = []"
    "cache (the_store (im_srv y)) = []" "gorm b = sample_db" "client b = None \<or> client b = Some sample_redis"
    "c < length (conns y)" "TrimSpace n = n" "n \<noteq> []" "\<not> ContainsAny n name_breaks"
  shows "fst (Register sample_ext b rs c n pw y) = None \<and> Authenticated (the_user (snd (Register sample_ext b rs c n pw y)) c)"
proof -
  have "\<not> is_online r n y" for r
    using assms(1) by (simp add: is_online_def ListOnlineUsers_def List.map_filter_def)
  moreover obtain r1 y1 where y1: "on_store (GetUserByName b (x_user_json sample_ext) n) y = (r1, y1)" by fastforce
  have "r1 = Inl (Gorm ErrRecordNotFound)" "user_rows (db (the_store (im_srv y1))) = []" "persistent (the_store (im_srv y1))"
    using assms(2,3,4,6) y1 by (auto simp: on_store_eq GetUserByName_def cached_user_def sample_redis_def assms(5)
        sample_users set_store_def)
  moreover have "conns y1 = conns y" using y1 by (auto simp: on_store_def case_prod_beta)
  moreover obtain r2 y2 where y2: "on_store (CreateUser b (x_user_json sample_ext) (Some (new_user n pw))) y1 = (r2, y2)" by fastforce
  moreover have "conns y2 = conns y1" using y2 by (auto simp: on_store_def case_prod_beta)
  moreover have "r2 = None" using y2 calculation sample_users(2)[of "db (the_store (im_srv y1))" "new_user n pw"]
    by (auto simp: on_store_eq CreateUser_def assms(5))
  moreover have "x_hash sample_ext pw = Inr pw" by (simp add: sample_ext_def)
  moreover have "Authenticated (the_user (enter sample_ext b rs' c n y2) c)" if "c < length (conns y2)" for rs' n
    using idents_fields(3)[OF idents_Online, of c "upd c (\<lambda>u. u\<lparr>u_Name := n, Authenticated := True\<rparr>) y2" sample_ext b rs' c] that
    by (simp add: enter_def)
  ultimately show ?thesis using assms(7-10) by (simp add: Register_def Let_def y1)
qed

lemma register_line:
  assumes line: "TrimSpace (decodeInputText (x_gb18030 sample_ext) l) = l" "lower_prefix ''register|'' l" "l \<noteq> []"
      "SplitN CHR ''|'' 3 l = [k, n, pw]" "TrimSpace n = n" "n \<noteq> []" "\<not> ContainsAny n name_breaks"
    and y: "OnlineMap (im_srv y) = []" "persistent (the_store (im_srv y))" "user_rows (db (the_store (im_srv y))) = []"
      "cache (the_store (im_srv y)) = []" "gorm b = sample_db" "client b = None \<or> client b = Some sample_redis"
      "c < length (conns y)" "\<not> Authenticated (the_user y c)"
    and m: "manager_round sample_ext b rs c (RawLine l) y = (alive, z)"
  shows "alive \<and> Authenticated (the_user z c) \<and> u_Name (the_user z c) = n"
proof -
  let ?y = "on_srv markInboundMessage y"
  obtain y1 where "Register sample_ext b rs c n pw ?y = (None, y1)"
    "Authenticated (the_user y1 c)" "length (conns y1) = length (conns y)" "u_Name (the_user y1 c) = n"
    using new_name_registers[of ?y b c n rs pw] y line length_Register[of sample_ext b rs c n pw ?y]
      Register_cases[of c ?y sample_ext b rs n pw]
    by (cases "Register sample_ext b rs c n pw ?y") (auto simp: markInboundMessage_def)
  moreover from this(2-4) have "Authenticated (the_user (SendMsg c t y1) c) \<and> u_Name (the_user (SendMsg c t y1) c) = n" for t
    using idents_fields(1,3)[OF idents_SendMsg, of c y1 c t] y(7) by simp
  ultimately show ?thesis
    using m y(8) line by (auto simp: manager_round_def processRawLine_def Let_def handleAuthCommand_def)
qed

text \<open>A process on empty tables with one connection that has not logged in, and registers.\<close>

definition guest_sys :: "(tables, (string \<times> string) list) sys" where
  "guest_sys = (boot [] True no_tables [] 0 sample_backend (sample_rt 0))
     \<lparr>conns := [(sample_user ''10.0.0.7:5000'')\<lparr>Authenticated := False\<rparr>]\<rparr>"

definition guest_registered :: "(tables, (string \<times> string) list) sys" where
  "guest_registered = snd (manager_round sample_ext sample_backend (\<lambda>_. sample_rt 0) 0
     (RawLine ''register|bob|pw'') guest_sys)"

theorem entry_requires_credentials_witness:
  "Authenticated (the_user guest_registered 0) \<and>
   may_enter sample_ext sample_backend ''register|bob|pw'' guest_sys ''bob''"
proof -
  let ?l = "''register|bob|pw''"
  have y: "OnlineMap (im_srv guest_sys) = []" "persistent (the_store (im_srv guest_sys))"
    "user_rows (db (the_store (im_srv guest_sys))) = []" "cache (the_store (im_srv guest_sys)) = []"
    by code_simp+
  have c: "0 < length (conns guest_sys)" "\<not> Authenticated (the_user guest_sys 0)"
    by (simp_all add: guest_sys_def)
  have line: "TrimSpace (decodeInputText (x_gb18030 sample_ext) ?l) = ?l" "lower_prefix ''register|'' ?l" "?l \<noteq> []"
    "SplitN CHR ''|'' 3 ?l = [''register'', ''bob'', ''pw'']" "TrimSpace ''bob'' = ''bob''" "''bob'' \<noteq> []"
    "\<not> ContainsAny ''bob'' name_breaks"
    by code_simp+
  have "gorm sample_backend = sample_db" "client sample_backend = None \<or> client sample_backend = Some sample_redis"
    by (simp_all add: sample_backend_def)
  from register_line[OF line y this c, of "\<lambda>_. sample_rt 0"]
  have new: "Authenticated (the_user guest_registered 0)" "u_Name (the_user guest_registered 0) = ''bob''"
    unfolding guest_registered_def by (metis prod.collapse)+
  have "\<not> untouched guest_sys guest_registered"
    using new(1) c idents_fields(3)[of guest_registered guest_sys 0] by (auto simp: untouched_def)
  with entry_requires_credentials[OF c, of sample_ext sample_backend "\<lambda>_. sample_rt 0" ?l] new show ?thesis
    by (simp add: guest_registered_def)
qed

end
