(* ===== verification/Name_Props.thy ===== *)
theory Name_Props
  imports Session_Props
begin

text \<open>
  What happens to names: renaming takes over the name of somebody else, lines that are still
  buffered after \<open>exit\<close> are obeyed and can leave a name occupied for ever, and two logins under
  way at the same time both succeed.
\<close>

section \<open>Renaming\<close>

lemma useRename_eq:
  assumes "arg1 msg = Some n" and "length n \<le> 20" and "\<not> ContainsAny n name_breaks"
  shows "useRename c msg y =
    SendMsg c (txt_renamed_1 @ u_Name (the_user y c) @ txt_renamed_2 @ n @ nl)
      (on_srv (RegisterOnline n (Some c) (u_Addr (the_user y c)))
        (upd c (\<lambda>u. u\<lparr>u_Name := n\<rparr>) (on_srv (UnregisterOnline (u_Name (the_user y c))) y)))"
  using assms by (simp add: useRename_def Let_def)

lemma arg1_ne: "arg1 msg = Some n \<Longrightarrow> n \<noteq> []"
  by (auto simp: arg1_def split: list.splits if_splits)

lemma cache_kept [simp]:
  "the_store (UnregisterOnline n v) = the_store v" "the_store (RegisterOnline n s a v) = the_store v"
  "the_store (markOutboundMessage v) = the_store v"
  by (simp_all add: UnregisterOnline_def RegisterOnline_def markOutboundMessage_def split: option.split)

lemma store_SendMsg [simp]: "the_store (im_srv (SendMsg c m y)) = the_store (im_srv y)"
  by (simp add: SendMsg_def)

lemma heartbeat_SendMsg [simp]:
  "c < length (conns y) \<Longrightarrow> heartbeatCancel (the_user (SendMsg c m y) c) = heartbeatCancel (the_user y c)"
  by (simp add: SendMsg_def)

lemma useRename_spec:
  assumes "arg1 msg = Some n" and "length n \<le> 20" and "\<not> ContainsAny n name_breaks"
    and "c < length (conns y)" and "u_Name (the_user y c) \<noteq> []"
  defines "z \<equiv> useRename c msg y"
  shows "u_Name (the_user z c) = n" "heartbeatCancel (the_user z c) = heartbeatCancel (the_user y c)"
    "isClosed (the_user z c) = isClosed (the_user y c)" "loggedOut (the_user z c) = loggedOut (the_user y c)"
    "the_store (im_srv z) = the_store (im_srv y)" "length (conns z) = length (conns y)"
    "map_of (OnlineMap (im_srv z)) = (map_of (OnlineMap (im_srv y)))
      (u_Name (the_user y c) := None, n \<mapsto> \<lparr>sender = c, addr = u_Addr (the_user y c)\<rparr>)"
    "k \<noteq> c \<Longrightarrow> the_user z k = the_user y k"
proof -
  let ?y = "on_srv (RegisterOnline n (Some c) (u_Addr (the_user y c)))
    (upd c (\<lambda>u. u\<lparr>u_Name := n\<rparr>) (on_srv (UnregisterOnline (u_Name (the_user y c))) y))"
  let ?m = "txt_renamed_1 @ u_Name (the_user y c) @ txt_renamed_2 @ n @ nl"
  have z: "z = SendMsg c ?m ?y" unfolding z_def by (rule useRename_eq[OF assms(1-3)])
  have "idents z = idents ?y" by (simp add: z)
  note same = idents_fields[OF this, of c]
  show "u_Name (the_user z c) = n" "isClosed (the_user z c) = isClosed (the_user y c)"
    "loggedOut (the_user z c) = loggedOut (the_user y c)"
    using same assms(4) by simp_all
  show "heartbeatCancel (the_user z c) = heartbeatCancel (the_user y c)"
    "the_store (im_srv z) = the_store (im_srv y)" "length (conns z) = length (conns y)"
    using assms(4) by (simp_all add: z)
  show "map_of (OnlineMap (im_srv z)) = (map_of (OnlineMap (im_srv y)))
      (u_Name (the_user y c) := None, n \<mapsto> \<lparr>sender = c, addr = u_Addr (the_user y c)\<rparr>)"
    using arg1_ne[OF assms(1)] assms(5) by (simp add: z RegisterOnline_def UnregisterOnline_def)
  show "the_user z k = the_user y k" if "k \<noteq> c" using that by (simp add: z)
qed

text \<open>
  C36: renaming asks for no password and does not look whether the name is in use. Whoever holds
  the new name, its entry in the online map now leads to the renamed connection, which therefore
  gets the messages delivered to that name; the old holder keeps the name and its session, and
  when it logs out the entry of the renamed connection is removed. The heartbeat and the cached
  presence stay those of the old name.
\<close>

theorem rename_takes_over_name:
  assumes "arg1 msg = Some n" and "length n \<le> 20" and "\<not> ContainsAny n name_breaks"
    and "c < length (conns y)" and "u_Name (the_user y c) \<noteq> []"
    and "k < length (conns y)" and "k \<noteq> c" and "u_Name (the_user y k) = n" and "\<not> loggedOut (the_user y k)"
    and z_def: "z = useRename c msg y"
  shows "map_of (OnlineMap (im_srv z)) n = Some \<lparr>sender = c, addr = u_Addr (the_user y c)\<rparr> \<and>
    the_user z k = the_user y k \<and> u_Name (the_user z c) = u_Name (the_user z k) \<and>
    map_of (OnlineMap (im_srv (Logout b rs k z))) n = None \<and>
    heartbeatCancel (the_user z c) = heartbeatCancel (the_user y c) \<and>
    the_store (im_srv z) = the_store (im_srv y)"
proof -
  note spec = useRename_spec[OF assms(1-5), folded z_def]
  have k: "the_user z k = the_user y k" by (rule spec(8)[OF assms(7)])
  have "k < length (conns z)" "\<not> loggedOut (the_user z k)" using assms(6,9) spec(6) k by simp_all
  from online_Logout[OF this, of b rs]
  have "map_of (OnlineMap (im_srv (Logout b rs k z))) n = None"
    using k assms(8) arg1_ne[OF assms(1)] by (simp add: UnregisterOnline_def)
  with spec k assms(8) show ?thesis by simp
qed

definition two_users :: "(tables, (string \<times> string) list) sys" where
  "two_users = sample_sys [sample_user ''ann'', sample_user ''bob'']
     [(''ann'', \<lparr>sender = 0, addr = ''10.0.0.7:5000''\<rparr>), (''bob'', \<lparr>sender = 1, addr = ''10.0.0.7:5000''\<rparr>)]"

lemma two_users_simps [simp]:
  "conns two_users = [sample_user ''ann'', sample_user ''bob'']" "logouts two_users = []"
  "OnlineMap (im_srv two_users) = [(''ann'', \<lparr>sender = 0, addr = ''10.0.0.7:5000''\<rparr>),
    (''bob'', \<lparr>sender = 1, addr = ''10.0.0.7:5000''\<rparr>)]"
  by (simp_all add: two_users_def sample_sys_def Let_def boot_def)

lemma rename_line: "arg1 ''rename|bob'' = Some ''bob''" "\<not> ContainsAny ''bob'' name_breaks"
  by code_simp+

theorem rename_takes_over_name_witness:
  "map_of (OnlineMap (im_srv (useRename 0 ''rename|bob'' two_users))) ''bob'' =
     Some \<lparr>sender = 0, addr = ''10.0.0.7:5000''\<rparr>"
  using rename_takes_over_name[OF rename_line(1) _ rename_line(2), of 0 two_users 1 _ sample_backend "\<lambda>_. sample_rt 0"]
  by (simp add: sample_user_def)

section \<open>Lines after the end of a session\<close>

lemma set_map_filter: "set (List.map_filter f xs) = {v. \<exists>u \<in> set xs. f u = Some v}"
  by (induction xs) (auto simp: List.map_filter_simps split: option.splits)

lemma is_online_iff:
  assumes "range_ok r"
  shows "is_online r n y \<longleftrightarrow> map_of (OnlineMap (im_srv y)) n \<noteq> None"
proof -
  have "set (rng r (gkeys (OnlineMap (im_srv y)))) = {k. map_of (OnlineMap (im_srv y)) k \<noteq> None}"
    unfolding range_ok_set[OF assms] by (auto simp: in_gkeys_iff simp del: set_map)
  then show ?thesis
    by (auto simp: is_online_def ListOnlineUsers_def list_ex_iff set_map_filter)
qed

lemma online_on_store [simp]: "OnlineMap (im_srv (snd (on_store g y))) = OnlineMap (im_srv y)"
  by (simp add: on_store_eq set_store_def)

lemma login_check_online:
  assumes "range_ok r" and "map_of (OnlineMap (im_srv y)) n \<noteq> None"
  shows "fst (login_check x b r n pw y) \<noteq> None"
proof (cases "on_store (GetUserByName b (x_user_json x) n) y")
  case (Pair res y1)
  then have "OnlineMap (im_srv y1) = OnlineMap (im_srv y)"
    using online_on_store[of "GetUserByName b (x_user_json x) n" y] by simp
  with assms have "is_online r n y1" by (simp add: is_online_iff)
  with Pair show ?thesis by (simp add: login_check_def split: sum.split)
qed

text \<open>
  Lines that the connection had already sent when it said \<open>exit\<close> are still obeyed, and
  \<open>rename\<close> among them puts the closed session back on line, for ever: the name, whoever it
  belongs to, leads to a session that is closed and logged out, whose further logouts do nothing
  and to which nothing is sent any more; as long as the entry stays every login under that name
  is refused, whatever the password.
\<close>

theorem rename_after_exit_blocks_name:
  assumes "arg1 msg = Some n" and "length n \<le> 20" and "\<not> ContainsAny n name_breaks"
    and "c < length (conns y)" and "u_Name (the_user y c) \<noteq> []" and "\<not> loggedOut (the_user y c)"
    and z_def: "z = useRename c msg (useExit b rs c y)"
  shows "map_of (OnlineMap (im_srv z)) n = Some \<lparr>sender = c, addr = u_Addr (the_user y c)\<rparr> \<and>
    Logout b rs' c z = z \<and> SendMsg c m z = z \<and>
    (range_ok r \<longrightarrow> fst (login_check x b r n pw z) \<noteq> None)"
proof -
  let ?y0 = "SendMsg c txt_bye y"
  have "idents ?y0 = idents y" by simp
  note y0 = idents_fields[OF this assms(4)] and len0 = idents_length[OF this]
  have c0: "c < length (conns ?y0)" and out0: "\<not> loggedOut (the_user ?y0 c)"
    using assms(4,6) len0 y0 by simp_all
  have ended: "isClosed (the_user (useExit b rs c y) c)" "loggedOut (the_user (useExit b rs c y) c)"
    unfolding useExit_def by (rule ended_Logout[OF c0 out0])+
  have c1: "c < length (conns (useExit b rs c y))" using c0 by (simp add: useExit_def)
  have name: "u_Name (the_user (useExit b rs c y) c) = u_Name (the_user y c)"
    using name_kept_Logout[OF c0 c0, of b rs] y0 by (simp add: useExit_def)
  have addr: "u_Addr (the_user (useExit b rs c y) c) = u_Addr (the_user y c)"
    using idents_Logout[OF c0 out0, of b rs] nth_idents[OF c1] c0 y0
    by (simp add: useExit_def ident_def logged_out_def)
  have "u_Name (the_user (useExit b rs c y) c) \<noteq> []" using name assms(5) by simp
  note spec = useRename_spec[OF assms(1-3) c1 this, folded z_def]
  have online: "map_of (OnlineMap (im_srv z)) n = Some \<lparr>sender = c, addr = u_Addr (the_user y c)\<rparr>"
    using spec(7) addr by simp
  have "fst (login_check x b r n pw z) \<noteq> None" if "range_ok r"
    by (rule login_check_online[OF that]) (simp add: online)
  with online spec(3,4) ended show ?thesis by (simp add: Logout_def SendMsg_def)
qed

theorem rename_after_exit_blocks_name_witness:
  "fst (login_check sample_ext sample_backend (sample_rt 0) ''bob'' ''secret''
     (useRename 0 ''rename|bob'' (useExit sample_backend (\<lambda>_. sample_rt 0) 0 two_users))) \<noteq> None"
  using rename_after_exit_blocks_name[OF rename_line(1) _ rename_line(2), of 0 two_users _ sample_backend
      "\<lambda>_. sample_rt 0" "\<lambda>_. sample_rt 0" "[]" "sample_rt 0" sample_ext "''secret''"]
  by (simp add: sample_user_def)

section \<open>Logins under way at the same time\<close>

lemma online_startOnlineHeartbeat [simp]:
  "OnlineMap (im_srv (startOnlineHeartbeat x b c y)) = OnlineMap (im_srv y)"
  by (simp add: startOnlineHeartbeat_def Let_def split: option.split)

lemma online_Online [simp]:
  "OnlineMap (im_srv (Online x b rs c y)) =
   OnlineMap (RegisterOnline (u_Name (the_user y c)) (Some c) (u_Addr (the_user y c)) (im_srv y))"
  by (simp add: Online_def Let_def case_prod_beta pending_op.keeps_online)

lemma idents_login_commit:
  "c < length (conns y) \<Longrightarrow> idents (login_commit x b rs c n y) =
     (idents y)[c := ident (the_user y c\<lparr>u_Name := n, Authenticated := True\<rparr>)]"
  by (simp add: login_commit_def enter_def idents_upd_at)

lemma online_login_commit:
  "c < length (conns y) \<Longrightarrow> OnlineMap (im_srv (login_commit x b rs c n y)) =
     OnlineMap (RegisterOnline n (Some c) (u_Addr (the_user y c)) (im_srv y))"
  by (simp add: login_commit_def enter_def RegisterOnline_def)

lemma online_login_check [simp]: "OnlineMap (im_srv (snd (login_check x b r n pw y))) = OnlineMap (im_srv y)"
proof (cases "on_store (GetUserByName b (x_user_json x) n) y")
  case (Pair res y1)
  then have "OnlineMap (im_srv y1) = OnlineMap (im_srv y)"
    using online_on_store[of "GetUserByName b (x_user_json x) n" y] by simp
  with Pair show ?thesis by (simp add: login_check_def split: sum.split)
qed

lemma login_check_ne: "fst (login_check x b r n pw y) = None \<Longrightarrow> n \<noteq> []"
  by (auto simp: login_check_def)

text \<open>
  C37: the rule that a name is logged in once is checked and acted upon in two steps that no lock
  joins. When two connections have both passed the checks of \<open>Login\<close> before either goes on, both
  are let in under the same name. The online map leads to the one that came last, and when the
  other logs out, the name is taken off line although the last one's session is open.
\<close>

theorem concurrent_logins_both_enter:
  assumes "c < length (conns y)" and "k < length (conns y)" and "c \<noteq> k"
    and "\<not> loggedOut (the_user y c)" and "\<not> loggedOut (the_user y k)"
    and "login_check x b r1 n pw1 y = (None, y1)" and "login_check x b r2 n pw2 y1 = (None, y2)"
    and z_def: "z = login_commit x b rs2 k n (login_commit x b rs1 c n y2)"
  shows "Authenticated (the_user z c) \<and> u_Name (the_user z c) = n \<and>
    Authenticated (the_user z k) \<and> u_Name (the_user z k) = n \<and>
    map_of (OnlineMap (im_srv z)) n = Some \<lparr>sender = k, addr = u_Addr (the_user y k)\<rparr> \<and>
    map_of (OnlineMap (im_srv (Logout b rs3 c z))) n = None \<and>
    the_user (Logout b rs3 c z) k = the_user z k \<and> \<not> loggedOut (the_user z k)"
proof -
  let ?m = "login_commit x b rs1 c n y2"
  have n: "n \<noteq> []" using login_check_ne[of x b r1 n pw1 y] assms(6) by simp
  have y2: "idents y2 = idents y"
    using idents_login_check[of x b r1 n pw1 y] idents_login_check[of x b r2 n pw2 y1] assms(6,7) by simp
  have len: "length (conns y2) = length (conns y)" by (rule idents_length[OF y2])
  have m: "idents ?m = (idents y)[c := ident (the_user y2 c\<lparr>u_Name := n, Authenticated := True\<rparr>)]"
    using assms(1) len y2 by (simp add: idents_login_commit)
  then have lenm: "length (conns ?m) = length (conns y)" by (metis length_idents length_list_update)
  have z: "idents z = (idents ?m)[k := ident (the_user ?m k\<lparr>u_Name := n, Authenticated := True\<rparr>)]"
    unfolding z_def using assms(2) lenm by (intro idents_login_commit) simp
  then have lenz: "length (conns z) = length (conns y)" using lenm by (metis length_idents length_list_update)
  have c: "ident (the_user z c) = ident (the_user y2 c\<lparr>u_Name := n, Authenticated := True\<rparr>)"
    using nth_idents[of c z] assms(1,3) lenz m by (simp add: z)
  have km: "ident (the_user ?m k) = ident (the_user y k)"
    using nth_idents[of k ?m] nth_idents[of k y] assms(2,3) lenm m by simp
  have k: "ident (the_user z k) = ident (the_user ?m k\<lparr>u_Name := n, Authenticated := True\<rparr>)"
    using nth_idents[of k z] assms(2) lenz lenm by (simp add: z)
  have online: "map_of (OnlineMap (im_srv z)) n = Some \<lparr>sender = k, addr = u_Addr (the_user y k)\<rparr>"
    using online_login_commit[of k ?m x b rs2 n] assms(2) lenm n km
    by (simp add: z_def RegisterOnline_def ident_def)
  have out: "\<not> loggedOut (the_user z c)" "c < length (conns z)"
    using c idents_fields(5)[OF y2 assms(1)] assms(1,4) lenz by (simp_all add: ident_def)
  have "map_of (OnlineMap (im_srv (Logout b rs3 c z))) n = None"
    using online_Logout[OF out(2,1), of b rs3] c n by (simp add: UnregisterOnline_def ident_def)
  then show ?thesis using c k km online assms(3,5) by (simp add: ident_def)
qed

text \<open>An account \<open>bob\<close> in the database and two connections that have not logged in.\<close>

definition two_guests :: "(tables, (string \<times> string) list) sys" where
  "two_guests = (let y = sample_sys (replicate 2 ((sample_user ''10.0.0.7:5000'')\<lparr>Authenticated := False\<rparr>)) []
     in on_srv (set_store (NewInMemoryStore True
          (no_tables\<lparr>user_rows := [new_user ''bob'' ''secret'']\<rparr>) [])) y)"

lemma two_guests_check:
  "login_check sample_ext sample_backend (sample_rt 0) ''bob'' ''secret'' two_guests = (None, two_guests)"
proof -
  have online: "OnlineMap (im_srv two_guests) = []"
    and store: "the_store (im_srv two_guests) =
      NewInMemoryStore True (no_tables\<lparr>user_rows := [new_user ''bob'' ''secret'']\<rparr>) []"
    by (simp_all add: two_guests_def Let_def sample_sys_def set_store_def)
  have "set_store (the_store (im_srv two_guests)) (im_srv two_guests) = im_srv two_guests"
    by (simp add: set_store_def)
  moreover have "GetUserByName sample_backend (x_user_json sample_ext) ''bob''
      (the_store (im_srv two_guests)) = (Inr (new_user ''bob'' ''secret''), the_store (im_srv two_guests))"
    unfolding store by (simp add: GetUserByName_def NewInMemoryStore_def cached_user_def cache_user_def
        sample_defs sample_ext_def new_user_def)
  ultimately have "on_store (GetUserByName sample_backend (x_user_json sample_ext) ''bob'') two_guests =
      (Inr (new_user ''bob'' ''secret''), two_guests)"
    by (simp add: on_store_def on_srv_def)
  then show ?thesis
    by (simp add: login_check_def is_online_iff online) (simp add: sample_ext_def new_user_def)
qed

theorem concurrent_logins_both_enter_witness:
  "let z = login_commit sample_ext sample_backend (\<lambda>_. sample_rt 2) 1 ''bob''
       (login_commit sample_ext sample_backend (\<lambda>_. sample_rt 1) 0 ''bob'' two_guests)
   in Authenticated (the_user z 0) \<and> Authenticated (the_user z 1) \<and>
      u_Name (the_user z 0) = ''bob'' \<and> u_Name (the_user z 1) = ''bob''"
proof -
  have "0 < length (conns two_guests)" "1 < length (conns two_guests)" "(0::nat) \<noteq> 1"
    "\<not> loggedOut (the_user two_guests 0)" "\<not> loggedOut (the_user two_guests 1)"
    by (simp_all add: two_guests_def Let_def sample_sys_def sample_user_def)
  from concurrent_logins_both_enter[OF this two_guests_check two_guests_check refl,
      of "\<lambda>_. sample_rt 2" "\<lambda>_. sample_rt 1"]
  show ?thesis unfolding Let_def by blast
qed

end
