(* ===== verification/Chat_Props.thy ===== *)
theory Chat_Props
  imports Name_Props
begin

text \<open>
  Messages from session to session: a direct message reaches the channel of its addressee, what
  waits for a user is queued when the user comes on line, the sender of a JSON message is the one
  it names, and plain text is delivered to nobody.
\<close>

section \<open>A successful send\<close>

lemma send_commit_saved:
  assumes "send_commit (InMemoryStore b) r q rs l = (Saved m, l')"
  shows "From m = From q" "To m = To q" "Body m = Body q" "ChatID m = chat_of q"
    "ClientMsgID m = ClientMsgID q" "ServerMsgID m \<noteq> []" "Type m = TypeDeliver"
    "map_of (messages (l_store l')) (ServerMsgID m) = Some m"
    "\<exists>s d c. deliveries s = deliveries (l_store l) \<and> l_store l' =
      fold (saveDeliveryUnsafe (ServerMsgID m)) rs (saveMessageUnsafe m (s\<lparr>db := d, cache := c\<rparr>))"
proof -
  obtain n s1 where n: "i_NextSeq (InMemoryStore b) (chat_of q) (l_store l) = (n, s1)" by fastforce
  obtain i l1 where g: "GenerateServerMsgID (clk r 1) ''s'' (l\<lparr>l_store := s1\<rparr>) = (i, l1)" by fastforce
  obtain e s2 where save: "i_SaveMessageWithRecipients (InMemoryStore b) (Some
      (zero_Message\<lparr>Type := TypeDeliver, ServerMsgID := i, ClientMsgID := ClientMsgID q,
        ChatID := chat_of q, From := From q, To := To q, Seq := n, Body := Body q,
        Ts := unix (clk r 2)\<rparr>)) rs (l_store l1) = (e, s2)" by fastforce
  have m: "m = zero_Message\<lparr>Type := TypeDeliver, ServerMsgID := i, ClientMsgID := ClientMsgID q,
        ChatID := chat_of q, From := From q, To := To q, Seq := n, Body := Body q,
        Ts := unix (clk r 2)\<rparr>" and l': "l' = l1\<lparr>l_store := s2\<rparr>" and e: "e = None"
    using assms unfolding send_commit_def n g prod.case Let_def save by (auto split: option.splits)
  show "From m = From q" "To m = To q" "Body m = Body q" "ChatID m = chat_of q"
    "ClientMsgID m = ClientMsgID q" "Type m = TypeDeliver"
    by (simp_all add: m)
  show "ServerMsgID m \<noteq> []" using Generate_ne[of "clk r 1" "''s''" "l\<lparr>l_store := s1\<rparr>"] g by (simp add: m del: One_nat_def)
  have "l_store l1 = s1" using Generate_frame(1)[of "clk r 1" "''s''" "l\<lparr>l_store := s1\<rparr>"] g
    by (simp del: One_nat_def)
  moreover have "SaveMessageWithRecipients b (Some m) rs (l_store l1) = (None, s2)"
    using save e by (simp add: InMemoryStore_def m)
  ultimately obtain d c where s2: "s2 = fold (saveDeliveryUnsafe (ServerMsgID m)) rs
      (saveMessageUnsafe m (s1\<lparr>db := d, cache := c\<rparr>))"
    using Save_ok by blast
  have frame: "messages (fold (saveDeliveryUnsafe i) us s) = messages s" for i us and s :: "('a, 'b) store"
    by (induction us arbitrary: s) simp_all
  show "map_of (messages (l_store l')) (ServerMsgID m) = Some m"
    by (simp add: l' s2 frame saveMessageUnsafe_def Let_def)
  have "deliveries s1 = deliveries (l_store l)"
    using n NextSeq_frame[of b "chat_of q" "l_store l"] by (simp add: InMemoryStore_def)
  then show "\<exists>s d c. deliveries s = deliveries (l_store l) \<and> l_store l' =
      fold (saveDeliveryUnsafe (ServerMsgID m)) rs (saveMessageUnsafe m (s\<lparr>db := d, cache := c\<rparr>))"
    using s2 l' by auto
qed

lemma send_Saved:
  assumes "send b r req rs y = (Saved m, z)"
  shows "From m = From req" "To m = To req" "Body m = Body req" "ServerMsgID m \<noteq> []"
    "map_of (messages (the_store (im_srv z))) (ServerMsgID m) = Some m"
    "conns z = conns y" "logouts z = logouts y" "OnlineMap (im_srv z) = OnlineMap (im_srv y)"
    "srv_worker (im_srv z) = srv_worker (im_srv y)"
    "\<exists>s d c. deliveries s = deliveries (the_store (im_srv y)) \<and> the_store (im_srv z) =
      fold (saveDeliveryUnsafe (ServerMsgID m)) rs (saveMessageUnsafe m (s\<lparr>db := d, cache := c\<rparr>))"
proof -
  obtain l' where p: "ProcessSend (InMemoryStore b) r (Some req) rs (logic (im_srv y)) = (Saved m, l')"
    and z: "z = y\<lparr>im_srv := (im_srv y)\<lparr>logic := l'\<rparr>\<rparr>"
    using assms by (auto simp: send_def srv_ProcessSend_def split: prod.splits)
  obtain q l1 where q: "send_check (InMemoryStore b) r (Some req) (logic (im_srv y)) = (Inr q, l1)"
    and c: "send_commit (InMemoryStore b) r q rs l1 = (Saved m, l')"
    using p by (auto simp: ProcessSend_def send_check_def Let_def split: prod.splits sum.splits if_splits option.splits)
  have same: "From q = From req" "To q = To req" "Body q = Body req"
    using q by (auto simp: send_check_def Let_def split: if_splits prod.splits option.splits)
  have l1: "deliveries (l_store l1) = deliveries (the_store (im_srv y))"
    using q by (auto simp: send_check_def Let_def InMemoryStore_def GetMessageByClientID_def
        saveMessageUnsafe_def split: if_splits prod.splits option.splits sum.splits)
  note saved = send_commit_saved[OF c]
  show "From m = From req" "To m = To req" "Body m = Body req" "ServerMsgID m \<noteq> []"
    "map_of (messages (the_store (im_srv z))) (ServerMsgID m) = Some m"
    "conns z = conns y" "logouts z = logouts y" "OnlineMap (im_srv z) = OnlineMap (im_srv y)"
    "srv_worker (im_srv z) = srv_worker (im_srv y)"
    using saved same by (simp_all add: z)
  show "\<exists>s d c. deliveries s = deliveries (the_store (im_srv y)) \<and> the_store (im_srv z) =
      fold (saveDeliveryUnsafe (ServerMsgID m)) rs (saveMessageUnsafe m (s\<lparr>db := d, cache := c\<rparr>))"
    using saved(9) l1 by (simp add: z)
qed

section \<open>Delivery to a session\<close>

lemma Enqueue_idle:
  "i \<noteq> [] \<Longrightarrow> deliverQueue w = [] \<Longrightarrow> deliverInFlight w = [] \<Longrightarrow>
   deliverQueue (EnqueueServerMsg i w) = [i]"
  by (simp add: Enqueue_cases in_flight_def queue_cap_def)

lemma online_map_True: "map_of (online_map v) to = (if map_of (OnlineMap v) to = None then None else Some True)"
proof -
  have "map_of (map (\<lambda>(name, info). (name, True)) m) to = (if map_of m to = None then None else Some True)"
    for m :: "OnlineInfo gomap"
    by (induction m) auto
  then show ?thesis by (simp add: online_map_def)
qed

text \<open>Handing out: what is in a channel stays there, and what is handed to a session with room gets in.\<close>

lemma C_SendJSON:
  "d < length (conns y) \<Longrightarrow> set (C (the_user y d)) \<subseteq> set (C (the_user (SendJSON k m y) d))"
  by (cases "k = d") (auto simp: SendJSON_def SendMsg_def split: option.split)

lemma hand_out_keeps:
  "d < length (conns y) \<Longrightarrow> set (C (the_user y d)) \<subseteq> set (C (the_user (hand_out online out y) d))"
proof (induction out arbitrary: y)
  case (Cons p out)
  define y1 where "y1 = (case map_of online (fst p) of None \<Rightarrow> y
    | Some info \<Rightarrow> SendJSON (sender info) (Some (snd p)) y)"
  have "hand_out online (p # out) y = hand_out online out y1"
    by (simp add: hand_out_def y1_def case_prod_beta)
  moreover have "d < length (conns y1)" "set (C (the_user y d)) \<subseteq> set (C (the_user y1 d))"
    using Cons.prems C_SendJSON[OF Cons.prems] by (simp_all add: y1_def split: option.split)
  ultimately show ?case using Cons.IH[of y1] by auto
qed (simp add: hand_out_def)

lemma hand_out_reaches:
  assumes "(to, m) \<in> set out" and "map_of online to = Some info" and "d = sender info"
    and "d < length (conns y)" and "\<not> isClosed (the_user y d)" and "length (C (the_user y d)) < chan_cap"
    and "\<And>t m' info'. (t, m') \<in> set out \<Longrightarrow> map_of online t = Some info' \<Longrightarrow> sender info' = d \<Longrightarrow> m' = m"
  shows "marshal_message m \<in> set (C (the_user (hand_out online out y) d))"
  using assms
proof (induction out arbitrary: y)
  case (Cons p out)
  define y1 where "y1 = (case map_of online (fst p) of None \<Rightarrow> y
    | Some info \<Rightarrow> SendJSON (sender info) (Some (snd p)) y)"
  have step: "hand_out online (p # out) y = hand_out online out y1"
    by (simp add: hand_out_def y1_def case_prod_beta)
  have d1: "d < length (conns y1)" using Cons.prems(4) by (simp add: y1_def split: option.split)
  show ?case
  proof (cases "\<exists>info'. map_of online (fst p) = Some info' \<and> sender info' = d")
    case True
    then obtain info' where info': "map_of online (fst p) = Some info'" "sender info' = d" by blast
    have "snd p = m" using Cons.prems(7)[of "fst p" "snd p" info'] info' by simp
    then have "marshal_message m \<in> set (C (the_user y1 d))"
      using Cons.prems(4-6) info' by (simp add: y1_def SendJSON_def SendMsg_def)
    then show ?thesis using hand_out_keeps[OF d1] step by auto
  next
    case False
    then have "the_user y1 d = the_user y d" by (auto simp: y1_def split: option.split)
    moreover have "(to, m) \<in> set out" using Cons.prems(1-3) False by auto
    ultimately have "marshal_message m \<in> set (C (the_user (hand_out online out y1) d))"
      using Cons.prems d1 by (intro Cons.IH) auto
    then show ?thesis by (simp add: step)
  qed
qed simp

text \<open>The request of \<open>to|name|text\<close>.\<close>

abbreviation chat_request :: "rt \<Rightarrow> string \<Rightarrow> string \<Rightarrow> string \<Rightarrow> Message" where
  "chat_request r me to body \<equiv> zero_Message\<lparr>Type := TypeSend,
     ClientMsgID := ''c-'' @ itoa_int (clk r 0), From := me, To := to, Body := body\<rparr>"

text \<open>The session of every recipient the store gives, and of the addressee, gets the message.\<close>

lemma deliver_hands:
  assumes "sys_inv y" and "srv_worker (im_srv y) = Some w" and "deliverQueue w = i # q"
    and got: "GetMessageByServerID b i (the_store (im_srv y)) = (Some msg, s1)"
    and u: "u \<in> set (fst (GetRecipients b (rs 0) i s1)) \<or> u = To msg \<and> u \<noteq> []"
    and "map_of (OnlineMap (im_srv y)) u = Some info"
    and "\<not> isClosed (the_user y (sender info))" and "length (C (the_user y (sender info))) < chan_cap"
  shows "marshal_message (deliver_message i msg u) \<in> set (C (the_user (deliver x b rs y) (sender info)))"
proof -
  define one where "one = deliver_one (InMemoryStore b) rs (max_retry_setting (x_env x))
      (retry_delay_setting (x_env x)) (online_map (im_srv y)) i (the_store (im_srv y))"
  let ?y = "on_srv (\<lambda>v. set_store (snd one) (v\<lparr>srv_worker := Some (unmark i (w\<lparr>deliverQueue := q\<rparr>))\<rparr>)) y"
  have eq: "deliver x b rs y = hand_out (OnlineMap (im_srv y)) (fst one) ?y"
    using assms(2,3) by (simp add: deliver_def deliver_round_def one_def case_prod_beta)
  have "i_GetMessageByServerID (InMemoryStore b) i (the_store (im_srv y)) = (Some msg, s1)"
    using got by (simp add: InMemoryStore_def)
  note out = deliver_one_out[OF this, where rs = rs and mx = "max_retry_setting (x_env x)" and
      base = "retry_delay_setting (x_env x)" and online = "online_map (im_srv y)", folded one_def]
  have "(u, deliver_message i msg u) \<in> set (fst one)"
    using u assms(6) unfolding out by (auto simp: online_map_True InMemoryStore_def)
  moreover have presence: "sender info' < length (conns y) \<and> u_Name (the_user y (sender info')) = t"
    if "map_of (OnlineMap (im_srv y)) t = Some info'" for t info'
    using assms(1) that by (auto simp: sys_inv_def presence_ok_def)
  ultimately have "marshal_message (deliver_message i msg u) \<in>
      set (C (the_user (hand_out (OnlineMap (im_srv y)) (fst one) ?y) (sender info)))"
  proof (intro hand_out_reaches[OF _ assms(6) refl])
    fix t m' info'
    assume "(t, m') \<in> set (fst one)" "map_of (OnlineMap (im_srv y)) t = Some info'" "sender info' = sender info"
    then show "m' = deliver_message i msg u"
      using presence[of t info'] presence[OF assms(6)] unfolding out by auto
  qed (use assms(7,8) presence[OF assms(6)] in simp_all)
  then show ?thesis by (simp add: eq)
qed

lemma deliver_queued:
  assumes "sys_inv y" and "srv_worker (im_srv y) = Some w" and "deliverQueue w = i # q"
    and "map_of (messages (the_store (im_srv y))) i = Some msg" and "To msg \<noteq> []"
    and "map_of (OnlineMap (im_srv y)) (To msg) = Some info"
    and "\<not> isClosed (the_user y (sender info))" and "length (C (the_user y (sender info))) < chan_cap"
  shows "marshal_message (deliver_message i msg (To msg)) \<in> set (C (the_user (deliver x b rs y) (sender info)))"
  by (rule deliver_hands[OF assms(1-3) _ _ assms(6-8)]) (use assms(4,5) in \<open>simp_all add: GetMessageByServerID_def\<close>)

text \<open>
  What \<open>to|name|text\<close> leaves when its message has been accepted: the id is at the end of the queue, if there
  is room for it and it is not in flight.
\<close>

lemma chat_queued:
  assumes "sys_inv y" and "c < length (conns y)" and "arg2 msg = Some (to, body)" and "to \<noteq> u_Name (the_user y c)"
    and "srv_worker (im_srv y) = Some w" and "length (deliverQueue w) < queue_cap" and "ServerMsgID m \<notin> in_flight w"
    and "fst (send b (rs 1) (chat_request (rs 0) (u_Name (the_user y c)) to body) [to] y) = Saved m"
    and z_def: "z = useChat b rs c msg y"
  shows "sys_inv z" "From m = u_Name (the_user y c)" "To m = to" "Body m = body" "ServerMsgID m \<noteq> []" "to \<noteq> []"
    "map_of (messages (the_store (im_srv z))) (ServerMsgID m) = Some m"
    "\<exists>w'. srv_worker (im_srv z) = Some w' \<and> deliverQueue w' = deliverQueue w @ [ServerMsgID m]"
proof -
  let ?req = "chat_request (rs 0) (u_Name (the_user y c)) to body"
  obtain y1 where y1: "send b (rs 1) ?req [to] y = (Saved m, y1)"
    using assms(8) by (cases "send b (rs 1) ?req [to] y") simp
  note saved = send_Saved[OF y1]
  have z: "z = SendMsg c (txt_chat_sent_1 @ body @ txt_chat_sent_2 @ to @ nl) (enqueue (ServerMsgID m) y1)"
    using assms(3,4) y1 by (simp add: z_def useChat_def Let_def del: One_nat_def)
  show "to \<noteq> []" using assms(3) by (auto simp: arg2_def split: list.splits if_splits)
  show "sys_inv z" unfolding z_def using assms(1,2) by (rule sys_inv_useChat)
  show "From m = u_Name (the_user y c)" "To m = to" "Body m = body" "ServerMsgID m \<noteq> []"
    using saved(1-4) by simp_all
  show "map_of (messages (the_store (im_srv z))) (ServerMsgID m) = Some m"
    using saved(5) by (simp add: z enqueue_def srv_EnqueueServerMsg_def)
  have "srv_worker (im_srv z) = Some (EnqueueServerMsg (ServerMsgID m) w)"
    using assms(5) saved(9) by (simp add: z SendMsg_def enqueue_def srv_EnqueueServerMsg_def markOutboundMessage_def)
  then show "\<exists>w'. srv_worker (im_srv z) = Some w' \<and> deliverQueue w' = deliverQueue w @ [ServerMsgID m]"
    using assms(6,7) saved(4) by (simp add: Enqueue_cases)
qed

text \<open>In memory mode a fresh request is accepted.\<close>

lemma send_mem_ok:
  assumes "mem_inv (the_store (im_srv y))" and "TrimSpace (From req) \<noteq> []"
    and "TrimSpace (ClientMsgID req) \<noteq> []"
    and "byClient_lookup (the_store (im_srv y)) (From req) (ClientMsgID req) = None"
  shows "\<exists>m. fst (send b r req rs y) = Saved m"
proof -
  have ne: "From req \<noteq> []" "ClientMsgID req \<noteq> []" using assms(2,3) by auto
  have check: "send_check (InMemoryStore b) r (Some req) (logic (im_srv y)) = (Inr req, logic (im_srv y))"
    using assms ms.by_client[OF assms(1) ne, of b] by (simp add: send_check_def)
  obtain m l' where "send_commit (InMemoryStore b) r req rs (logic (im_srv y)) = (Saved m, l')"
    using ms.send_commit_Saved[OF assms(1) ne, of b r rs] by blast
  then have "fst (send b r req rs y) = Saved m"
    by (simp add: send_def srv_ProcessSend_def ProcessSend_def check)
  then show ?thesis ..
qed

lemma boot_mem:
  "the_store (im_srv (boot e False d c0 now b r)) = NewInMemoryStore False d c0"
  "srv_worker (im_srv (boot e False d c0 now b r)) = Some NewWorker"
  by (simp_all add: boot_def Start_def SetWorker_def NewServer_def newLogicService_def set_store_def
      RecoverPendingDeliveries_def InMemoryStore_def RecoverPendingServerMsgIDs_def mem_scan_def
      NewInMemoryStore_def limit_to_def enqueue_all_def dedupeStrings_def case_prod_beta)

lemma two_users_server [simp]:
  "the_store (im_srv two_users) = NewInMemoryStore False no_tables []"
  "srv_worker (im_srv two_users) = Some NewWorker"
  by (simp_all add: two_users_def sample_sys_def Let_def boot_mem)

lemma sys_inv_two_users: "sys_inv two_users"
  unfolding two_users_def
  by (rule sys_inv_sample) (auto simp: presence_ok_def box_ok_def chan_cap_def sample_user_def split: if_splits)

section \<open>Coming on line\<close>

lemma worker_frame [simp]:
  "srv_worker (im_srv (SendMsg c m y)) = srv_worker (im_srv y)"
  "srv_worker (im_srv (SendJSON c mm y)) = srv_worker (im_srv y)"
  "srv_worker (im_srv (startOnlineHeartbeat x b c y)) = srv_worker (im_srv y)"
  "srv_worker (RegisterOnline n s a v) = srv_worker v"
  by (simp_all add: SendJSON_def SendMsg_def markOutboundMessage_def startOnlineHeartbeat_def Let_def
      on_cache_def set_store_def RegisterOnline_def split: option.split)

lemma worker_broadcast:
  "srv_worker (im_srv (snd (broadcast b r body who y))) =
   map_option (EnqueueServerMsg (fst (fst (broadcast b r body who y)))) (srv_worker (im_srv y))"
  by (simp add: broadcast_def BroadcastSystemEvent_def srv_EnqueueServerMsg_def case_prod_beta)

text \<open>
  What waits for a user is queued when the user comes on line: whatever the store lists as
  pending for the name (500 messages at most), in memory or in the database, is in the delivery
  pipeline when \<open>Online\<close> returns, as long as the queue has room for it, and the session is then in
  the online map, so that the delivery goroutine finds it.
\<close>

theorem online_queues_pending:
  assumes "sys_inv y" and "c < length (conns y)" and "Authenticated (the_user y c)"
    and "u_Name (the_user y c) = name" and "name \<noteq> []" and "srv_worker (im_srv y) = Some w"
    and ids: "i_ListPendingServerMsgIDsByUser (InMemoryStore b) (rs 0) name 500 (the_store (im_srv y)) = (ids, s)"
    and "length (deliverQueue w) + length ids \<le> queue_cap"
    and z_def: "z = Online x b rs c y"
  shows "\<exists>w'. srv_worker (im_srv z) = Some w' \<and> set ids - {[]} \<subseteq> set (pipeline w') \<and>
    map_of (OnlineMap (im_srv z)) name = Some \<lparr>sender = c, addr = u_Addr (the_user y c)\<rparr>"
proof -
  define y2 where "y2 = on_srv (srv_EnqueuePendingForUser b (rs 0) name 500)
    (on_srv (RegisterOnline name (Some c) (u_Addr (the_user y c))) y)"
  define q where "q = broadcast b (rs 1) (name @ txt_online) name y2"
  have w2: "srv_worker (im_srv y2) = Some (enqueue_all ids w)"
    using assms(6) ids by (simp add: y2_def srv_EnqueuePendingForUser_def EnqueuePendingForUser_def
        set_store_def case_prod_beta)
  have z: "srv_worker (im_srv z) = Some (EnqueueServerMsg (fst (fst q)) (enqueue_all ids w))"
    unfolding z_def Online_def Let_def assms(4) y2_def[symmetric] q_def[symmetric] case_prod_beta
    using worker_broadcast[of b "rs 1" "name @ txt_online" name y2] w2 by (simp add: q_def)
  let ?w = "EnqueueServerMsg (fst (fst q)) (enqueue_all ids w)"
  have "sys_inv z" unfolding z_def by (rule sys_inv_Online[OF assms(1-3)])
  then have "queue_inv ?w" using z by (simp add: sys_inv_def srv_ok_def)
  then have "set (pipeline ?w) = in_flight ?w" by (simp add: queue_inv_def in_flight_def del: set_map)
  moreover have "set ids - {[]} \<subseteq> in_flight ?w"
    using enqueue_all_room[OF assms(8)] by (auto simp: in_flight_Enqueue)
  moreover have "map_of (OnlineMap (im_srv z)) name = Some \<lparr>sender = c, addr = u_Addr (the_user y c)\<rparr>"
    using assms(4,5) by (simp add: z_def RegisterOnline_def)
  ultimately show ?thesis using z by auto
qed

theorem online_queues_pending_witness:
  "\<exists>w'. srv_worker (im_srv (Online sample_ext sample_backend (\<lambda>_. sample_rt 0) 1 two_users)) = Some w'"
proof -
  have u: "1 < length (conns two_users)" "Authenticated (the_user two_users 1)"
    "u_Name (the_user two_users 1) = ''bob''" "''bob'' \<noteq> []"
    by (simp_all add: sample_user_def)
  obtain ids s where ids: "i_ListPendingServerMsgIDsByUser (InMemoryStore sample_backend) (sample_rt 0) ''bob'' 500
      (the_store (im_srv two_users)) = (ids, s)" by fastforce
  then have "ids = []"
    by (simp add: InMemoryStore_def ListPendingServerMsgIDsByUser_def NewInMemoryStore_def mem_scan_def
        limit_to_def dedupeStrings_def sample_rt_def case_prod_beta split: if_splits)
  then have "length (deliverQueue NewWorker) + length ids \<le> queue_cap" by (simp add: NewWorker_def queue_cap_def)
  from online_queues_pending[where rs = "\<lambda>_. sample_rt 0", OF sys_inv_two_users u two_users_server(2) ids this refl]
  show ?thesis by blast
qed

section \<open>The sender of a JSON message\<close>



section \<open>Who gets a message\<close>

lemma send_opens:
  assumes "send b r req rs y = (Saved m, z)"
  shows "find_entry (the_store (im_srv z)) j u =
    (if j = ServerMsgID m \<and> u \<in> set rs \<and> find_entry (the_store (im_srv y)) j u = None
     then Some (new_entry u) else find_entry (the_store (im_srv y)) j u)"
proof -
  obtain s d c where "deliveries s = deliveries (the_store (im_srv y))" and "the_store (im_srv z) =
      fold (saveDeliveryUnsafe (ServerMsgID m)) rs (saveMessageUnsafe m (s\<lparr>db := d, cache := c\<rparr>))"
    using send_Saved(10)[OF assms] by blast
  moreover from this(1) have "find_entry (saveMessageUnsafe m (s\<lparr>db := d, cache := c\<rparr>)) k v =
      find_entry (the_store (im_srv y)) k v" for k v
    by (simp add: find_entry_def saveMessageUnsafe_def Let_def)
  ultimately show ?thesis by (cases "j = ServerMsgID m") (auto simp: find_entry_fold_saveDelivery)
qed

abbreviation group_request :: "rt \<Rightarrow> string \<Rightarrow> string \<Rightarrow> string \<Rightarrow> Message" where
  "group_request r me i body \<equiv> zero_Message\<lparr>Type := TypeSend,
     ClientMsgID := ''gc-'' @ itoa_int (clk r 0), ChatID := ''group:'' @ i, From := me, Body := body\<rparr>"

text \<open>
  C13: \<open>gt|group|text\<close> opens a delivery for exactly the other members of the group, those that
  \<open>RoleOf\<close> admits at that moment, and queues the message; from a session that is not a member it
  does nothing but answer.
\<close>

theorem group_message_to_members:
  assumes "arg2 msg = Some (i, body)" and "range_ok (rs 0)" and "me = u_Name (the_user y c)"
    and "send b (rs 2) (group_request (rs 1) me i body)
      (filter (\<lambda>u. u \<noteq> me) (Members (rs 0) (the_groups y) i)) y = (Saved m, y1)"
    and "\<forall>u. find_entry (the_store (im_srv y)) (ServerMsgID m) u = None"
    and z_def: "z = useGroupTalk b rs c msg y"
  shows "if snd (RoleOf (the_groups y) i me)
    then (\<forall>u. find_entry (the_store (im_srv z)) (ServerMsgID m) u \<noteq> None \<longleftrightarrow>
            snd (RoleOf (the_groups y) i u) \<and> u \<noteq> me) \<and>
         srv_worker (im_srv z) = map_option (EnqueueServerMsg (ServerMsgID m)) (srv_worker (im_srv y))
    else z = SendMsg c txt_gt_not_member y"
proof (cases "snd (RoleOf (the_groups y) i me)")
  case True
  note saved = send_Saved[OF assms(4)]
  have z: "z = SendMsg c (txt_gt_done @ ServerMsgID m @ nl) (enqueue (ServerMsgID m) y1)"
    using assms(1,3,4) True by (simp add: z_def useGroupTalk_def Let_def del: One_nat_def)
  have "set (filter (\<lambda>u. u \<noteq> me) (Members (rs 0) (the_groups y) i)) =
      {u. snd (RoleOf (the_groups y) i u) \<and> u \<noteq> me}"
    using gm.in_fan_out[OF assms(2), of _ "the_groups y" i me] by (auto simp: fan_out_def)
  then show ?thesis
    using True assms(5) send_opens[OF assms(4)] saved(9)
    by (simp add: z enqueue_def srv_EnqueueServerMsg_def)
next
  case False
  then show ?thesis using assms(1,3) by (simp add: z_def useGroupTalk_def Let_def)
qed

text \<open>
  A line of plain text, which the client is told has been sent, is delivered to nobody: it is
  stored in the broadcast chat without an addressee and without recipients, so when the delivery
  goroutine comes to it, whoever is on line, it hands out nothing. (A JSON message without an
  addressee goes to everybody on line.) Stated for the in-memory store.
\<close>

theorem plain_text_reaches_nobody:
  assumes "mem_inv (the_store (im_srv y))" and "range_ok (rs' 0)"
    and "send b (rs 1) (zero_Message\<lparr>Type := TypeSend, ClientMsgID := ''c-'' @ itoa_int (clk (rs 0) 0),
      From := u_Name (the_user y c), Body := msg\<rparr>) [] y = (Saved m, y1)"
    and "\<forall>u. find_entry (the_store (im_srv y)) (ServerMsgID m) u = None"
    and z_def: "z = plain_text b rs c msg y"
  shows "map_of (messages (the_store (im_srv z))) (ServerMsgID m) = Some m \<and> Body m = msg \<and>
    srv_worker (im_srv z) = map_option (EnqueueServerMsg (ServerMsgID m)) (srv_worker (im_srv y)) \<and>
    fst (deliver_one (InMemoryStore b) rs' mx base online (ServerMsgID m) (the_store (im_srv z))) = []"
proof -
  note saved = send_Saved[OF assms(3)]
  have z: "z = enqueue (ServerMsgID m) (SendJSON c (Some (send_ack (''c-'' @ itoa_int (clk (rs 0) 0)) m)) y1)"
    using assms(3) by (simp add: z_def plain_text_def Let_def del: One_nat_def)
  have store: "the_store (im_srv z) = the_store (im_srv y1)"
    by (simp add: z enqueue_def srv_EnqueueServerMsg_def SendJSON_def)
  have "mem_inv (the_store (im_srv y1))"
  proof -
    obtain l' where p: "ProcessSend (InMemoryStore b) (rs 1) (Some (zero_Message\<lparr>Type := TypeSend,
        ClientMsgID := ''c-'' @ itoa_int (clk (rs 0) 0), From := u_Name (the_user y c), Body := msg\<rparr>)) []
        (logic (im_srv y)) = (Saved m, l')" and "the_store (im_srv y1) = l_store l'"
      using assms(3) by (auto simp: send_def srv_ProcessSend_def split: prod.splits)
    with ms.ProcessSend_step[OF assms(1) p] show ?thesis by simp
  qed
  then have inv: "mem_inv (the_store (im_srv z))" by (simp add: store)
  have none: "find_entry (the_store (im_srv z)) (ServerMsgID m) u = None" for u
    using send_opens[OF assms(3)] assms(4) by (simp add: store)
  then have "ledger_of (the_store (im_srv z)) (ServerMsgID m) u = None" for u
    by (simp add: ledger_of_def)
  moreover have "fst (i_GetMessageByServerID (InMemoryStore b) (ServerMsgID m) (the_store (im_srv z))) = Some m"
    using saved(5) by (simp add: store InMemoryStore_def GetMessageByServerID_def)
  ultimately have "set (fst (deliver_one (InMemoryStore b) rs' mx base online (ServerMsgID m) (the_store (im_srv z)))) = {}"
    using ms.deliver_one_spec[where rs = rs', OF inv saved(4) assms(2)] saved(2)
    by (simp add: zero_Message_def)
  then show ?thesis
    using saved(3,5,9) by (simp add: store) (simp add: z enqueue_def srv_EnqueueServerMsg_def)
qed

theorem plain_text_reaches_nobody_witness:
  "\<exists>m :: Message. Body m = ''hello'' \<and> fst (deliver_one (InMemoryStore sample_backend) (\<lambda>_. sample_rt 0) 5 1
     [(''ann'', True), (''bob'', True)] (ServerMsgID m)
     (the_store (im_srv (plain_text sample_backend (\<lambda>_. sample_rt 0) 0 ''hello'' two_users)))) = []"
proof -
  let ?req = "zero_Message\<lparr>Type := TypeSend, ClientMsgID := ''c-'' @ itoa_int (clk (sample_rt 0) 0),
      From := u_Name (the_user two_users 0), Body := ''hello''\<rparr>"
  have inv: "mem_inv (the_store (im_srv two_users))"
    by (simp add: mem_inv_def store_wf_def gall_def NewInMemoryStore_def)
  have "TrimSpace (From ?req) \<noteq> []" "TrimSpace (ClientMsgID ?req) \<noteq> []"
    by (simp_all add: sample_user_def sample_rt_def) code_simp+
  then have "\<exists>m. fst (send sample_backend (sample_rt 0) ?req [] two_users) = Saved m"
    using inv by (intro send_mem_ok) (simp_all add: byClient_lookup_def NewInMemoryStore_def)
  then obtain m y1 where m: "send sample_backend (sample_rt 0) ?req [] two_users = (Saved m, y1)"
    by (metis prod.collapse)
  have "\<forall>u. find_entry (the_store (im_srv two_users)) (ServerMsgID m) u = None"
    by (simp add: find_entry_def NewInMemoryStore_def)
  from plain_text_reaches_nobody[where rs = "\<lambda>_. sample_rt 0" and rs' = "\<lambda>_. sample_rt 0" and mx = 5
      and base = 1 and online = "[(''ann'', True), (''bob'', True)]", OF inv range_ok_sample m this refl]
  show ?thesis by (intro exI[of _ m]) simp
qed

text \<open>\<open>ann\<close> and \<open>bob\<close> in a group.\<close>

definition a_group :: "(tables, (string \<times> string) list) sys" where
  "a_group = on_srv (\<lambda>v. v\<lparr>groupManager :=
     run_group NewGroupManager [OpCreate ''g'' ''ann'', OpJoin ''g'' ''bob'']\<rparr>) two_users"

theorem group_message_to_members_witness:
  "\<exists>m :: Message. find_entry (the_store (im_srv (useGroupTalk sample_backend (\<lambda>_. sample_rt 0) 0 ''gt|g|hello'' a_group)))
     (ServerMsgID m) ''bob'' \<noteq> None"
proof -
  have line: "arg2 ''gt|g|hello'' = Some (''g'', ''hello'')" by code_simp
  have me: "''ann'' = u_Name (the_user a_group 0)" by (simp add: a_group_def sample_user_def)
  have roles: "snd (RoleOf (the_groups a_group) ''g'' ''ann'')" "snd (RoleOf (the_groups a_group) ''g'' ''bob'')"
    unfolding a_group_def sys_frame server.simps by code_simp+
  let ?req = "group_request (sample_rt 0) ''ann'' ''g'' ''hello''"
  let ?rs = "filter (\<lambda>u. u \<noteq> ''ann'') (Members (sample_rt 0) (the_groups a_group) ''g'')"
  have store: "the_store (im_srv a_group) = NewInMemoryStore False no_tables []" by (simp add: a_group_def)
  have "TrimSpace (From ?req) \<noteq> []" "TrimSpace (ClientMsgID ?req) \<noteq> []"
    by (simp_all add: sample_rt_def) code_simp+
  then have "\<exists>m. fst (send sample_backend (sample_rt 0) ?req ?rs a_group) = Saved m"
    by (intro send_mem_ok)
      (simp_all add: store mem_inv_def store_wf_def gall_def byClient_lookup_def NewInMemoryStore_def)
  then obtain m y1 where m: "send sample_backend (sample_rt 0) ?req ?rs a_group = (Saved m, y1)"
    by (metis prod.collapse)
  have fresh: "\<forall>u. find_entry (the_store (im_srv a_group)) (ServerMsgID m) u = None"
    by (simp add: store find_entry_def NewInMemoryStore_def)
  have "find_entry (the_store (im_srv (useGroupTalk sample_backend (\<lambda>_. sample_rt 0) 0 ''gt|g|hello'' a_group)))
     (ServerMsgID m) ''bob'' \<noteq> None"
    using group_message_to_members[where rs = "\<lambda>_. sample_rt 0", OF line range_ok_sample me m fresh refl] roles
    by simp
  then show ?thesis by (rule exI[of _ m])
qed

end
