(* ===== verification/Process_Steps.thy ===== *)
theory Process_Steps
  imports Session_Inv
begin

text \<open>
  What every event of the process does, whatever it is. To the store, and through it to the database
  and the cache: a sequence of sends, of system events, of other calls of the store's methods, of
  queries on the table of accounts, and of changes of the cache; nothing else in the process has
  access to them. To the sessions: they
  only go forward, from connected to authenticated, logged out and closed. To the number of
  active connections: nothing, except at the start and the return of a handler.
\<close>

section \<open>The elementary accesses\<close>

inductive touch :: "('d, 'c) backend \<Rightarrow> ('d, 'c) store \<Rightarrow> ('d, 'c) store \<Rightarrow> bool"
  for b :: "('d, 'c) backend" where
  store_call: "plain_call (snd x) \<Longrightarrow> touch b s (call_store (InMemoryStore b) x s)"
| send_access: "touch b (l_store l) (l_store (snd (ProcessSend (InMemoryStore b) r req rs l)))"
| event_access: "touch b (l_store l) (l_store (snd (system_event (InMemoryStore b) r body rs l)))"
| keys: "touch b s (s\<lparr>cache := c\<rparr>)"
| account_create: "touch b s (s\<lparr>db := snd (t_create (users_t (gorm b)) row (db s))\<rparr>)"
| account_query: "touch b s (s\<lparr>db := snd (t_first (users_t (gorm b)) w (db s))\<rparr>)"
| account_update: "touch b s (s\<lparr>db := snd (t_update (users_t (gorm b)) w f (db s))\<rparr>)"

abbreviation touches :: "('d, 'c) backend \<Rightarrow> ('d, 'c) store \<Rightarrow> ('d, 'c) store \<Rightarrow> bool" where
  "touches b \<equiv> (touch b)\<^sup>*\<^sup>*"

abbreviation store_of :: "('d, 'c) sys \<Rightarrow> ('d, 'c) store" where
  "store_of y \<equiv> the_store (im_srv y)"

lemma touches_step: "touches b s0 s \<Longrightarrow> touch b s s' \<Longrightarrow> touches b s0 s'"
  by (rule rtranclp.rtrancl_into_rtrancl)

text \<open>A store that is reached by such accesses is a property that every access keeps.\<close>

interpretation tc: served_store "InMemoryStore b" "touches b s0" for b s0
  by unfold_locales (rule touches_step; (rule store_call send_access event_access)?; assumption)+

lemma touches_keys: "touches b s0 s \<Longrightarrow> touches b s0 (s\<lparr>cache := c\<rparr>)"
  by (rule touches_step[OF _ keys])

text \<open>None of them changes whether there is a database.\<close>

lemma mem_steps_persistent: "mem_steps s s' \<Longrightarrow> persistent s' = persistent s"
proof (induction rule: rtranclp_induct)
  case (step s1 s2)
  from step(2) have "persistent s2 = persistent s1"
    by (induction rule: mem_step.induct)
      (simp_all add: saveMessageUnsafe_def saveDeliveryUnsafe_def mod_entry_def Let_def)
  with step(3) show ?case by simp
qed simp

lemma persistent_exec: "persistent (exec_store b (r, op) s) = persistent s"
proof (cases "seq_request op")
  case None
  then show ?thesis using exec_store_steps mem_steps_persistent by blast
next
  case (Some k)
  then obtain c where "op = OpNextSeq c" by (auto simp: seq_request_def split: store_op.splits)
  then show ?thesis using NextSeq_frame[of b c s] by simp
qed

interpretation mode: kept_store "InMemoryStore b" "\<lambda>s. persistent s = p" for b p
  by unfold_locales (simp add: call_InMemoryStore persistent_exec[of _ "fst _" "snd _", simplified])

lemma touches_persistent: "touches b s s' \<Longrightarrow> persistent s' = persistent s"
proof (induction rule: rtranclp_induct)
  case (step s1 s2)
  from step(2) have "persistent s2 = persistent s1"
    by (induction rule: touch.induct) (simp_all add: mode.wf_plain mode.wf_send mode.wf_event)
  with step(3) show ?case by simp
qed simp

section \<open>The calls of the server\<close>

lemma store_frame [simp]:
  "the_store (set_store s v) = s" "the_store (markInboundMessage v) = the_store v"
  "the_store (markOutboundMessage v) = the_store v" "the_store (handler_enter v) = the_store v"
  "the_store (handler_leave v) = the_store v" "the_store (UnregisterOnline n v) = the_store v"
  "the_store (RegisterOnline n sn a v) = the_store v"
  "the_store (srv_EnqueueServerMsg i v) = the_store v" "the_store (snd (accept_round r rem v)) = the_store v"
  by (simp_all add: set_store_def markInboundMessage_def markOutboundMessage_def handler_enter_def
      handler_leave_def UnregisterOnline_def RegisterOnline_def srv_EnqueueServerMsg_def
      accept_round_def case_prod_beta split: option.split)

lemma active_frame [simp]:
  "activeConn (set_store s v) = activeConn v" "activeConn (markInboundMessage v) = activeConn v"
  "activeConn (markOutboundMessage v) = activeConn v" "activeConn (UnregisterOnline n v) = activeConn v"
  "activeConn (RegisterOnline n sn a v) = activeConn v" "activeConn (srv_EnqueueServerMsg i v) = activeConn v"
  "activeConn (snd (accept_round r rem v)) = activeConn v"
  "activeConn (snd (srv_ProcessSend b r q rs v)) = activeConn v"
  "activeConn (srv_HandleDeliverAck b r u i v) = activeConn v"
  "activeConn (srv_HandleReadAck b r u i v) = activeConn v"
  "activeConn (srv_EnqueuePendingForUser b r u lim v) = activeConn v"
  "activeConn (snd (BroadcastSystemEvent b r body who v)) = activeConn v"
  "activeConn (snd (srv_GetC2CHistory b r u w lim v)) = activeConn v"
  "activeConn (snd (SnapshotStats b r v)) = activeConn v"
  by (simp_all add: set_store_def markInboundMessage_def markOutboundMessage_def UnregisterOnline_def
      RegisterOnline_def srv_EnqueueServerMsg_def accept_round_def srv_ProcessSend_def srv_HandleDeliverAck_def
      srv_HandleReadAck_def srv_EnqueuePendingForUser_def BroadcastSystemEvent_def srv_GetC2CHistory_def
      SnapshotStats_def Let_def case_prod_beta split: option.split)

lemma store_fields: "i_GetC2CHistory (InMemoryStore b) = GetC2CHistory b" "i_DeliveryStats (InMemoryStore b) = DeliveryStats b"
  by (simp_all add: InMemoryStore_def)

lemma touches_calls:
  assumes "touches b s0 (the_store v)"
  shows "touches b s0 (the_store (snd (srv_ProcessSend b r q rs v)))"
    and "touches b s0 (the_store (srv_HandleDeliverAck b r u i v))"
    and "touches b s0 (the_store (srv_HandleReadAck b r u i v))"
    and "touches b s0 (the_store (srv_EnqueuePendingForUser b r u n v))"
    and "touches b s0 (the_store (snd (BroadcastSystemEvent b r body who v)))"
    and "touches b s0 (the_store (snd (srv_GetC2CHistory b r u w n v)))"
    and "touches b s0 (the_store (snd (SnapshotStats b r v)))"
  using assms tc.wf_calls(12)[OF assms, of r u w n] tc.wf_calls(9)[OF assms, unfolded store_fields]
  by (simp_all add: srv_ProcessSend_def srv_HandleDeliverAck_def srv_HandleReadAck_def HandleDeliverAck_def
      HandleReadAck_def srv_EnqueuePendingForUser_def EnqueuePendingForUser_def BroadcastSystemEvent_def
      srv_GetC2CHistory_def SnapshotStats_def Let_def case_prod_beta tc.wf_calls tc.wf_send tc.wf_event
      store_fields split: option.split)

section \<open>Accounts\<close>

text \<open>A predicate on the store that the queries on the table of accounts keep.\<close>

locale account_client =
  fixes b :: "('d, 'c) backend"
    and P :: "('d, 'c) store \<Rightarrow> bool"
  assumes key: "P s \<Longrightarrow> P (s\<lparr>cache := c\<rparr>)"
    and create: "P s \<Longrightarrow> P (s\<lparr>db := snd (t_create (users_t (gorm b)) row (db s))\<rparr>)"
    and first: "P s \<Longrightarrow> P (s\<lparr>db := snd (t_first (users_t (gorm b)) w (db s))\<rparr>)"
    and update: "P s \<Longrightarrow> P (s\<lparr>db := snd (t_update (users_t (gorm b)) w f (db s))\<rparr>)"
begin

lemma cached: "P s \<Longrightarrow> P (cache_user b j n u s)" "P s \<Longrightarrow> P (del_user_key b n s)"
  by (simp_all add: cache_user_def del_user_key_def key split: option.split)

lemma queried:
  "P s \<Longrightarrow> t_create (users_t (gorm b)) row (db s) = (r1, d) \<Longrightarrow> P (s\<lparr>db := d\<rparr>)"
  "P s \<Longrightarrow> t_first (users_t (gorm b)) w (db s) = (r2, d) \<Longrightarrow> P (s\<lparr>db := d\<rparr>)"
  "P s \<Longrightarrow> t_first (users_t (gorm b)) w (db s) = (r2, d) \<Longrightarrow> P (s\<lparr>cache := c, db := d\<rparr>)"
  using create[of s row] first[of s w] first[OF key[of s c], of w] by simp_all

lemma status_set: "P s \<Longrightarrow> set_status (users_t (gorm b)) w f s = (e, s1) \<Longrightarrow> P s1"
  using update[of s w f] by (auto simp: set_status_def split: prod.splits sum.splits)

lemma by_id: "P s \<Longrightarrow> GetUserByID b i s = (e, s1) \<Longrightarrow> P s1"
  by (auto simp: GetUserByID_def queried split: prod.splits sum.splits if_splits)

lemma accounts:
  assumes "P s"
  shows "P (snd (GetUserByName b j n s))" and "P (snd (CreateUser b j u s))" and "P (snd (UpdateUserStatus b n st s))"
  using assms
  by (auto simp: GetUserByName_def CreateUser_def UpdateUserStatus_def key cached queried
      elim: status_set by_id[OF status_set] split: prod.splits sum.splits option.splits intro!: cached)

end

interpretation ta: account_client b "touches b s0" for b s0
  by unfold_locales (rule touches_step; (rule keys account_create account_query account_update)?; assumption)+

section \<open>Sessions only go forward\<close>

definition user_le :: "user \<Rightarrow> user \<Rightarrow> bool" where
  "user_le u v \<longleftrightarrow> u_Addr v = u_Addr u \<and> (Authenticated u \<longrightarrow> Authenticated v) \<and>
     (loggedOut u \<longrightarrow> loggedOut v) \<and> (isClosed u \<longrightarrow> isClosed v)"

definition sessions_le :: "user list \<Rightarrow> user list \<Rightarrow> bool" where
  "sessions_le us vs \<longleftrightarrow> length us \<le> length vs \<and> (\<forall>c < length us. user_le (us ! c) (vs ! c))"

lemma user_le_refl [simp]: "user_le u u"
  by (simp add: user_le_def)

lemma user_le_trans: "user_le u v \<Longrightarrow> user_le v w \<Longrightarrow> user_le u w"
  by (simp add: user_le_def)

lemma user_le_updates [simp]:
  "user_le u (u\<lparr>C := q\<rparr>)" "user_le u (u\<lparr>heartbeatCancel := h\<rparr>)" "user_le u (u\<lparr>listening := l\<rparr>)"
  "user_le u (u\<lparr>wire := w\<rparr>)" "user_le u (u\<lparr>loggedOut := True\<rparr>)" "user_le u (u\<lparr>isClosed := True\<rparr>)"
  "user_le u (u\<lparr>u_Name := n\<rparr>)" "user_le u (u\<lparr>u_Name := n, Authenticated := True\<rparr>)"
  by (simp_all add: user_le_def)

lemma sessions_le_refl [simp]: "sessions_le us us"
  by (simp add: sessions_le_def)

lemma sessions_le_trans: "sessions_le us vs \<Longrightarrow> sessions_le vs ws \<Longrightarrow> sessions_le us ws"
  unfolding sessions_le_def by (meson le_trans order_less_le_trans user_le_trans)

lemma sessions_le_upd: "(\<And>u. user_le u (f u)) \<Longrightarrow> sessions_le us vs \<Longrightarrow> sessions_le us (vs[c := f (vs ! c)])"
  unfolding sessions_le_def
  by (cases "c < length vs") (auto simp: nth_list_update list_update_beyond intro: user_le_trans)

lemma sessions_le_append: "sessions_le us vs \<Longrightarrow> sessions_le us (vs @ [u])"
  by (auto simp: sessions_le_def nth_append)

section \<open>The queue turns\<close>

text \<open>
  Ids leave the queue at its head, one in a round of the delivery goroutine, and new ones join at
  its end; between events no goroutine is in the middle of a call.
\<close>

abbreviation hands :: "worker \<Rightarrow> string list \<times> string list \<times> string option" where
  "hands w \<equiv> (pushing w, dropping w, busy w)"

definition turned :: "nat \<Rightarrow> worker option \<Rightarrow> worker option \<Rightarrow> bool" where
  "turned tn w w' \<longleftrightarrow> (case w of None \<Rightarrow> w' = None
     | Some u \<Rightarrow> \<exists>u' more. w' = Some u' \<and> deliverQueue u' = drop tn (deliverQueue u) @ more \<and> hands u' = hands u)"

lemma turned_refl [simp]: "turned 0 w w"
  by (simp add: turned_def split: option.split)

lemma turned_more:
  assumes "turned tn w0 w" and "\<And>u. w = Some u \<Longrightarrow> \<exists>u' more. w' = Some u' \<and> deliverQueue u' = deliverQueue u @ more \<and> hands u' = hands u"
    and "w = None \<Longrightarrow> w' = None"
  shows "turned tn w0 w'"
proof (cases w)
  case (Some u)
  with assms(2) obtain u' more where "w' = Some u'" "deliverQueue u' = deliverQueue u @ more" "hands u' = hands u" by blast
  with assms(1) Some show ?thesis by (auto simp: turned_def split: option.splits)
qed (use assms in \<open>auto simp: turned_def split: option.splits\<close>)

lemma turned_enqueue [simp]: "turned tn w0 (Some w) \<Longrightarrow> turned tn w0 (Some (EnqueueServerMsg i w))"
  by (erule turned_more) (simp_all add: Enqueue_cases unmark_def)

lemma turned_enqueue_all [simp]: "turned tn w0 (Some w) \<Longrightarrow> turned tn w0 (Some (enqueue_all ids w))"
proof (induction ids arbitrary: w)
  case (Cons i ids)
  from Cons.IH[OF turned_enqueue[OF Cons.prems]] show ?case by (simp add: enqueue_all_def)
qed (simp add: enqueue_all_def)

lemma turned_idle: "turned tn w0 (Some w) \<Longrightarrow> deliverQueue w = [] \<Longrightarrow> turned (Suc tn) w0 (Some w)"
  by (auto simp: turned_def split: option.splits)

lemma turned_take:
  "turned tn w0 (Some w) \<Longrightarrow> deliverQueue w = i # q \<Longrightarrow> turned (Suc tn) w0 (Some (unmark i (w\<lparr>deliverQueue := q\<rparr>)))"
  by (cases w0) (auto simp: turned_def unmark_def Cons_eq_append_conv drop_Suc simp flip: tl_drop
      intro: exI[of _ q] dest: sym[of "_ # _"])

lemma turned_push [simp]: "turned tn w0 (srv_worker v) \<Longrightarrow> turned tn w0 (srv_worker (srv_EnqueueServerMsg i v))"
  by (cases "srv_worker v") (simp_all add: srv_EnqueueServerMsg_def)

lemma turned_calls [simp]:
  assumes "turned tn w0 (srv_worker v)"
  shows "turned tn w0 (srv_worker (snd (srv_ProcessSend b r q rs v)))"
    and "turned tn w0 (srv_worker (srv_HandleDeliverAck b r u i v))"
    and "turned tn w0 (srv_worker (srv_HandleReadAck b r u i v))"
    and "turned tn w0 (srv_worker (srv_EnqueuePendingForUser b r u lim v))"
    and "turned tn w0 (srv_worker (snd (BroadcastSystemEvent b r body who v)))"
    and "turned tn w0 (srv_worker (snd (srv_GetC2CHistory b r u w lim v)))"
    and "turned tn w0 (srv_worker (snd (SnapshotStats b r v)))"
proof -
  show "turned tn w0 (srv_worker (srv_EnqueuePendingForUser b r u lim v))"
    using assms by (cases "srv_worker v") (simp_all add: srv_EnqueuePendingForUser_def EnqueuePendingForUser_def
        set_store_def case_prod_beta)
  show "turned tn w0 (srv_worker (snd (BroadcastSystemEvent b r body who v)))"
    using assms by (simp add: BroadcastSystemEvent_def case_prod_beta)
qed (use assms in \<open>simp_all add: srv_ProcessSend_def srv_HandleDeliverAck_def srv_HandleReadAck_def
    srv_GetC2CHistory_def SnapshotStats_def set_store_def Let_def case_prod_beta\<close>)

lemma queue_frame [simp]:
  "srv_worker (set_store s v) = srv_worker v" "srv_worker (markInboundMessage v) = srv_worker v"
  "srv_worker (markOutboundMessage v) = srv_worker v" "srv_worker (UnregisterOnline n v) = srv_worker v"
  "srv_worker (RegisterOnline n sn a v) = srv_worker v" "srv_worker (handler_enter v) = srv_worker v"
  "srv_worker (handler_leave v) = srv_worker v" "srv_worker (snd (accept_round r rem v)) = srv_worker v"
  by (simp_all add: set_store_def markInboundMessage_def markOutboundMessage_def UnregisterOnline_def
      RegisterOnline_def handler_enter_def handler_leave_def accept_round_def case_prod_beta split: option.split)

section \<open>What an operation may do\<close>

text \<open>\<open>j\<close> is the number of new connections, \<open>k\<close> the change of the number of active ones, \<open>tn\<close>
  the number of rounds of the delivery goroutine.\<close>

definition evolves :: "('d, 'c) backend \<Rightarrow> nat \<Rightarrow> int \<Rightarrow> nat \<Rightarrow> ('d, 'c) sys \<Rightarrow> ('d, 'c) sys \<Rightarrow> bool" where
  "evolves b j k tn y y' \<longleftrightarrow> touches b (store_of y) (store_of y') \<and> sessions_le (conns y) (conns y') \<and>
     length (conns y') = length (conns y) + j \<and> activeConn (im_srv y') = activeConn (im_srv y) + k \<and>
     turned tn (srv_worker (im_srv y)) (srv_worker (im_srv y'))"

lemma evolves_refl: "evolves b 0 0 0 y y"
  by (simp add: evolves_def)

lemma evolves_upd [simp]: "(\<And>u. user_le u (f u)) \<Longrightarrow> evolves b j k tn y0 y \<Longrightarrow> evolves b j k tn y0 (upd c f y)"
  by (simp add: evolves_def sessions_le_upd)

lemma evolves_srv:
  assumes "evolves b j k tn y0 y" and "\<And>s0. touches b s0 (store_of y) \<Longrightarrow> touches b s0 (the_store v)"
    and "activeConn v = activeConn (im_srv y)"
    and "\<And>w0. turned tn w0 (srv_worker (im_srv y)) \<Longrightarrow> turned tn w0 (srv_worker v)"
  shows "evolves b j k tn y0 (y\<lparr>im_srv := v\<rparr>)"
  using assms by (simp add: evolves_def)

lemma evolves_on_srv:
  assumes "evolves b j k tn y0 y" and "\<And>s0. touches b s0 (store_of y) \<Longrightarrow> touches b s0 (the_store (g (im_srv y)))"
    and "activeConn (g (im_srv y)) = activeConn (im_srv y)"
    and "\<And>w0. turned tn w0 (srv_worker (im_srv y)) \<Longrightarrow> turned tn w0 (srv_worker (g (im_srv y)))"
  shows "evolves b j k tn y0 (on_srv g y)"
  using assms by (simp add: evolves_def)

lemma evolves_plain [simp]:
  "evolves b j k tn y0 (y\<lparr>logouts := cs\<rparr>) = evolves b j k tn y0 y" "evolves b j k tn y0 (y\<lparr>crashed := h\<rparr>) = evolves b j k tn y0 y"
  "evolves b j k tn y0 (on_srv markInboundMessage y) = evolves b j k tn y0 y"
  "evolves b j k tn y0 (on_srv markOutboundMessage y) = evolves b j k tn y0 y"
  "evolves b j k tn y0 (on_srv (UnregisterOnline n) y) = evolves b j k tn y0 y"
  "evolves b j k tn y0 (on_srv (RegisterOnline n sn a) y) = evolves b j k tn y0 y"
  "evolves b j k tn y0 (on_srv (\<lambda>v. v\<lparr>groupManager := gm\<rparr>) y) = evolves b j k tn y0 y"
  by (simp_all add: evolves_def)

lemma evolves_enqueue [simp]: "evolves b j k tn y0 y \<Longrightarrow> evolves b j k tn y0 (enqueue i y)"
  by (simp add: evolves_def enqueue_def)

text \<open>The calls into the server.\<close>

lemma evolves_calls [simp]:
  assumes "evolves b j k tn y0 y"
  shows "evolves b j k tn y0 (on_srv (srv_EnqueuePendingForUser b r u n) y)"
    and "evolves b j k tn y0 (on_srv (srv_HandleReadAck b r u i) y)"
    and "evolves b j k tn y0 (on_srv (srv_HandleDeliverAck b r u i) y)"
    and "evolves b j k tn y0 (y\<lparr>im_srv := snd (SnapshotStatsText x b r (im_srv y))\<rparr>)"
    and "evolves b j k tn y0 (y\<lparr>im_srv := snd (srv_GetC2CHistory b r u w n (im_srv y))\<rparr>)"
    and "evolves b j k tn y0 (snd (broadcast b r body who y))" and "evolves b j k tn y0 (on_cache g y)"
    and "evolves b j k tn y0 (snd (send b r req rs y))"
  using assms by (simp_all add: evolves_def touches_calls touches_keys SnapshotStatsText_def case_prod_beta
      broadcast_def on_cache_def send_def)

lemma evolves_SendMsg [simp]: "evolves b j k tn y0 y \<Longrightarrow> evolves b j k tn y0 (SendMsg c m y)"
  by (simp add: SendMsg_def)

lemma evolves_SendJSON [simp]: "evolves b j k tn y0 y \<Longrightarrow> evolves b j k tn y0 (SendJSON c m y)"
  by (simp add: SendJSON_def split: option.split)

lemma evolves_heartbeat [simp]:
  assumes "evolves b j k tn y0 y"
  shows "evolves b j k tn y0 (startOnlineHeartbeat x b c y)" "evolves b j k tn y0 (stopOnlineHeartbeat b c y)"
    "evolves b j k tn y0 (heartbeat_tick b c y)"
  using assms by (simp_all add: startOnlineHeartbeat_def stopOnlineHeartbeat_def heartbeat_tick_def Let_def
      split: option.split)

lemma evolves_presence [simp]:
  assumes "evolves b j k tn y0 y"
  shows "evolves b j k tn y0 (Online x b rs c y)" "evolves b j k tn y0 (Offline b rs c y)" "evolves b j k tn y0 (Close c y)"
    "evolves b j k tn y0 (Logout b rs c y)" "evolves b j k tn y0 (listen_round b rs w c y)"
proof -
  have close: "evolves b j k tn y0 (Close c z)" if "evolves b j k tn y0 z" for z
    using that by (simp add: Close_def)
  have off: "evolves b j k tn y0 (Offline b rs c z)" if "evolves b j k tn y0 z" for z
    using that by (simp add: Offline_def Let_def case_prod_beta)
  have out: "evolves b j k tn y0 (Logout b rs c z)" if "evolves b j k tn y0 z" for z
    using that by (simp add: Logout_def off close)
  show "evolves b j k tn y0 (Online x b rs c y)" using assms by (simp add: Online_def Let_def case_prod_beta)
  show "evolves b j k tn y0 (Close c y)" "evolves b j k tn y0 (Offline b rs c y)" "evolves b j k tn y0 (Logout b rs c y)"
    using assms by (simp_all add: close off out)
  show "evolves b j k tn y0 (listen_round b rs w c y)"
    using assms by (simp add: listen_round_def Let_def out split: list.split option.split)
qed

section \<open>Entry\<close>

lemma evolves_accounts:
  assumes "evolves b j k tn y0 y"
  shows "on_store (GetUserByName b uj n) y = (r1, y1) \<Longrightarrow> evolves b j k tn y0 y1"
    and "on_store (CreateUser b uj u) y = (r2, y1) \<Longrightarrow> evolves b j k tn y0 y1"
    and "evolves b j k tn y0 (snd (on_store (UpdateUserStatus b n st) y))"
  using assms ta.accounts by (auto simp: evolves_def on_store_eq)

lemma evolves_enter: "evolves b j k tn y0 y \<Longrightarrow> evolves b j k tn y0 (enter x b rs c n y)"
  by (simp add: enter_def)

lemma evolves_Register:
  assumes "evolves b j k tn y0 y"
  shows "evolves b j k tn y0 (snd (Register x b rs c n pw y))"
proof -
  obtain r1 y1 where y1: "on_store (GetUserByName b (x_user_json x) (TrimSpace n)) y = (r1, y1)" by fastforce
  then have get: "evolves b j k tn y0 y1" by (rule evolves_accounts(1)[OF assms])
  have put: "evolves b j k tn y0 (snd (case on_store (CreateUser b uj u) y1 of (Some e, y2) \<Rightarrow> (g e, y2)
      | (None, y2) \<Rightarrow> (h, enter x b rs' c m y2)))" for uj u rs' m and g :: "dao_error \<Rightarrow> string option" and h
    by (auto split: prod.split option.split intro: evolves_enter elim: evolves_accounts(2)[OF get])
  show ?thesis
    using assms get put by (simp add: Register_def Let_def y1 split: sum.split)
qed

lemma evolves_Login:
  assumes "evolves b j k tn y0 y"
  shows "evolves b j k tn y0 (snd (Login x b rs c n pw y))"
proof (cases "login_check x b (rs 0) (TrimSpace n) pw y")
  case (Pair e y1)
  then have "evolves b j k tn y0 y1"
    using assms by (auto simp: login_check_def split: prod.splits sum.splits if_splits
        elim: evolves_accounts(1)[OF assms])
  then show ?thesis
    by (simp add: Login_def Pair login_commit_def evolves_accounts(3) evolves_enter split: option.split)
qed

section \<open>Commands and messages\<close>

lemma evolves_send:
  assumes "evolves b j k tn y0 y"
    and "\<And>e y1. evolves b j k tn y0 y1 \<Longrightarrow> evolves b j k tn y0 (failed e y1)"
    and "\<And>m y1. evolves b j k tn y0 y1 \<Longrightarrow> evolves b j k tn y0 (found m y1)"
    and "\<And>m y1. evolves b j k tn y0 y1 \<Longrightarrow> evolves b j k tn y0 (saved m y1)"
  shows "evolves b j k tn y0 (case send b r req rs y of (SendError e, y1) \<Rightarrow> failed e y1
    | (Existing m, y1) \<Rightarrow> found m y1 | (Saved m, y1) \<Rightarrow> saved m y1)"
proof (cases "send b r req rs y")
  case (Pair res y1)
  then have "evolves b j k tn y0 y1" using evolves_calls(8)[OF assms(1), of r req rs] by simp
  with Pair assms(2-4) show ?thesis by (simp split: send_result.split)
qed

lemma evolves_commands:
  assumes "evolves b j k tn y0 y"
  shows "evolves b j k tn y0 (useStats x b r c y)" "evolves b j k tn y0 (useHistory x b r c msg y)"
    "evolves b j k tn y0 (useRead b r c msg y)" "evolves b j k tn y0 (useExit b rs c y)" "evolves b j k tn y0 (useRename c msg y)"
  using assms
  by (simp_all add: useStats_def useHistory_def useRead_def useExit_def useRename_def Let_def case_prod_beta
      split: option.split)

lemma evolves_messages:
  assumes "evolves b j k tn y0 y"
  shows "evolves b j k tn y0 (useChat b rs c msg y)" "evolves b j k tn y0 (useGroupTalk b rs c msg y)"
    "evolves b j k tn y0 (plain_text b rs c msg y)"
  using assms
  by (auto simp: useChat_def useGroupTalk_def plain_text_def Let_def split: option.split intro!: evolves_send)

lemma evolves_group_commands:
  assumes "evolves b j k tn y0 y"
  shows "evolves b j k tn y0 (useGroupCreate c msg y)" "evolves b j k tn y0 (useGroupJoin c msg y)"
    "evolves b j k tn y0 (useGroupLeave c msg y)" "evolves b j k tn y0 (useGroupDelete c msg y)"
    "evolves b j k tn y0 (useGroupKick c msg y)" "evolves b j k tn y0 (useGroupGrantAdmin c msg y)"
    "evolves b j k tn y0 (useGroupRevokeAdmin c msg y)" "evolves b j k tn y0 (useGroupMembers r c msg y)"
    "evolves b j k tn y0 (useHelp c y)" "evolves b j k tn y0 (useIllegal c msg y)" "evolves b j k tn y0 (useWho r c y)"
proof -
  have reply: "evolves b j k tn y0 (group_reply c failed ok res y)" for failed ok res
    using assms by (simp add: group_reply_def split: sum.split)
  show "evolves b j k tn y0 (useGroupCreate c msg y)" "evolves b j k tn y0 (useGroupJoin c msg y)"
    "evolves b j k tn y0 (useGroupLeave c msg y)" "evolves b j k tn y0 (useGroupDelete c msg y)"
    "evolves b j k tn y0 (useGroupKick c msg y)" "evolves b j k tn y0 (useGroupGrantAdmin c msg y)"
    "evolves b j k tn y0 (useGroupRevokeAdmin c msg y)" "evolves b j k tn y0 (useGroupMembers r c msg y)"
    "evolves b j k tn y0 (useHelp c y)" "evolves b j k tn y0 (useIllegal c msg y)"
    using assms by (simp_all add: reply useGroupCreate_def useGroupJoin_def useGroupLeave_def useGroupDelete_def
        useGroupKick_def useGroupGrantAdmin_def useGroupRevokeAdmin_def useGroupMembers_def useHelp_def
        useIllegal_def Let_def split: option.split)
  have "evolves b j k tn y0 z \<Longrightarrow> evolves b j k tn y0 (fold (\<lambda>info. SendMsg c (g info)) xs z)" for g xs and z :: "('a, 'b) sys"
    by (induction xs arbitrary: z) simp_all
  then show "evolves b j k tn y0 (useWho r c y)" using assms by (simp add: useWho_def)
qed

lemma evolves_DoMessage:
  assumes "evolves b j k tn y0 y"
  shows "evolves b j k tn y0 (DoMessage x b rs c msg y)"
proof -
  have branch: "evolves b j k tn y0 z1 \<Longrightarrow> evolves b j k tn y0 z2 \<Longrightarrow> evolves b j k tn y0 (if P then z1 else z2)" for P z1 z2
    by simp
  show ?thesis
    unfolding DoMessage_def Let_def
    by (intro branch) (simp_all add: assms evolves_commands evolves_messages evolves_group_commands)
qed

lemma evolves_HandleMessage:
  assumes "evolves b j k tn y0 y"
  shows "evolves b j k tn y0 (HandleMessage b rs c m y)"
proof -
  have "evolves b j k tn y0 (HandleClientSend b rs c req y)" for req
    unfolding HandleClientSend_def Let_def by (rule evolves_send) (simp_all add: assms)
  then show ?thesis using assms by (simp add: HandleMessage_def Let_def)
qed

lemma evolves_answer:
  "evolves b j k tn y0 (snd p) \<Longrightarrow> evolves b j k tn y0 (snd (case p of (Some e, y1) \<Rightarrow> (False, SendMsg c (f e) y1)
    | (None, y1) \<Rightarrow> (True, SendMsg c (g y1) y1)))"
  by (auto split: prod.split option.split)

lemma evolves_handleAuthCommand:
  assumes "evolves b j k tn y0 y"
  shows "evolves b j k tn y0 (snd (handleAuthCommand x b rs c msg y))"
proof -
  have reg: "evolves b j k tn y0 (snd (case Register x b rs c n pw y of
      (Some e, y1) \<Rightarrow> (False, SendMsg c (txt_register_failed @ e @ nl) y1)
    | (None, y1) \<Rightarrow> (True, SendMsg c (txt_registered @ u_Name (the_user y1 c) @ nl) y1)))" for n pw
    by (intro evolves_answer evolves_Register assms)
  have log: "evolves b j k tn y0 (snd (case Login x b rs c n pw y of
      (Some e, y1) \<Rightarrow> (False, SendMsg c (txt_login_failed @ e @ nl) y1)
    | (None, y1) \<Rightarrow> (True, SendMsg c (txt_logged_in @ u_Name (the_user y1 c) @ nl) y1)))" for n pw
    by (intro evolves_answer evolves_Login assms)
  have send: "evolves b j k tn y0 (SendMsg c m y)" for m using assms by simp
  show ?thesis
    unfolding handleAuthCommand_def
    by (simp only: if_split[of "\<lambda>p. evolves b j k tn y0 (snd p)"] snd_conv send simp_thms)
      (intro conjI impI; simp only: snd_conv send reg log simp_thms split: list.split if_split)
qed

lemma evolves_manager_round:
  assumes "evolves b j k tn y0 y"
  shows "evolves b j k tn y0 (snd (manager_round x b rs c line y))"
proof -
  let ?y1 = "on_srv markInboundMessage y"
  have y1: "evolves b j k tn y0 ?y1" using assms by simp
  have "evolves b j k tn y0 (snd (processRawLine x b rs c raw y))" for raw
    using assms y1 evolves_handleAuthCommand[OF y1] evolves_DoMessage[OF y1] evolves_HandleMessage[OF y1]
    by (simp add: processRawLine_def Let_def split: option.split)
  then show ?thesis using assms by (simp add: manager_round_def split: raw_line.split)
qed

section \<open>Events\<close>

lemma evolves_deliver:
  assumes "evolves b j k tn y0 y"
  shows "evolves b j k (Suc tn) y0 (deliver x b rs y)"
proof (cases "srv_worker (im_srv y)")
  case None
  with assms show ?thesis by (auto simp: deliver_def evolves_def turned_def split: option.splits)
next
  case (Some w)
  let ?r = "deliver_round (InMemoryStore b) rs (max_retry_setting (x_env x)) (retry_delay_setting (x_env x))
    (online_map (im_srv y)) (w, store_of y)"
  have out: "evolves b j k tm y0 z \<Longrightarrow> evolves b j k tm y0 (hand_out online out z)" for online out tm and z :: "('a, 'b) sys"
    unfolding hand_out_def by (induction out arbitrary: z) (auto split: option.split)
  have "turned (Suc tn) (srv_worker (im_srv y0)) (Some (fst (snd ?r)))"
    using assms Some by (auto simp: deliver_round_def evolves_def case_prod_beta turned_idle turned_take split: list.split)
  then have "evolves b j k (Suc tn) y0 (on_srv (\<lambda>v. set_store (snd (snd ?r)) (v\<lparr>srv_worker := Some (fst (snd ?r))\<rparr>)) y)"
    using assms by (simp add: evolves_def tc.wf_deliver_round)
  then show ?thesis by (simp add: deliver_def Some case_prod_beta out)
qed

lemma evolves_retry:
  assumes "evolves b j k tn y0 y"
  shows "evolves b j k tn y0 (retry b r y)"
proof (cases "srv_worker (im_srv y)")
  case (Some w)
  let ?r = "retry_tick (InMemoryStore b) r (w, store_of y)"
  have "turned tn (srv_worker (im_srv y0)) (Some (fst ?r))"
    using assms Some by (simp add: retry_tick_def evolves_def case_prod_beta)
  then have "evolves b j k tn y0 (on_srv (\<lambda>v. set_store (snd ?r) (v\<lparr>srv_worker := Some (fst ?r)\<rparr>)) y)"
    using assms by (simp add: evolves_def retry_tick_def case_prod_beta tc.wf_calls)
  then show ?thesis by (simp add: retry_def Some case_prod_beta)
qed (use assms in \<open>simp add: retry_def\<close>)

lemma evolves_handler [simp]:
  "evolves b j k tn y0 y \<Longrightarrow> evolves b j (k - 1) tn y0 (on_srv handler_leave y)"
  "evolves b j k tn y0 y \<Longrightarrow> evolves b j (k + 1) tn y0 (on_srv handler_enter y)"
  by (simp_all add: evolves_def) (simp_all add: handler_leave_def handler_enter_def)

lemma evolves_Handler_start:
  assumes "evolves b j k tn y0 y"
  shows "evolves b (Suc j) (k + 1) tn y0 (snd (Handler_start remote y))"
proof -
  have "evolves b (Suc j) (k + 1) tn y0 (snd (NewUser remote (on_srv handler_enter y)))"
    using evolves_handler(2)[OF assms] by (simp add: NewUser_def evolves_def sessions_le_append)
  then show ?thesis by (simp add: Handler_start_def case_prod_beta)
qed

text \<open>
  The connections an event opens and the change of the number of active ones: a connection that
  is admitted counts until its handler returns.
\<close>

definition admits :: "rt \<Rightarrow> event \<Rightarrow> ('d, 'c) server \<Rightarrow> bool" where
  "admits r ev v \<longleftrightarrow> (case ev of Connect remote \<Rightarrow> fst (accept_round r (Some remote) v) = None | _ \<Rightarrow> False)"

definition returns :: "event \<Rightarrow> bool" where
  "returns ev \<longleftrightarrow> (case ev of Idle c \<Rightarrow> True | Leave_handler \<Rightarrow> True | _ \<Rightarrow> False)"

lemma evolves_event:
  assumes "evolves b j k tn y0 y"
  shows "evolves b (if admits (rs 0) ev (im_srv y) then Suc j else j)
    (k + (if admits (rs 0) ev (im_srv y) then 1 else 0) - (if returns ev then 1 else 0))
    (tn + (if ev = Deliver then 1 else 0)) y0 (exec_event x b rs ev y)"
proof (cases ev)
  case (Connect remote)
  obtain reason v where v: "accept_round (rs 0) (Some remote) (im_srv y) = (reason, v)" by fastforce
  then have eq: "v = snd (accept_round (rs 0) (Some remote) (im_srv y))" by simp
  have "evolves b j k tn y0 (y\<lparr>im_srv := v\<rparr>)" unfolding eq using assms by (intro evolves_srv) simp_all
  with Connect v show ?thesis
    by (simp add: exec_event_def admits_def returns_def evolves_Handler_start split: option.split)
next
  case (Idle c)
  have "evolves b j k tn y0 (Logout b rs c (SendMsg c m y))" for m using assms by simp
  from evolves_handler(1)[OF this] Idle show ?thesis
    by (simp add: exec_event_def admits_def returns_def Handler_timeout_def)
next
  case Leave_handler
  from evolves_handler(1)[OF assms] Leave_handler show ?thesis by (simp add: exec_event_def admits_def returns_def)
next
  case Run_logout
  with assms show ?thesis by (simp add: exec_event_def admits_def returns_def split: list.split)
qed (use assms in \<open>simp_all add: exec_event_def admits_def returns_def evolves_manager_round
      evolves_deliver evolves_retry\<close>)

lemma evolves_steps: "(step b e)\<^sup>*\<^sup>* y y' \<Longrightarrow> \<exists>j k tn. evolves b j k tn y y'"
proof (induction rule: rtranclp_induct)
  case base
  show ?case using evolves_refl by blast
next
  case (step y1 y2)
  from step(2) obtain x rs ev where "y2 = exec_event x b rs ev y1" by (auto elim!: step_elim)
  with step(3) show ?case using evolves_event by blast
qed

text \<open>The start itself.\<close>

lemma touches_boot: "touches b (NewInMemoryStore p d c) (store_of (boot e p d c now b r))"
  using tc.wf_calls(10)[of b "NewInMemoryStore p d c" "NewInMemoryStore p d c" r 2000]
  by (simp add: boot_def Start_def SetWorker_def NewServer_def newLogicService_def case_prod_beta
      RecoverPendingDeliveries_def)

end
