(* ===== verification/Lifetimes.thy ===== *)
theory Lifetimes
  imports Process_Steps
begin

text \<open>
  The program over any number of crashes. The process may stop between two events; what it has in
  memory is lost, and \<open>main\<close> starts a new one on the tables as they are, with whatever the
  cache then holds. What every access of the store and every restart keep, holds for ever.
\<close>

section \<open>Processes one after the other\<close>

inductive life_step :: "('d, 'c) backend \<Rightarrow> ('d, 'c) sys \<Rightarrow> ('d, 'c) sys \<Rightarrow> bool"
  for b :: "('d, 'c) backend" where
  works: "step b e y y' \<Longrightarrow> life_step b y y'"
| restarts: "life_step b y (boot e True (db (store_of y)) c now b r)"

inductive_cases life_step_elim: "life_step b y y'"

abbreviation later :: "('d, 'c) backend \<Rightarrow> ('d, 'c) sys \<Rightarrow> ('d, 'c) sys \<Rightarrow> bool" where
  "later b \<equiv> (life_step b)\<^sup>*\<^sup>*"

definition lives :: "('d, 'c) backend \<Rightarrow> 'd \<Rightarrow> ('d, 'c) sys \<Rightarrow> bool" where
  "lives b d0 y \<longleftrightarrow> (\<exists>e c now r. later b (boot e True d0 c now b r) y)"

lemma lives_boot: "lives b d (boot e True d c now b r)"
  unfolding lives_def by blast

lemma lives_later: "lives b d0 y \<Longrightarrow> later b y y' \<Longrightarrow> lives b d0 y'"
  unfolding lives_def by (meson rtranclp_trans)

lemma steps_later: "(step b e)\<^sup>*\<^sup>* y y' \<Longrightarrow> later b y y'"
  by (erule mono_rtranclp[rule_format, rotated]) (rule works)

lemma reachable_lives: "reachable b e True d0 c0 y \<Longrightarrow> lives b d0 y"
  unfolding reachable_def lives_def using steps_later by blast

section \<open>What lasts\<close>

locale lasting =
  fixes b :: "('d, 'c) backend"
    and P :: "('d, 'c) store \<Rightarrow> bool"
  assumes touched: "touch b s s' \<Longrightarrow> P s \<Longrightarrow> P s'"
begin

lemma touches_keep: "touches b s s' \<Longrightarrow> P s \<Longrightarrow> P s'"
  by (induction rule: rtranclp_induct) (auto intro: touched)

lemma steps_keep: "(step b e)\<^sup>*\<^sup>* y y' \<Longrightarrow> P (store_of y) \<Longrightarrow> P (store_of y')"
  using evolves_steps[of b e y y'] by (auto simp: evolves_def intro: touches_keep)

end

locale durable = lasting +
  assumes restarted: "P s \<Longrightarrow> P (NewInMemoryStore True (db s) c)"
begin

lemma boot_keeps: "P (NewInMemoryStore True d c) \<Longrightarrow> P (store_of (boot e True d c now b r))"
  by (rule touches_keep[OF touches_boot])

lemma later_keeps: "later b y y' \<Longrightarrow> P (store_of y) \<Longrightarrow> P (store_of y')"
proof (induction rule: rtranclp_induct)
  case (step y1 y2)
  from step(2) show ?case
  proof (cases rule: life_step.cases)
    case (works e)
    with step(3)[OF step(4)] show ?thesis by (intro steps_keep[of e y1 y2]) auto
  next
    case (restarts e c now r)
    with step show ?thesis by (auto intro: boot_keeps restarted)
  qed
qed

lemma lives_keep: "lives b d0 y \<Longrightarrow> (\<And>c. P (NewInMemoryStore True d0 c)) \<Longrightarrow> P (store_of y)"
  unfolding lives_def using later_keeps boot_keeps by blast

end

text \<open>The program always runs on its database.\<close>

interpretation on_db: durable b persistent for b
  by unfold_locales (use touches_persistent in blast, simp add: NewInMemoryStore_def)

section \<open>Sends and system events as calls of the store\<close>

text \<open>What the commit of a send does to the store: a number, then a save of a message of that pair.\<close>

lemma commit_access:
  "\<exists>msg. From msg = From q \<and> ClientMsgID msg = ClientMsgID q \<and>
    l_store (snd (send_commit (InMemoryStore b) r q rs l)) =
      snd (SaveMessageWithRecipients b (Some msg) rs (snd (NextSeq b (chat_of q) (l_store l))))"
proof -
  obtain n s1 where s1: "NextSeq b (chat_of q) (l_store l) = (n, s1)" by fastforce
  obtain i l1 where l1: "GenerateServerMsgID (clk r 1) ''s'' (l\<lparr>l_store := s1\<rparr>) = (i, l1)" by fastforce
  have st: "l_store l1 = s1" using Generate_frame(1)[of "clk r 1" "''s''" "l\<lparr>l_store := s1\<rparr>"] l1
    by (simp del: One_nat_def)
  define msg where "msg = zero_Message\<lparr>Type := TypeDeliver, ServerMsgID := i, ClientMsgID := ClientMsgID q,
    ChatID := chat_of q, From := From q, To := To q, Seq := n, Body := Body q, Ts := unix (clk r 2)\<rparr>"
  obtain e s2 where s2: "SaveMessageWithRecipients b (Some msg) rs s1 = (e, s2)" by fastforce
  have "i_NextSeq (InMemoryStore b) (chat_of q) (l_store l) = (n, s1)"
    and "i_SaveMessageWithRecipients (InMemoryStore b) (Some msg) rs (l_store l1) = (e, s2)"
    using s1 s2 st by (simp_all add: InMemoryStore_def)
  then have "l_store (snd (send_commit (InMemoryStore b) r q rs l)) = s2"
    using l1 by (cases e) (simp_all add: send_commit_def Let_def msg_def)
  then show ?thesis using s1 s2 by (intro exI[of _ msg]) (simp add: msg_def)
qed

lemma event_access:
  "\<exists>msg. ClientMsgID msg = [] \<and> l_store (snd (system_event (InMemoryStore b) r body rs l)) =
    snd (SaveMessageWithRecipients b (Some msg) rs (snd (NextSeq b ''system'' (l_store l))))"
proof -
  obtain n s1 where s1: "NextSeq b ''system'' (l_store l) = (n, s1)" by fastforce
  obtain i l1 where l1: "GenerateServerMsgID (clk r 0) ''sys'' (l\<lparr>l_store := s1\<rparr>) = (i, l1)" by fastforce
  have st: "l_store l1 = s1" using Generate_frame(1)[of "clk r 0" "''sys''" "l\<lparr>l_store := s1\<rparr>"] l1 by simp
  define msg where "msg = zero_Message\<lparr>Type := TypeDeliver, ServerMsgID := i, ChatID := ''system'',
    From := ''system'', Body := body, Seq := n, Ts := unix (clk r 1)\<rparr>"
  have "i_NextSeq (InMemoryStore b) ''system'' (l_store l) = (n, s1)"
    "i_SaveMessageWithRecipients (InMemoryStore b) = SaveMessageWithRecipients b"
    using s1 by (simp_all add: InMemoryStore_def)
  then have "l_store (snd (system_event (InMemoryStore b) r body rs l)) = snd (SaveMessageWithRecipients b (Some msg) rs s1)"
    using l1 st by (simp add: system_event_def Let_def msg_def del: One_nat_def)
  then show ?thesis using s1 by (intro exI[of _ msg]) (simp add: msg_def zero_Message_def)
qed

text \<open>The check of a send, and what it means when it lets the request through.\<close>

lemma check_passes:
  assumes "send_check (InMemoryStore b) r req l = (Inr q, l1)"
  shows "TrimSpace (From q) \<noteq> [] \<and> From q \<noteq> [] \<and> ClientMsgID q \<noteq> [] \<and>
    GetMessageByClientID b (From q) (ClientMsgID q) (l_store l) = (None, l_store l1)"
proof -
  have ne: "s \<noteq> []" if "TrimSpace s \<noteq> []" for s using that by auto
  obtain r0 where r0: "req = Some r0" "TrimSpace (From r0) \<noteq> []"
    using assms by (cases req) (auto simp: send_check_def split: if_splits)
  have c: "''c-'' @ t \<noteq> []" for t by simp
  show ?thesis
    using assms r0 ne[OF r0(2)] ne[of "ClientMsgID r0"]
    by (auto simp: send_check_def InMemoryStore_def Let_def split: if_splits prod.splits option.splits)
qed

lemma check_store:
  "send_check (InMemoryStore b) r req l = (res, l1) \<Longrightarrow>
    l_store l1 = l_store l \<or> (\<exists>f k. l_store l1 = snd (GetMessageByClientID b f k (l_store l)))"
  by (auto simp: send_check_def InMemoryStore_def Let_def split: if_splits prod.splits option.splits
      dest!: arg_cong[of _ _ snd]) blast+

end
