(* ===== verification/Store_Database.thy ===== *)
theory Store_Database
  imports Store_Theorems Sample_Backend
begin

text \<open>
  The store with a database that keeps its word. The laws state what MySQL, with the keys of
  \<open>internal/storage/model.go\<close>, and gorm are documented to do: queries return rows of the table
  that satisfy the condition, an insert with \<open>ON CONFLICT DO NOTHING\<close> adds the row unless a unique
  key forbids it, an update changes the rows that satisfy its condition, a transaction happens
  entirely or not at all. Under them, everything the store does to the two tables is a sequence of
  three kinds of changes, and what has been saved or settled stays so over restarts.
\<close>

section \<open>The laws of the database\<close>

text \<open>\<open>mr\<close> and \<open>rr\<close> give the rows of the two tables.\<close>

definition same_rows :: "('d \<Rightarrow> 'a) \<Rightarrow> ('d \<Rightarrow> 'b) \<Rightarrow> 'd \<Rightarrow> 'd \<Rightarrow> bool" where
  "same_rows mr rr d d' \<longleftrightarrow> mr d' = mr d \<and> rr d' = rr d"

definition find_law :: "('d, 'r) table \<Rightarrow> ('d \<Rightarrow> 'r list) \<Rightarrow> bool" where
  "find_law t rows \<longleftrightarrow> (\<forall>w ord lim d out. fst (t_find t w ord lim None d) = Inr out \<longrightarrow>
     set out \<subseteq> set (filter w (rows d)) \<and>
     ((case lim of None \<Rightarrow> True | Some n \<Rightarrow> length (filter w (rows d)) \<le> n) \<longrightarrow>
       set out = set (filter w (rows d))))"

definition take_law :: "('d, 'r) table \<Rightarrow> ('d \<Rightarrow> 'r list) \<Rightarrow> bool" where
  "take_law t rows \<longleftrightarrow> (\<forall>w d. case fst (t_take t w d) of
     Inr x \<Rightarrow> x \<in> set (rows d) \<and> w x
   | Inl ErrRecordNotFound \<Rightarrow> \<forall>x \<in> set (rows d). \<not> w x
   | Inl (DBError _) \<Rightarrow> True)"

definition insert_law ::
  "('d, 'r) table \<Rightarrow> ('d \<Rightarrow> 'r list) \<Rightarrow> ('d \<Rightarrow> 'o) \<Rightarrow> ('r \<Rightarrow> 'r \<Rightarrow> bool) \<Rightarrow> ('r \<Rightarrow> 'r \<Rightarrow> bool) \<Rightarrow> bool" where
  "insert_law t rows other clash stored \<longleftrightarrow> (\<forall>row d. case t_create_ignore t row d of
     (Some _, d') \<Rightarrow> same_rows rows other d d'
   | (None, d') \<Rightarrow>
       if \<exists>x \<in> set (rows d). clash row x then same_rows rows other d d'
       else other d' = other d \<and> (\<exists>row'. stored row row' \<and> rows d' = rows d @ [row']))"

text \<open>The unique keys, and what an insert fills in.\<close>

definition msg_clash :: "'d gorm_db \<Rightarrow> db_message \<Rightarrow> db_message \<Rightarrow> bool" where
  "msg_clash g x y \<longleftrightarrow> coll g (DM_ServerMsgID y) (DM_ServerMsgID x) \<or>
     coll g (DM_SendID y) (DM_SendID x) \<and> coll g (DM_ClientMsgID y) (DM_ClientMsgID x)"

definition rec_clash :: "'d gorm_db \<Rightarrow> db_recipient \<Rightarrow> db_recipient \<Rightarrow> bool" where
  "rec_clash g x y \<longleftrightarrow> coll g (DR_ServerMsgID y) (DR_ServerMsgID x) \<and> coll g (DR_ToUser y) (DR_ToUser x)"

definition msg_stored :: "db_message \<Rightarrow> db_message \<Rightarrow> bool" where
  "msg_stored x y \<longleftrightarrow> (\<exists>i t. y = x\<lparr>DM_ID := i, DM_CreateTime := t\<rparr>)"

definition rec_stored :: "db_recipient \<Rightarrow> db_recipient \<Rightarrow> bool" where
  "rec_stored x y \<longleftrightarrow> (\<exists>i t u. y = x\<lparr>DR_ID := i, DR_CreateTime := t, DR_UpdateTime := u\<rparr>)"

text \<open>An update of a row writes these fields; times may be rounded by the column type.\<close>

definition written :: "db_recipient \<Rightarrow> db_recipient \<Rightarrow> bool" where
  "written x y \<longleftrightarrow> DR_ServerMsgID y = DR_ServerMsgID x \<and> DR_ToUser y = DR_ToUser x \<and>
     DR_Status y = DR_Status x \<and> DR_RetryCount y = DR_RetryCount x \<and> DR_LastError y = DR_LastError x"

definition update_law ::
  "('d, db_recipient) table \<Rightarrow> ('d \<Rightarrow> db_recipient list) \<Rightarrow> ('d \<Rightarrow> 'o) \<Rightarrow> bool" where
  "update_law t rows other \<longleftrightarrow> (\<forall>w f d. case t_update t w f d of
     (Inl _, d') \<Rightarrow> same_rows rows other d d'
   | (Inr _, d') \<Rightarrow> other d' = other d \<and>
       list_all2 (\<lambda>x y. if w x then written (f x) y else y = x) (rows d) (rows d'))"

definition read_law :: "('d, 'r) table \<Rightarrow> ('d \<Rightarrow> 'a) \<Rightarrow> ('d \<Rightarrow> 'b) \<Rightarrow> bool" where
  "read_law t mr rr \<longleftrightarrow> (\<forall>w ord lim off d. same_rows mr rr d (snd (t_find t w ord lim off d)) \<and>
     same_rows mr rr d (snd (t_take t w d)))"

definition tx_law :: "'d gorm_db \<Rightarrow> ('d \<Rightarrow> 'a) \<Rightarrow> ('d \<Rightarrow> 'b) \<Rightarrow> bool" where
  "tx_law g mr rr \<longleftrightarrow> (\<forall>body d. case transaction g body d of
     (Some _, d') \<Rightarrow> same_rows mr rr d d'
   | (None, d') \<Rightarrow> \<exists>d1. body d = (None, d1) \<and> same_rows mr rr d1 d')"

definition lawful :: "'d gorm_db \<Rightarrow> ('d \<Rightarrow> db_message list) \<Rightarrow> ('d \<Rightarrow> db_recipient list) \<Rightarrow> bool" where
  "lawful g mr rr \<longleftrightarrow> equivp (coll g) \<and>
     find_law (messages_t g) mr \<and> find_law (recipients_t g) rr \<and>
     take_law (messages_t g) mr \<and> take_law (recipients_t g) rr \<and>
     read_law (messages_t g) mr rr \<and> read_law (recipients_t g) mr rr \<and>
     (\<forall>w d. same_rows mr rr d (snd (max_seq g w d))) \<and> (\<forall>d. same_rows mr rr d (snd (count_status g d))) \<and>
     insert_law (messages_t g) mr rr (msg_clash g) msg_stored \<and>
     insert_law (recipients_t g) rr mr (rec_clash g) rec_stored \<and>
     update_law (recipients_t g) rr mr \<and>
     tx_law g mr rr"

text \<open>The database without failing queries.\<close>

definition answers :: "'d gorm_db \<Rightarrow> 'd \<Rightarrow> bool" where
  "answers g d \<longleftrightarrow> (\<forall>w ord lim off. \<exists>rows. fst (t_find (recipients_t g) w ord lim off d) = Inr rows) \<and>
     (\<forall>w e. fst (t_take (messages_t g) w d) \<noteq> Inl (DBError e))"

section \<open>Changes of the two tables\<close>

text \<open>An update keeps the key of a row, and a row that is no longer pending does not become so.\<close>

definition kept :: "db_recipient \<Rightarrow> db_recipient \<Rightarrow> bool" where
  "kept x y \<longleftrightarrow> DR_ServerMsgID y = DR_ServerMsgID x \<and> DR_ToUser y = DR_ToUser x \<and>
     (1 \<le> DR_Status x \<longrightarrow> 1 \<le> DR_Status y) \<and> (DR_Status y = 0 \<longrightarrow> DR_Status x = 0)"

inductive db_step ::
  "'d gorm_db \<Rightarrow> db_message list \<times> db_recipient list \<Rightarrow> db_message list \<times> db_recipient list \<Rightarrow> bool"
  for g :: "'d gorm_db" where
  add_message: "\<forall>x \<in> set ms. \<not> msg_clash g row x \<Longrightarrow> db_step g (ms, rs) (ms @ [row], rs)"
| add_recipient: "\<forall>x \<in> set rs. \<not> rec_clash g row x \<Longrightarrow> db_step g (ms, rs) (ms, rs @ [row])"
| change: "list_all2 kept rs rs' \<Longrightarrow> db_step g (ms, rs) (ms, rs')"

inductive_cases db_step_elim: "db_step g c c'"

definition moves :: "'d gorm_db \<Rightarrow> ('d \<Rightarrow> db_message list) \<Rightarrow> ('d \<Rightarrow> db_recipient list) \<Rightarrow> 'd \<Rightarrow> 'd \<Rightarrow> bool" where
  "moves g mr rr d d' \<longleftrightarrow> (db_step g)\<^sup>*\<^sup>* (mr d, rr d) (mr d', rr d')"

lemma moves_refl [simp]: "moves g mr rr d d"
  by (simp add: moves_def)

lemma moves_trans: "moves g mr rr d1 d2 \<Longrightarrow> moves g mr rr d2 d3 \<Longrightarrow> moves g mr rr d1 d3"
  by (simp add: moves_def)

lemma moves_same: "moves g mr rr d d1 \<Longrightarrow> same_rows mr rr d1 d2 \<Longrightarrow> moves g mr rr d d2"
  by (simp add: same_rows_def moves_def)

text \<open>Each call is such a change.\<close>

lemma moves_read:
  assumes "lawful g mr rr" and "moves g mr rr d d1"
  shows "t_find (recipients_t g) w ord lim off d1 = (x, d2) \<Longrightarrow> moves g mr rr d d2"
    and "t_find (messages_t g) w' ord' lim off d1 = (x', d2) \<Longrightarrow> moves g mr rr d d2"
    and "t_take (recipients_t g) w d1 = (x1, d2) \<Longrightarrow> moves g mr rr d d2"
    and "t_take (messages_t g) w' d1 = (x1', d2) \<Longrightarrow> moves g mr rr d d2"
    and "max_seq g w' d1 = (x2, d2) \<Longrightarrow> moves g mr rr d d2"
    and "count_status g d1 = (x3, d2) \<Longrightarrow> moves g mr rr d d2"
  using assms(1) unfolding lawful_def read_law_def
  by (metis moves_same[OF assms(2)] snd_conv)+

lemma moves_create_message:
  assumes "lawful g mr rr" and "moves g mr rr d d1" and "t_create_ignore (messages_t g) row d1 = (e, d2)"
  shows "moves g mr rr d d2"
proof -
  have law: "insert_law (messages_t g) mr rr (msg_clash g) msg_stored" using assms(1) by (simp add: lawful_def)
  show ?thesis
  proof (cases "e = None \<and> \<not> (\<exists>x \<in> set (mr d1). msg_clash g row x)")
    case True
    then obtain row' where row': "msg_stored row row'" "mr d2 = mr d1 @ [row']" "rr d2 = rr d1"
      using law[unfolded insert_law_def, rule_format, of d1 row] assms(3) by auto
    have "\<forall>x \<in> set (mr d1). \<not> msg_clash g row' x"
      using True row'(1) by (auto simp: msg_stored_def msg_clash_def)
    then have "db_step g (mr d1, rr d1) (mr d2, rr d2)" unfolding row'(2,3) by (rule add_message)
    with assms(2) show ?thesis by (simp add: moves_def)
  next
    case False
    then have "same_rows mr rr d1 d2"
      using law[unfolded insert_law_def, rule_format, of d1 row] assms(3) by (auto split: option.splits)
    with assms(2) show ?thesis by (rule moves_same)
  qed
qed

lemma moves_create_recipient:
  assumes "lawful g mr rr" and "moves g mr rr d d1" and "t_create_ignore (recipients_t g) row d1 = (e, d2)"
  shows "moves g mr rr d d2"
proof -
  have law: "insert_law (recipients_t g) rr mr (rec_clash g) rec_stored" using assms(1) by (simp add: lawful_def)
  show ?thesis
  proof (cases "e = None \<and> \<not> (\<exists>x \<in> set (rr d1). rec_clash g row x)")
    case True
    then obtain row' where row': "rec_stored row row'" "rr d2 = rr d1 @ [row']" "mr d2 = mr d1"
      using law[unfolded insert_law_def, rule_format, of d1 row] assms(3) by auto
    have "\<forall>x \<in> set (rr d1). \<not> rec_clash g row' x"
      using True row'(1) by (auto simp: rec_stored_def rec_clash_def)
    then have "db_step g (mr d1, rr d1) (mr d2, rr d2)" unfolding row'(2,3) by (rule add_recipient)
    with assms(2) show ?thesis by (simp add: moves_def)
  next
    case False
    then have "same_rows rr mr d1 d2"
      using law[unfolded insert_law_def, rule_format, of d1 row] assms(3) by (auto split: option.splits)
    with assms(2) show ?thesis by (simp add: moves_def same_rows_def)
  qed
qed

lemma moves_update:
  assumes "lawful (gorm b) mr rr" and "moves (gorm b) mr rr d (db s)"
    and "update_recipients b w f s = (e, s')" and "\<And>x. w x \<Longrightarrow> kept x (f x)"
  shows "moves (gorm b) mr rr d (db s')"
proof -
  obtain res d' where u: "t_update (recipients_t (gorm b)) w f (db s) = (res, d')" by fastforce
  then have d': "db s' = d'" using assms(3) by (auto simp: update_recipients_def split: sum.splits)
  have law: "update_law (recipients_t (gorm b)) rr mr" using assms(1) by (simp add: lawful_def)
  show ?thesis
  proof (cases res)
    case (Inl e)
    then have "same_rows rr mr (db s) d'"
      using law[unfolded update_law_def, rule_format, of "db s" w f] u by simp
    with assms(2) show ?thesis by (simp add: moves_def same_rows_def d')
  next
    case (Inr n)
    then have mr: "mr d' = mr (db s)" and rows: "list_all2
        (\<lambda>x y. if w x then written (f x) y else y = x) (rr (db s)) (rr d')"
      using law[unfolded update_law_def, rule_format, of "db s" w f] u by simp_all
    have "list_all2 kept (rr (db s)) (rr d')"
      using rows by (rule list.rel_mono_strong)
        (use assms(4) in \<open>auto simp: kept_def written_def split: if_splits\<close>)
    then have "db_step (gorm b) (mr (db s), rr (db s)) (mr d', rr d')" unfolding mr by (rule change)
    with assms(2) show ?thesis by (simp add: moves_def d')
  qed
qed

lemma moves_transaction:
  assumes "lawful g mr rr" and "moves g mr rr d d1" and "transaction g body d1 = (e, d2)"
    and "\<And>e' d'. body d1 = (e', d') \<Longrightarrow> moves g mr rr d1 d'"
  shows "moves g mr rr d d2"
proof -
  have law: "tx_law g mr rr" using assms(1) by (simp add: lawful_def)
  note tx = law[unfolded tx_law_def, rule_format, of body d1, unfolded assms(3)]
  show ?thesis
  proof (cases e)
    case None
    then obtain d3 where "body d1 = (None, d3)" "same_rows mr rr d3 d2" using tx by auto
    then show ?thesis using assms(2,4) by (meson moves_same moves_trans)
  next
    case (Some err)
    then have "same_rows mr rr d1 d2" using tx by simp
    with assms(2) show ?thesis by (rule moves_same)
  qed
qed

section \<open>Every operation of the store\<close>

lemma moves_insert_recipients:
  assumes "lawful (gorm b) mr rr" and "moves (gorm b) mr rr d d1"
  shows "moves (gorm b) mr rr d (snd (insert_recipients b i tos d1))"
  using assms(2)
proof (induction tos arbitrary: d1)
  case (Cons to tos)
  show ?case
  proof (cases "t_create_ignore (recipients_t (gorm b)) (new_recipient i to) d1")
    case (Pair e d2)
    then have "moves (gorm b) mr rr d d2" by (rule moves_create_recipient[OF assms(1) Cons.prems])
    with Pair Cons.IH Cons.prems show ?thesis by (simp split: option.split)
  qed
qed simp

lemma moves_save_tx:
  assumes "lawful (gorm b) mr rr" and "save_tx b m rs d = (e, d')"
  shows "moves (gorm b) mr rr d d'"
  using assms(2) unfolding save_tx_def
proof (rule moves_transaction[OF assms(1) moves_refl])
  fix e' d2
  assume body: "(case t_create_ignore (messages_t (gorm b)) (toDBMessage m) d of
      (None, d') \<Rightarrow> insert_recipients b (ServerMsgID m) rs d' | (Some e, d') \<Rightarrow> (Some e, d')) = (e', d2)"
  obtain e1 d1 where c: "t_create_ignore (messages_t (gorm b)) (toDBMessage m) d = (e1, d1)" by fastforce
  have d1: "moves (gorm b) mr rr d d1" by (rule moves_create_message[OF assms(1) moves_refl c])
  show "moves (gorm b) mr rr d d2"
    using body d1 moves_insert_recipients[OF assms(1) d1, of "ServerMsgID m" rs]
    by (cases e1) (auto simp: c)
qed

lemma db_frame [simp]:
  "db (saveMessageUnsafe m s) = db s" "db (saveDeliveryUnsafe i to s) = db s"
  "db (mod_entry i to f s) = db s" "db (del_keys b ks s) = db s"
  by (simp_all add: saveMessageUnsafe_def saveDeliveryUnsafe_def mod_entry_def del_keys_def Let_def)

lemma db_fold [simp]: "db (fold (\<lambda>x. saveDeliveryUnsafe (h x) (k x)) xs s) = db s"
  by (induction xs arbitrary: s) simp_all

lemma db_fold' [simp]: "db (fold (saveDeliveryUnsafe i) xs s) = db s"
  by (induction xs arbitrary: s) simp_all

lemma moves_Save:
  assumes "lawful (gorm b) mr rr"
  shows "moves (gorm b) mr rr (db s) (db (snd (SaveMessageWithRecipients b m rs s)))"
  using assms
  by (auto simp: SaveMessageWithRecipients_def Let_def elim: moves_save_tx split: option.split prod.split)

lemma moves_SaveDelivery:
  assumes "lawful (gorm b) mr rr" and "moves (gorm b) mr rr d (db s)"
  shows "moves (gorm b) mr rr d (db (snd (SaveDelivery b i to s)))"
  using assms by (auto simp: SaveDelivery_def Let_def elim: moves_create_recipient[OF assms(1)]
      split: option.split prod.split)

lemma moves_GetRecipients:
  "lawful (gorm b) mr rr \<Longrightarrow> moves (gorm b) mr rr (db s) (db (snd (GetRecipients b r i s)))"
  by (auto simp: GetRecipients_def Let_def elim: moves_read[OF _ moves_refl] split: option.split prod.split sum.split)

lemma moves_update_snd:
  assumes "lawful (gorm b) mr rr" and "moves (gorm b) mr rr d (db s)" and "\<And>x. w x \<Longrightarrow> kept x (f x)"
  shows "moves (gorm b) mr rr d (db (snd (update_recipients b w f s)))"
  using assms by (intro moves_update[OF assms(1,2), of w f "fst (update_recipients b w f s)"]) simp_all

text \<open>An update followed by the removal of cached lists.\<close>

lemma moves_then_del:
  assumes "lawful (gorm b) mr rr" and "moves (gorm b) mr rr d (db s)" and "\<And>x. w x \<Longrightarrow> kept x (f x)"
  shows "moves (gorm b) mr rr d (db (snd (case update_recipients b w f s of
    (Some e, s2) \<Rightarrow> (g e, s2) | (None, s2) \<Rightarrow> (h, del_keys b ks s2))))"
  using moves_update[OF assms(1,2) _ assms(3), where w = w]
  by (auto split: prod.split option.split)

lemma moves_Mark:
  assumes "lawful (gorm b) mr rr"
  shows "moves (gorm b) mr rr (db s) (db (snd (MarkDeliverySent b r i to err s)))"
    and "moves (gorm b) mr rr (db s) (db (snd (MarkDeliveryAcked b r i to s)))"
    and "moves (gorm b) mr rr (db s) (db (snd (MarkDeliveryRead b r i to s)))"
proof -
  show "moves (gorm b) mr rr (db s) (db (snd (MarkDeliverySent b r i to err s)))"
    by (auto simp: MarkDeliverySent_def Let_def kept_def case_prod_beta intro!: moves_update_snd[OF assms])
  show "moves (gorm b) mr rr (db s) (db (snd (MarkDeliveryAcked b r i to s)))"
    and "moves (gorm b) mr rr (db s) (db (snd (MarkDeliveryRead b r i to s)))"
    by (auto simp: MarkDeliveryAcked_def MarkDeliveryRead_def Let_def kept_def intro!: moves_then_del[OF assms])
qed

lemma moves_schedule_row:
  assumes "lawful (gorm b) mr rr" and "moves (gorm b) mr rr d (db s)"
  shows "moves (gorm b) mr rr d (db (snd (schedule_row b i to t mx base now s)))"
proof (cases "t_take (recipients_t (gorm b)) (row_is b i to) (db s)")
  case (Pair res d1)
  have "moves (gorm b) mr rr d (db (s\<lparr>db := d1\<rparr>))"
    using moves_read(3)[OF assms Pair] by simp
  then show ?thesis
    unfolding schedule_row_def bury_rows_def Let_def Pair
    by (auto simp: kept_def split: sum.split intro!: moves_then_del[OF assms(1)])
qed

lemma moves_ScheduleRetry:
  assumes "lawful (gorm b) mr rr"
  shows "moves (gorm b) mr rr (db s) (db (snd (ScheduleRetry b r i to err mx base s)))"
  unfolding ScheduleRetry_def bury_rows_def Let_def
  by (auto simp: kept_def intro!: moves_then_del[OF assms] moves_schedule_row[OF assms])

lemma moves_save_rows:
  assumes "lawful (gorm b) mr rr" and "moves (gorm b) mr rr d (db s)"
  shows "moves (gorm b) mr rr d (db (snd (save_rows b rows s)))"
  using assms(2)
proof (induction rows arbitrary: s)
  case (Cons row rows)
  then show ?case by (simp add: case_prod_beta moves_SaveDelivery[OF assms(1)])
qed simp

lemma moves_scan_rows:
  assumes "lawful (gorm b) mr rr" and "moves (gorm b) mr rr d (db s)"
  shows "moves (gorm b) mr rr d (db (snd (scan_rows b key w ord limit s)))"
proof (cases "t_find (recipients_t (gorm b)) w ord (limit_clause limit) None (db s)")
  case (Pair res d1)
  have "moves (gorm b) mr rr d (db (s\<lparr>db := d1\<rparr>))"
    using moves_read(1)[OF assms Pair] by simp
  then have "moves (gorm b) mr rr d (db (snd (save_rows b rows (s\<lparr>db := d1\<rparr>))))" for rows
    by (rule moves_save_rows[OF assms(1)])
  with \<open>moves (gorm b) mr rr d (db (s\<lparr>db := d1\<rparr>))\<close> show ?thesis
    by (simp add: scan_rows_def Pair case_prod_beta split: sum.split)
qed

lemma moves_scans:
  assumes "lawful (gorm b) mr rr"
  shows "moves (gorm b) mr rr (db s) (db (snd (GetDueRetryServerMsgIDs b r n s)))"
    and "moves (gorm b) mr rr (db s) (db (snd (RecoverPendingServerMsgIDs b r n s)))"
    and "moves (gorm b) mr rr (db s) (db (snd (ListPendingServerMsgIDsByUser b r u n s)))"
  by (auto simp: GetDueRetryServerMsgIDs_def RecoverPendingServerMsgIDs_def Let_def
      ListPendingServerMsgIDsByUser_def split: prod.split option.split intro!: moves_scan_rows[OF assms])

lemma moves_lookups:
  assumes "lawful (gorm b) mr rr"
  shows "moves (gorm b) mr rr (db s) (db (snd (NextSeq b c s)))"
    and "moves (gorm b) mr rr (db s) (db (snd (GetMessageByClientID b f k s)))"
    and "moves (gorm b) mr rr (db s) (db (snd (DeliveryStats b s)))"
proof -
  note read = moves_read[OF assms moves_refl]
  show "moves (gorm b) mr rr (db s) (db (snd (NextSeq b c s)))"
    by (auto simp: NextSeq_def Let_def split: prod.split sum.split intro: read)
  show "moves (gorm b) mr rr (db s) (db (snd (GetMessageByClientID b f k s)))"
    by (auto simp: GetMessageByClientID_def Let_def split: prod.split sum.split option.split intro: read)
  show "moves (gorm b) mr rr (db s) (db (snd (DeliveryStats b s)))"
    by (auto simp: DeliveryStats_def split: prod.split sum.split intro: read)
qed

lemma moves_GetMessageByServerID:
  assumes "lawful (gorm b) mr rr"
  shows "moves (gorm b) mr rr (db s) (db (snd (GetMessageByServerID b i s)))"
proof (cases "t_take (messages_t (gorm b)) (\<lambda>row. coll (gorm b) (DM_ServerMsgID row) i) (db s)")
  case (Pair res d1)
  have "moves (gorm b) mr rr (db s) (db (s\<lparr>db := d1\<rparr>))"
    using moves_read(4)[OF assms moves_refl Pair] by simp
  moreover from this have "moves (gorm b) mr rr (db s)
      (db (markRecipientRowsDeadIfMessageMissing b i t (s\<lparr>db := d1\<rparr>)))" for t
    by (auto simp: markRecipientRowsDeadIfMessageMissing_def Let_def kept_def intro!: moves_update_snd[OF assms])
  ultimately show ?thesis
    by (auto simp: GetMessageByServerID_def Pair Let_def split: option.split sum.split db_error.split)
qed

lemma moves_history:
  assumes "lawful (gorm b) mr rr"
  shows "moves (gorm b) mr rr (db s) (db (snd (GetC2CHistory b r u v n s)))"
proof -
  have rows: "moves (gorm b) mr rr d (snd (history_rows b u v rows d1))" if "moves (gorm b) mr rr d d1" for d d1 rows
    using that
  proof (induction rows arbitrary: d1)
    case (Cons row rows)
    then have "moves (gorm b) mr rr d (snd (history_rows b u v rows
        (snd (t_take (recipients_t (gorm b)) w d1))))" for w
      by (intro Cons.IH moves_read(3)[OF assms Cons.prems, of w "fst (t_take (recipients_t (gorm b)) w d1)"]) simp
    then show ?case by (simp add: Let_def case_prod_beta)
  qed simp
  have find: "moves (gorm b) mr rr d (snd (t_find (messages_t (gorm b)) w ord lim off d))" for w ord lim off d
    by (rule moves_read(2)[OF assms moves_refl surjective_pairing])
  show ?thesis
    unfolding GetC2CHistory_def by (auto simp: case_prod_beta find split: sum.split intro!: rows)
qed

lemma moves_exec:
  assumes "lawful (gorm b) mr rr"
  shows "moves (gorm b) mr rr (db s) (db (exec_store b (r, op) s))"
proof (cases op)
  case (OpSaveMessage m)
  then show ?thesis using moves_Save[OF assms] by (simp add: SaveMessage_def)
qed (simp_all add: assms moves_Save moves_SaveDelivery moves_GetRecipients moves_Mark moves_ScheduleRetry
    moves_scans moves_lookups moves_GetMessageByServerID moves_history)

section \<open>What the changes keep\<close>

definition ids_unique :: "'d gorm_db \<Rightarrow> db_message list \<Rightarrow> bool" where
  "ids_unique g ms \<longleftrightarrow> (\<forall>x \<in> set ms. \<forall>y \<in> set ms. coll g (DM_ServerMsgID x) (DM_ServerMsgID y) \<longrightarrow> x = y)"

text \<open>The unique key of the recipients: no two rows for one message and one user.\<close>

definition pairs_unique :: "'d gorm_db \<Rightarrow> db_recipient list \<Rightarrow> bool" where
  "pairs_unique g rs \<longleftrightarrow> sorted_wrt (\<lambda>x y. \<not> rec_clash g x y) rs"

text \<open>The rows of a (message, recipient) pair, and that it is settled: no longer pending.\<close>

definition pair_row :: "'d gorm_db \<Rightarrow> string \<Rightarrow> string \<Rightarrow> db_recipient \<Rightarrow> bool" where
  "pair_row g i to x \<longleftrightarrow> coll g (DR_ServerMsgID x) i \<and> coll g (DR_ToUser x) to"

definition settled :: "'d gorm_db \<Rightarrow> string \<Rightarrow> string \<Rightarrow> db_recipient list \<Rightarrow> bool" where
  "settled g i to rs \<longleftrightarrow> (\<exists>x \<in> set rs. pair_row g i to x) \<and>
     (\<forall>x \<in> set rs. pair_row g i to x \<longrightarrow> 1 \<le> DR_Status x)"

lemma coll_laws:
  assumes "lawful g mr rr"
  shows "coll g x x" "coll g x y \<Longrightarrow> coll g y x" "coll g x y \<Longrightarrow> coll g y z \<Longrightarrow> coll g x z"
proof -
  have "equivp (coll g)" using assms by (simp add: lawful_def)
  then show "coll g x x" "coll g x y \<Longrightarrow> coll g y x" "coll g x y \<Longrightarrow> coll g y z \<Longrightarrow> coll g x z"
    by (blast intro: equivp_reflp equivp_symp equivp_transp)+
qed

lemma step_messages: "db_step g c c' \<Longrightarrow> set (fst c) \<subseteq> set (fst c')"
  by (auto elim!: db_step_elim)

lemma step_unique:
  assumes "lawful g mr rr" and "db_step g c c'" and "ids_unique g (fst c)"
  shows "ids_unique g (fst c')"
  using assms(2,3) coll_laws(2)[OF assms(1)]
  by (elim db_step_elim) (auto simp: ids_unique_def msg_clash_def)

lemma kept_row:
  assumes "list_all2 kept rs rs'"
  shows "x \<in> set rs \<Longrightarrow> \<exists>y \<in> set rs'. kept x y" and "y \<in> set rs' \<Longrightarrow> \<exists>x \<in> set rs. kept x y"
  using assms by (induction rule: list_all2_induct) auto

lemma step_settled:
  assumes "lawful g mr rr" and "db_step g c c'" and "settled g i to (snd c)"
  shows "settled g i to (snd c')"
  using assms(2)
proof (cases rule: db_step.cases)
  case (add_recipient rs row ms)
  have "\<not> pair_row g i to row"
  proof
    assume row: "pair_row g i to row"
    obtain x where "x \<in> set rs" "pair_row g i to x" using assms(3) add_recipient by (auto simp: settled_def)
    with row have "rec_clash g row x" "x \<in> set rs"
      unfolding pair_row_def rec_clash_def by (blast intro: coll_laws[OF assms(1)])+
    with add_recipient(3) show False by blast
  qed
  with assms(3) add_recipient show ?thesis by (auto simp: settled_def)
next
  case (change rs rs' ms)
  have "pair_row g i to y = pair_row g i to x" if "kept x y" for x y
    using that by (simp add: kept_def pair_row_def)
  with assms(3) change(1,2) kept_row[OF change(3)] show ?thesis
    unfolding settled_def kept_def by (metis snd_conv)
qed (use assms(3) in simp)

lemma rec_clash_sym: "lawful g mr rr \<Longrightarrow> rec_clash g x y = rec_clash g y x"
  unfolding rec_clash_def by (blast intro: coll_laws(2))

lemma step_pairs:
  assumes "lawful g mr rr" and "db_step g c c'" and "pairs_unique g (snd c)"
  shows "pairs_unique g (snd c')"
  using assms(2)
proof (cases rule: db_step.cases)
  case (add_recipient rs row ms)
  then show ?thesis
    using assms(3) rec_clash_sym[OF assms(1)] by (auto simp: pairs_unique_def sorted_wrt_append)
next
  case (change rs rs' ms)
  have "pairs_unique g rs' \<and> True"
    using change(3) assms(3)[unfolded change(1) snd_conv]
  proof (induction rule: list_all2_induct)
    case (Cons x xs y ys)
    have "\<not> rec_clash g y v" if v: "v \<in> set ys" for v
    proof -
      have "list_all2 kept xs ys" using Cons by blast
      then obtain u where "u \<in> set xs" "kept u v" using kept_row(2)[OF _ v] by blast
      then have "\<not> rec_clash g x u" "kept u v" using Cons(4) by (simp_all add: pairs_unique_def)
      then show ?thesis using Cons(1) by (simp add: rec_clash_def kept_def)
    qed
    with Cons show ?case by (simp add: pairs_unique_def)
  qed (simp add: pairs_unique_def)
  then show ?thesis by (simp add: change(2))
qed (use assms(3) in simp)

lemma pairs_unique_eq:
  assumes "lawful g mr rr" and "pairs_unique g rs" and "x \<in> set rs" "y \<in> set rs" and "pair_row g i to x" "pair_row g i to y"
  shows "x = y"
proof -
  have "rec_clash g u v" if "pair_row g i to u" "pair_row g i to v" for u v
    using that unfolding pair_row_def rec_clash_def by (blast intro: coll_laws[OF assms(1)])
  then show ?thesis
    using assms(2-6) unfolding pairs_unique_def by (induction rs) auto
qed

lemma kept_refl: "kept x x"
  by (simp add: kept_def)

lemma step_row:
  "db_step g c c' \<Longrightarrow> x \<in> set (snd c) \<Longrightarrow> \<exists>y \<in> set (snd c'). kept x y"
  by (elim db_step_elim) (auto intro: kept_refl dest: kept_row(1))

text \<open>The same over any number of changes.\<close>

lemma moves_keep:
  assumes "lawful g mr rr" and "moves g mr rr d d'"
  shows "x \<in> set (mr d) \<Longrightarrow> x \<in> set (mr d')"
    and "ids_unique g (mr d) \<Longrightarrow> ids_unique g (mr d')"
    and "settled g i to (rr d) \<Longrightarrow> settled g i to (rr d')"
    and "y \<in> set (rr d) \<Longrightarrow> \<exists>z \<in> set (rr d'). kept y z"
    and "pairs_unique g (rr d) \<Longrightarrow> pairs_unique g (rr d')"
proof -
  have "(pairs_unique g (snd c) \<longrightarrow> pairs_unique g (snd c')) \<and> (x \<in> set (fst c) \<longrightarrow> x \<in> set (fst c')) \<and> (ids_unique g (fst c) \<longrightarrow> ids_unique g (fst c')) \<and>
      (settled g i to (snd c) \<longrightarrow> settled g i to (snd c')) \<and>
      (y \<in> set (snd c) \<longrightarrow> (\<exists>z \<in> set (snd c'). kept y z))" if "(db_step g)\<^sup>*\<^sup>* c c'" for c c'
    using that
  proof (induction rule: rtranclp_induct)
    case (step c1 c2)
    have "kept u v \<Longrightarrow> kept v w \<Longrightarrow> kept u w" for u v w by (auto simp: kept_def)
    with step step_messages[OF step(2)] step_unique[OF assms(1) step(2)]
      step_settled[OF assms(1) step(2)] step_row[OF step(2)] step_pairs[OF assms(1) step(2)]
    show ?case by blast
  qed (auto simp: kept_def)
  from this[of "(mr d, rr d)" "(mr d', rr d')"] assms(2)
  show "x \<in> set (mr d) \<Longrightarrow> x \<in> set (mr d')" "ids_unique g (mr d) \<Longrightarrow> ids_unique g (mr d')"
    "settled g i to (rr d) \<Longrightarrow> settled g i to (rr d')"
    "y \<in> set (rr d) \<Longrightarrow> \<exists>z \<in> set (rr d'). kept y z" "pairs_unique g (rr d) \<Longrightarrow> pairs_unique g (rr d')"
    by (auto simp: moves_def)
qed

section \<open>What a save leaves in the database\<close>

definition exact_id :: "'d gorm_db \<Rightarrow> string \<Rightarrow> db_recipient list \<Rightarrow> bool" where
  "exact_id g i rs \<longleftrightarrow> (\<forall>x \<in> set rs. coll g (DR_ServerMsgID x) i \<longrightarrow> DR_ServerMsgID x = i)"

definition has_row :: "'d gorm_db \<Rightarrow> string \<Rightarrow> string \<Rightarrow> db_recipient list \<Rightarrow> bool" where
  "has_row g i to rs \<longleftrightarrow> (\<exists>x \<in> set rs. DR_ServerMsgID x = i \<and> coll g (DR_ToUser x) to)"

lemma insert_one:
  assumes "lawful g mr rr" and "exact_id g i (rr d)"
    and "t_create_ignore (recipients_t g) (new_recipient i to) d = (None, d')"
  shows "exact_id g i (rr d') \<and> mr d' = mr d \<and> set (rr d) \<subseteq> set (rr d') \<and> has_row g i to (rr d')"
proof -
  have law: "insert_law (recipients_t g) rr mr (rec_clash g) rec_stored" using assms(1) by (simp add: lawful_def)
  note ins = law[unfolded insert_law_def, rule_format, of d "new_recipient i to", unfolded assms(3)]
  show ?thesis
  proof (cases "\<exists>x \<in> set (rr d). rec_clash g (new_recipient i to) x")
    case True
    then obtain x where "x \<in> set (rr d)" "coll g (DR_ServerMsgID x) i" "coll g (DR_ToUser x) to"
      by (auto simp: rec_clash_def new_recipient_def)
    with True ins assms(2) show ?thesis by (auto simp: same_rows_def exact_id_def has_row_def)
  next
    case False
    then obtain x where "rec_stored (new_recipient i to) x" "rr d' = rr d @ [x]" "mr d' = mr d" using ins by auto
    with assms(2) coll_laws(1)[OF assms(1)] show ?thesis
      by (auto simp: exact_id_def has_row_def rec_stored_def new_recipient_def)
  qed
qed

lemma insert_recipients_rows:
  assumes "lawful (gorm b) mr rr" and "exact_id (gorm b) i (rr d)" and "insert_recipients b i tos d = (None, d')"
  shows "exact_id (gorm b) i (rr d') \<and> mr d' = mr d \<and> set (rr d) \<subseteq> set (rr d') \<and>
    (\<forall>to \<in> set tos. to \<noteq> [] \<longrightarrow> has_row (gorm b) i to (rr d'))"
  using assms(2,3)
proof (induction tos arbitrary: d)
  case (Cons to tos)
  show ?case
  proof (cases "to = []")
    case False
    obtain e d1 where c: "t_create_ignore (recipients_t (gorm b)) (new_recipient i to) d = (e, d1)" by fastforce
    with Cons.prems(2) False have e: "e = None" and rest: "insert_recipients b i tos d1 = (None, d')"
      by (cases e; simp)+
    note one = insert_one[OF assms(1) Cons.prems(1) c[unfolded e]]
    from Cons.IH[OF _ rest] one show ?thesis by (fastforce simp: has_row_def)
  qed (use Cons in simp)
qed simp

lemma save_tx_rows:
  assumes "lawful (gorm b) mr rr" and "save_tx b m rs d = (None, d')"
    and "\<forall>x \<in> set (mr d). \<not> msg_clash (gorm b) (toDBMessage m) x"
    and "exact_id (gorm b) (ServerMsgID m) (rr d)"
  shows "\<exists>row. msg_stored (toDBMessage m) row \<and> row \<in> set (mr d')"
    and "\<forall>to \<in> set rs. to \<noteq> [] \<longrightarrow> has_row (gorm b) (ServerMsgID m) to (rr d')"
proof -
  have tx: "tx_law (gorm b) mr rr" and ins: "insert_law (messages_t (gorm b)) mr rr (msg_clash (gorm b)) msg_stored"
    using assms(1) by (simp_all add: lawful_def)
  obtain e d1 where c: "t_create_ignore (messages_t (gorm b)) (toDBMessage m) d = (e, d1)" by fastforce
  let ?body = "\<lambda>d. case t_create_ignore (messages_t (gorm b)) (toDBMessage m) d of
      (Some e, d') \<Rightarrow> (Some e, d') | (None, d') \<Rightarrow> insert_recipients b (ServerMsgID m) rs d'"
  obtain d2 where body: "?body d = (None, d2)" and same: "same_rows mr rr d2 d'"
    using tx[unfolded tx_law_def, rule_format, of ?body d, unfolded assms(2)[unfolded save_tx_def]]
    by (simp only: prod.case option.case) blast
  have e: "e = None" and rest: "insert_recipients b (ServerMsgID m) rs d1 = (None, d2)"
    using body c by (cases e; simp)+
  obtain row where row: "msg_stored (toDBMessage m) row" "mr d1 = mr d @ [row]" "rr d1 = rr d"
    using ins[unfolded insert_law_def, rule_format, of d "toDBMessage m", unfolded c e] assms(3) by auto
  note rows = insert_recipients_rows[OF assms(1) assms(4)[folded row(3)] rest]
  show "\<exists>row. msg_stored (toDBMessage m) row \<and> row \<in> set (mr d')"
    using row(1,2) rows same by (auto simp: same_rows_def)
  show "\<forall>to \<in> set rs. to \<noteq> [] \<longrightarrow> has_row (gorm b) (ServerMsgID m) to (rr d')"
    using rows same by (simp add: same_rows_def)
qed

section \<open>Restarts\<close>

text \<open>The store of a process that starts on a database, with a cache that holds no list.\<close>

definition cold :: "('d, 'c) backend \<Rightarrow> 'c \<Rightarrow> bool" where
  "cold b c \<longleftrightarrow> (\<forall>k. fst (cache_get_strings b k c) = None)"

lemma cold_get: "cold b c \<Longrightarrow> \<exists>c'. cache_get_strings b k c = (None, c')"
  by (metis cold_def prod.collapse)

lemma restart_recipients:
  assumes "lawful (gorm b) mr rr" and "answers (gorm b) d" and "cold b c"
  shows "set (fst (GetRecipients b r i (NewInMemoryStore True d c))) =
    DR_ToUser ` {x \<in> set (rr d). coll (gorm b) (DR_ServerMsgID x) i \<and> DR_Status x = 0}"
proof -
  let ?w = "\<lambda>row. coll (gorm b) (DR_ServerMsgID row) i \<and> DR_Status row = 0"
  obtain c' where c': "cache_get_strings b (RecipientsKey i) c = (None, c')" using cold_get[OF assms(3)] by blast
  obtain rows d' where q: "t_find (recipients_t (gorm b)) ?w Unordered None None d = (Inr rows, d')"
    using assms(2) unfolding answers_def by (metis prod.collapse)
  have "find_law (recipients_t (gorm b)) rr" using assms(1) by (simp add: lawful_def)
  then have "set rows = set (filter ?w (rr d))"
    using q unfolding find_law_def by (metis (no_types, lifting) fst_conv option.simps(4))
  then show ?thesis
    by (simp add: GetRecipients_def NewInMemoryStore_def mem_recipients_def c' q Let_def)
qed

lemma fst_save_rows: "fst (save_rows b rows s) = map DR_ServerMsgID rows"
  by (induction rows arbitrary: s) (simp_all add: case_prod_beta)

lemma restart_recover:
  assumes "lawful (gorm b) mr rr" and "answers (gorm b) d" and "cold b c" and "0 < n"
    and "int (length (filter (\<lambda>x. DR_Status x = 0) (rr d))) \<le> n"
  shows "set (fst (RecoverPendingServerMsgIDs b r n (NewInMemoryStore True d c))) =
    DR_ServerMsgID ` {x \<in> set (rr d). DR_Status x = 0} - {[]}"
proof -
  let ?w = "\<lambda>row. DR_Status row = 0" and ?ord = "Asc (\<lambda>row. int (DR_ID row))"
  obtain c' where c': "cache_get_strings b PendingRecoverKey c = (None, c')" using cold_get[OF assms(3)] by blast
  obtain rows d' where q: "t_find (recipients_t (gorm b)) ?w ?ord (limit_clause n) None d = (Inr rows, d')"
    using assms(2) unfolding answers_def by (metis prod.collapse)
  have law: "find_law (recipients_t (gorm b)) rr" using assms(1) by (simp add: lawful_def)
  have "length (filter ?w (rr d)) \<le> nat n" using assms(5) by simp
  then have "set rows = set (filter ?w (rr d))"
    using law[unfolded find_law_def, rule_format, of ?w ?ord "limit_clause n" d rows] q assms(4)
    by (simp add: limit_clause_def)
  then show ?thesis
    by (simp add: RecoverPendingServerMsgIDs_def NewInMemoryStore_def c' scan_rows_def q case_prod_beta
        fst_save_rows)
qed

text \<open>A scan without a cached list finds the rows that satisfy its condition, up to its limit.\<close>

lemma scan_finds:
  assumes "lawful (gorm b) mr rr" and "answers (gorm b) (db s)" and "0 < n"
    and "int (length (filter w (rr (db s)))) \<le> n"
  shows "set (fst (scan_rows b key w ord n s)) = DR_ServerMsgID ` {x \<in> set (rr (db s)). w x} - {[]}"
    and "distinct (fst (scan_rows b key w ord n s))"
proof -
  obtain rows d' where q: "t_find (recipients_t (gorm b)) w ord (limit_clause n) None (db s) = (Inr rows, d')"
    using assms(2) unfolding answers_def by (metis prod.collapse)
  have law: "find_law (recipients_t (gorm b)) rr" using assms(1) by (simp add: lawful_def)
  have "length (filter w (rr (db s))) \<le> nat n" using assms(4) by simp
  then have "set rows = set (filter w (rr (db s)))"
    using law[unfolded find_law_def, rule_format, of w ord "limit_clause n" "db s" rows] q assms(3)
    by (simp add: limit_clause_def)
  then show "set (fst (scan_rows b key w ord n s)) = DR_ServerMsgID ` {x \<in> set (rr (db s)). w x} - {[]}"
    and "distinct (fst (scan_rows b key w ord n s))"
    by (simp_all add: scan_rows_def q case_prod_beta fst_save_rows)
qed

text \<open>
  What has been saved survives: after a successful save of a message with a new server id and a
  new pair of sender and client id, and after any changes to the tables since, a process restarted
  on the database finds the message under its id, with all fields the wire format delivers; and
  every recipient has a row which, as long as it is pending, makes the recipient one of those the
  restarted store returns.
\<close>

lemma saved_rows_survive:
  assumes law: "lawful (gorm b) mr rr" and "persistent s"
    and save: "SaveMessageWithRecipients b (Some m) rs s = (None, s1)"
    and new: "\<forall>x \<in> set (mr (db s)). \<not> msg_clash (gorm b) (toDBMessage m) x"
      "\<forall>x \<in> set (rr (db s)). \<not> coll (gorm b) (DR_ServerMsgID x) (ServerMsgID m)"
    and "ids_unique (gorm b) (mr (db s))"
    and run: "moves (gorm b) mr rr (db s1) d2" and up: "answers (gorm b) d2" "cold b c"
  shows "(\<exists>t. fst (GetMessageByServerID b (ServerMsgID m) (NewInMemoryStore True d2 c)) =
      Some (m\<lparr>Type := TypeDeliver, Status := 0, Ts := t\<rparr>)) \<and> ServerMsgID m \<noteq> [] \<and>
    (\<forall>to \<in> set rs. to \<noteq> [] \<longrightarrow> (\<exists>row \<in> set (rr d2). DR_ServerMsgID row = ServerMsgID m \<and>
      coll (gorm b) (DR_ToUser row) to \<and> (DR_Status row = 0 \<longrightarrow>
        DR_ToUser row \<in> set (fst (GetRecipients b r (ServerMsgID m) (NewInMemoryStore True d2 c))))))"
proof -
  let ?i = "ServerMsgID m"
  obtain d where tx: "save_tx b m rs (db s) = (None, d)" and d: "db s1 = d" and i: "?i \<noteq> []"
    using save assms(2) by (auto simp: SaveMessageWithRecipients_def Let_def split: if_splits prod.splits option.splits)
  have "exact_id (gorm b) ?i (rr (db s))" using new(2) by (auto simp: exact_id_def)
  note rows = save_tx_rows[OF law tx new(1) this, folded d]
  note keep = moves_keep[OF law run]
  have u1: "ids_unique (gorm b) (mr (db s1))"
    using moves_keep(2)[OF law moves_Save[OF law, of s "Some m" rs]] assms(6) by (simp add: save)
  obtain row where row: "msg_stored (toDBMessage m) row" "row \<in> set (mr d2)"
    using rows(1) keep(1) by blast
  have id: "DM_ServerMsgID row = ?i" using row(1) by (auto simp: msg_stored_def toDBMessage_def)
  let ?w = "\<lambda>x :: db_message. coll (gorm b) (DM_ServerMsgID x) ?i"
  have take: "take_law (messages_t (gorm b)) mr" using law by (simp add: lawful_def)
  obtain res d' where q: "t_take (messages_t (gorm b)) ?w d2 = (res, d')" by fastforce
  have "res = Inr row"
  proof (cases res)
    case (Inl e)
    then have "e = ErrRecordNotFound" using up(1) q unfolding answers_def by (metis db_error.exhaust fst_conv)
    with Inl q take[unfolded take_law_def, rule_format, where w = ?w and d = d2] row(2) id coll_laws(1)[OF law]
    show ?thesis by auto
  next
    case (Inr x)
    with q take[unfolded take_law_def, rule_format, where w = ?w and d = d2] have x: "x \<in> set (mr d2)" "?w x"
      by simp_all
    with keep(2)[OF u1] row(2) id Inr show ?thesis by (auto simp: ids_unique_def)
  qed
  then have "fst (GetMessageByServerID b ?i (NewInMemoryStore True d2 c)) = Some (fromDBMessage row)"
    using i q by (simp add: GetMessageByServerID_def NewInMemoryStore_def Let_def)
  moreover obtain n t where "row = (toDBMessage m)\<lparr>DM_ID := n, DM_CreateTime := t\<rparr>"
    using row(1) by (auto simp: msg_stored_def)
  ultimately have found: "\<exists>t. fst (GetMessageByServerID b ?i (NewInMemoryStore True d2 c)) =
      Some (m\<lparr>Type := TypeDeliver, Status := 0, Ts := t\<rparr>)"
    by (auto simp: fromDB_toDB)
  have "\<exists>y \<in> set (rr d2). DR_ServerMsgID y = ?i \<and> coll (gorm b) (DR_ToUser y) to \<and>
      (DR_Status y = 0 \<longrightarrow> DR_ToUser y \<in> set (fst (GetRecipients b r ?i (NewInMemoryStore True d2 c))))"
    if "to \<in> set rs" "to \<noteq> []" for to
  proof -
    obtain x where x: "x \<in> set (rr (db s1))" "DR_ServerMsgID x = ?i" "coll (gorm b) (DR_ToUser x) to"
      using rows(2) \<open>to \<in> set rs\<close> \<open>to \<noteq> []\<close> by (auto simp: has_row_def)
    then obtain y where y: "y \<in> set (rr d2)" "kept x y" using keep(4) by blast
    then have y': "DR_ServerMsgID y = ?i" "coll (gorm b) (DR_ToUser y) to" using x by (simp_all add: kept_def)
    with y(1) show ?thesis
      using restart_recipients[OF law up, of r ?i] coll_laws(1)[OF law] by (intro bexI[of _ y]) auto
  qed
  with found i show ?thesis by blast
qed

section \<open>Settled deliveries\<close>

lemma update_settles:
  assumes "lawful (gorm b) mr rr" and "update_recipients b w f s = (None, s')"
    and "\<exists>x \<in> set (rr (db s)). pair_row (gorm b) i to x"
    and "\<And>x. DR_ServerMsgID (f x) = DR_ServerMsgID x \<and> DR_ToUser (f x) = DR_ToUser x \<and> 1 \<le> DR_Status (f x)"
    and "\<And>x. x \<in> set (rr (db s)) \<Longrightarrow> pair_row (gorm b) i to x \<Longrightarrow> w x"
  shows "settled (gorm b) i to (rr (db s'))"
proof -
  obtain res d' where u: "t_update (recipients_t (gorm b)) w f (db s) = (res, d')" by fastforce
  then obtain n where res: "res = Inr n" and d': "db s' = d'"
    using assms(2) by (cases res) (auto simp: update_recipients_def)
  have law: "update_law (recipients_t (gorm b)) rr mr" using assms(1) by (simp add: lawful_def)
  have "list_all2 (\<lambda>x y. if w x then written (f x) y else y = x)
      (rr (db s)) (rr d')"
    using law[unfolded update_law_def, rule_format, of "db s" w f] u res by simp
  then have "(\<forall>x \<in> set (rr (db s)). pair_row (gorm b) i to x \<longrightarrow> w x) \<longrightarrow>
      (\<forall>y \<in> set (rr d'). pair_row (gorm b) i to y \<longrightarrow> 1 \<le> DR_Status y) \<and>
      ((\<exists>x \<in> set (rr (db s)). pair_row (gorm b) i to x) \<longrightarrow> (\<exists>y \<in> set (rr d'). pair_row (gorm b) i to y))"
  proof (induction rule: list_all2_induct)
    case (Cons x xs y ys)
    have "pair_row (gorm b) i to y = pair_row (gorm b) i to x \<and> (w x \<longrightarrow> 1 \<le> DR_Status y)"
      using Cons(1) assms(4)[of x] by (auto simp: pair_row_def written_def split: if_splits)
    with Cons show ?case by auto
  qed simp
  with assms(3,5) show ?thesis by (auto simp: settled_def d')
qed

lemma settled_not_returned:
  assumes "lawful (gorm b) mr rr" and "settled (gorm b) i to (rr d)" and "answers (gorm b) d" and "cold b c"
    and "u \<in> set (fst (GetRecipients b r i (NewInMemoryStore True d c)))"
  shows "\<not> coll (gorm b) u to"
  using assms(2,5) unfolding restart_recipients[OF assms(1,3,4)] by (auto simp: settled_def pair_row_def)

text \<open>A stored acknowledgement, and a buried row, settle the pair; and so it stays.\<close>

lemma ack_settles:
  assumes law: "lawful (gorm b) mr rr" and "persistent s" and "\<exists>x \<in> set (rr (db s)). pair_row (gorm b) i to x"
    and ack: "MarkDeliveryAcked b r i to s = (None, s1)"
  shows "settled (gorm b) i to (rr (db s1))"
proof -
  let ?s = "mod_entry i to (\<lambda>e. e\<lparr>Acked := True\<rparr>) s"
  let ?f = "\<lambda>row. row\<lparr>DR_Status := (if DR_Status row < 1 then 1 else DR_Status row), DR_AckedAt := Some (clk r 0)\<rparr>"
  obtain s' where u: "update_recipients b (row_is b i to) ?f ?s = (None, s')" and db: "db s1 = db s'"
    using ack assms(2) by (auto simp: MarkDeliveryAcked_def Let_def mod_entry_def split: prod.splits option.splits)
  have "settled (gorm b) i to (rr (db s'))" by (rule update_settles[OF law u]) (use assms(3) in \<open>simp_all add: pair_row_def row_is_def\<close>)
  then show ?thesis by (simp add: db)
qed

lemma row_burial_settles:
  assumes law: "lawful (gorm b) mr rr" and uniq: "pairs_unique (gorm b) (rr (db s))"
    and some_row: "\<exists>x \<in> set (rr (db s)). pair_row (gorm b) i to x"
    and fail: "schedule_row b i to t mx base now s = ((True, None), s1)"
  shows "settled (gorm b) i to (rr (db s1))"
proof -
  obtain res d where q: "t_take (recipients_t (gorm b)) (row_is b i to) (db s) = (res, d)" by fastforce
  then obtain row where res: "res = Inr row" using fail by (cases res) (auto simp: schedule_row_def)
  let ?w = "\<lambda>row'. DR_ID row' = DR_ID row"
  obtain s3 where u: "bury_rows b ?w (DR_RetryCount row + 1) t (s\<lparr>db := d\<rparr>) = (None, s3)" and db: "db s1 = db s3"
    using fail by (auto simp: schedule_row_def q res Let_def split: if_splits prod.splits option.splits)
  have "take_law (recipients_t (gorm b)) rr" using law by (simp add: lawful_def)
  from this[unfolded take_law_def, rule_format, where w = "row_is b i to" and d = "db s"]
  have row: "row \<in> set (rr (db s))" "pair_row (gorm b) i to row"
    by (simp_all add: q res row_is_def pair_row_def)
  have "read_law (recipients_t (gorm b)) mr rr" using law by (simp add: lawful_def)
  then have same: "rr d = rr (db s)" using q unfolding read_law_def same_rows_def by (metis snd_conv)
  have "settled (gorm b) i to (rr (db s3))"
    using u unfolding bury_rows_def
  proof (rule update_settles[OF law])
    fix x assume "x \<in> set (rr (db (s\<lparr>db := d\<rparr>)))" "pair_row (gorm b) i to x"
    then show "DR_ID x = DR_ID row" using pairs_unique_eq[OF law uniq _ row(1) _ row(2)] by (auto simp: same)
  qed (use some_row in \<open>simp_all add: same\<close>)
  then show ?thesis by (simp add: db)
qed

lemma burial_settles:
  assumes law: "lawful (gorm b) mr rr" and "persistent s" and uniq: "pairs_unique (gorm b) (rr (db s))"
    and some_row: "\<exists>x \<in> set (rr (db s)). pair_row (gorm b) i to x"
    and fail: "ScheduleRetry b r i to err mx base s = ((True, None), s1)"
  shows "settled (gorm b) i to (rr (db s1))"
proof -
  let ?t = "case err of None \<Rightarrow> ''delivery failed'' | Some t \<Rightarrow> t"
  let ?k = "case find_entry s i to of None \<Rightarrow> 0 | Some e \<Rightarrow> Retry e + 1"
  let ?mx = "if mx \<le> 0 then 5 else mx" and ?base = "if base \<le> 0 then 2 * second else base"
  have ne: "i \<noteq> []" "to \<noteq> []" using fail by (auto simp: ScheduleRetry_def split: if_splits)
  show ?thesis
  proof (cases "find_entry s i to \<noteq> None \<and> ?mx \<le> ?k")
    case True
    let ?s = "mod_entry i to (\<lambda>x. x\<lparr>Retry := ?k, LastError := ?t, Dead := True\<rparr>) s"
    obtain s' where u: "bury_rows b (row_is b i to) ?k ?t ?s = (None, s')" and db: "db s1 = db s'"
      using fail assms(2) True ne
      by (auto simp: ScheduleRetry_def Let_def mod_entry_def split: prod.splits option.splits)
    have "settled (gorm b) i to (rr (db s'))"
      using u unfolding bury_rows_def
      by (rule update_settles[OF law]) (use some_row in \<open>simp_all add: pair_row_def row_is_def\<close>)
    then show ?thesis by (simp add: db)
  next
    case False
    let ?s = "mod_entry i to (\<lambda>e. e\<lparr>Retry := ?k, LastError := ?t, NextRetryAt := unix (clk r 0 + backoff ?base ?k)\<rparr>) s"
    have "schedule_row b i to ?t ?mx ?base (clk r 0) ?s = ((True, None), s1)"
      using fail assms(2) False ne unfolding ScheduleRetry_def Let_def
      by (simp add: mod_entry_def split: option.splits if_splits)
    then show ?thesis
      by (rule row_burial_settles[OF law _ _, rotated 2]) (use uniq some_row in simp_all)
  qed
qed

lemma settled_not_listed:
  assumes law: "lawful (gorm b) mr rr" and over: "settled (gorm b) i to (rr (db s))"
    and "fst (cache_get_strings b (PendingUserKey to) (cache s)) = None" and "persistent s" and "to \<noteq> []"
  shows "i \<notin> set (fst (ListPendingServerMsgIDsByUser b r to n s))"
proof -
  let ?w = "\<lambda>row. coll (gorm b) (DR_ToUser row) to \<and> DR_Status row = 0" and ?ord = "Asc (\<lambda>row. int (DR_ID row))"
  obtain c' where c': "cache_get_strings b (PendingUserKey to) (cache s) = (None, c')"
    using assms(3) by (metis prod.collapse)
  obtain res d' where q: "t_find (recipients_t (gorm b)) ?w ?ord (limit_clause n) None (db s) = (res, d')"
    by fastforce
  have find: "find_law (recipients_t (gorm b)) rr" using law by (simp add: lawful_def)
  show ?thesis
  proof (cases res)
    case (Inr rows)
    then have "set rows \<subseteq> set (filter ?w (rr (db s)))"
      using q find unfolding find_law_def by (metis (no_types, lifting) fst_conv)
    then have "i \<notin> DR_ServerMsgID ` set rows"
      using over coll_laws(1)[OF law] by (force simp: settled_def pair_row_def)
    then show ?thesis
      using assms(4,5) q Inr
      by (simp add: ListPendingServerMsgIDsByUser_def c' scan_rows_def case_prod_beta fst_save_rows)
  qed (use assms(4,5) q in \<open>simp add: ListPendingServerMsgIDsByUser_def c' scan_rows_def\<close>)
qed

section \<open>The laws hold of the sample backend\<close>

lemma list_update_rel:
  "list_all2 (\<lambda>x y. if w x then written (f x) y else y = x) xs
     (map (\<lambda>x. if w x then f x else x) xs)"
  by (induction xs) (auto simp: written_def)

lemma list_table_insert:
  assumes "\<And>d xs. rows (put xs d) = xs" and "\<And>d xs. other (put xs d) = other d"
    and "\<And>x y. clash x y = key x y" and "\<And>i x. stored x (set_id i x)"
  shows "insert_law (list_table rows put clash set_id) rows other key stored"
  using assms by (auto simp: insert_law_def list_table_def Let_def list_ex_iff same_rows_def)

definition ordered :: "'r order \<Rightarrow> 'r list \<Rightarrow> 'r list" where
  "ordered ord xs = (case ord of Unordered \<Rightarrow> xs | Asc k \<Rightarrow> sort_key k xs | Desc k \<Rightarrow> sort_key (\<lambda>x. - k x) xs)"

lemma set_ordered [simp]: "set (ordered ord xs) = set xs" "length (ordered ord xs) = length xs"
  by (cases ord; simp add: ordered_def)+

lemma list_table_t_find: "t_find (list_table rows put clash set_id) w ord lim None d =
    (Inr (case lim of None \<Rightarrow> ordered ord (filter w (rows d)) | Some n \<Rightarrow> take n (ordered ord (filter w (rows d)))), d)"
  unfolding list_table_def Let_def table.select_convs option.case ordered_def by (rule refl)

lemma list_table_find: "find_law (list_table rows put clash set_id) rows"
  unfolding find_law_def list_table_t_find fst_conv sum.inject
  by (auto simp: set_take_subset simp del: set_filter split: option.splits dest: in_set_takeD)

lemma list_table_t_take: "t_take (list_table rows put clash set_id) w d =
    (case filter w (rows d) of [] \<Rightarrow> Inl ErrRecordNotFound | x # _ \<Rightarrow> Inr x, d)"
  unfolding list_table_def Let_def table.select_convs by (rule refl)

lemma list_table_take: "take_law (list_table rows put clash set_id) rows"
  unfolding take_law_def list_table_t_take fst_conv
proof (intro allI)
  fix w d
  show "case case filter w (rows d) of [] \<Rightarrow> Inl ErrRecordNotFound | x # _ \<Rightarrow> Inr x of
      Inr x \<Rightarrow> x \<in> set (rows d) \<and> w x
    | Inl ErrRecordNotFound \<Rightarrow> \<forall>x \<in> set (rows d). \<not> w x | Inl (DBError _) \<Rightarrow> True"
  proof (cases "filter w (rows d)")
    case (Cons x xs)
    then have "x \<in> set (filter w (rows d))" by (simp only: list.set_intros)
    then have "x \<in> set (rows d) \<and> w x" by simp
    then show ?thesis unfolding Cons by simp
  qed (simp add: filter_empty_conv)
qed

lemma list_table_reads:
  "read_law (list_table rows put clash set_id) mr rr"
  by (simp add: read_law_def list_table_def Let_def same_rows_def)

lemma lawful_sample: "lawful sample_db msg_rows recip_rows"
  unfolding lawful_def
proof (intro conjI)
  have "x\<lparr>DM_ID := i\<rparr> = x\<lparr>DM_ID := i, DM_CreateTime := DM_CreateTime x\<rparr>" for i and x :: db_message by simp
  then have msg: "msg_stored x (x\<lparr>DM_ID := i\<rparr>)" for i x unfolding msg_stored_def by blast
  have "x\<lparr>DR_ID := i\<rparr> = x\<lparr>DR_ID := i, DR_CreateTime := DR_CreateTime x, DR_UpdateTime := DR_UpdateTime x\<rparr>"
    for i and x :: db_recipient by simp
  then have rec: "rec_stored x (x\<lparr>DR_ID := i\<rparr>)" for i x unfolding rec_stored_def by blast
  show "insert_law (messages_t sample_db) msg_rows recip_rows (msg_clash sample_db) msg_stored"
    unfolding sample_db_def gorm_db.simps
    by (rule list_table_insert) (auto simp: msg_clash_def msg)
  show "insert_law (recipients_t sample_db) recip_rows msg_rows (rec_clash sample_db) rec_stored"
    unfolding sample_db_def gorm_db.simps
    by (rule list_table_insert) (auto simp: rec_clash_def rec)
  show "update_law (recipients_t sample_db) recip_rows msg_rows"
    by (simp add: update_law_def sample_db_def list_table_def Let_def list_update_rel)
  show "tx_law sample_db msg_rows recip_rows"
    by (auto simp: tx_law_def sample_db_def same_rows_def split: prod.splits option.splits)
  show "equivp (coll sample_db)" by (simp add: sample_db_def identity_equivp)
qed (simp_all add: sample_db_def list_table_reads list_table_find list_table_take same_rows_def)

section \<open>Instances\<close>

lemma lawful_backend: "lawful (gorm sample_backend) msg_rows recip_rows"
  using lawful_sample by (simp add: sample_backend_def)

lemma answers_sample: "answers (gorm sample_backend) d"
proof -
  have "\<exists>rows. fst (t_find (recipients_t sample_db) w ord lim off d) = Inr rows" for w ord lim off
    by (simp only: sample_db_def list_table_def Let_def gorm_db.select_convs table.select_convs fst_conv) blast
  moreover have "fst (t_take (messages_t sample_db) w d) \<noteq> Inl (DBError e)" for w e
    by (simp add: sample_db_def list_table_t_take split: list.split)
  ultimately show ?thesis by (simp add: answers_def sample_backend_def)
qed

lemma cold_sample: "cold sample_backend []"
  by (simp add: cold_def cache_get_strings_def sample_backend_def sample_redis_def)

definition saved_msg :: Message where
  "saved_msg = zero_Message\<lparr>ServerMsgID := ''s-1'', From := ''ann'', To := ''bob'', ClientMsgID := ''c-1''\<rparr>"

definition saved :: "(tables, (string \<times> string) list) store" where
  "saved = snd (SaveMessageWithRecipients sample_backend (Some saved_msg) [''bob''] (NewInMemoryStore True no_tables []))"

lemma saved_ok: "SaveMessageWithRecipients sample_backend (Some saved_msg) [''bob'']
    (NewInMemoryStore True no_tables []) = (None, saved)"
proof -
  have "fst (SaveMessageWithRecipients sample_backend (Some saved_msg) [''bob''] 
     (NewInMemoryStore True no_tables [] :: (tables, (string \<times> string) list) store)) = None"
    by code_simp
  then show ?thesis by (simp add: saved_def prod_eq_iff)
qed

lemma saved_rows: "recip_rows (db saved) = [(new_recipient ''s-1'' ''bob'')\<lparr>DR_ID := 1\<rparr>]"
  by code_simp

lemma saved_state: "persistent saved" "find_entry saved ''s-1'' ''bob'' = Some (new_entry ''bob'')"
  by code_simp+

end
