(* ===== verification/Crash_Recovery.thy ===== *)
theory Crash_Recovery
  imports Lifetimes Store_Database Logout_Props
begin

text \<open>
  The process and its database over crashes: the laws of \<open>Store_Database\<close> carried through every
  event and every restart.
\<close>

section \<open>Every event is a change of the tables\<close>

text \<open>Queries on the table of accounts leave the two other tables alone.\<close>

definition accounts_law :: "'d gorm_db \<Rightarrow> ('d \<Rightarrow> 'a) \<Rightarrow> ('d \<Rightarrow> 'b) \<Rightarrow> bool" where
  "accounts_law g mr rr \<longleftrightarrow> (\<forall>d row w f. same_rows mr rr d (snd (t_create (users_t g) row d)) \<and>
     same_rows mr rr d (snd (t_first (users_t g) w d)) \<and> same_rows mr rr d (snd (t_update (users_t g) w f d)))"

interpretation moved: kept_store "InMemoryStore b"
  "\<lambda>s. lawful (gorm b) mr rr \<longrightarrow> moves (gorm b) mr rr d (db s)" for b mr rr d
proof
  fix s :: "('a, 'b) store" and x
  assume "lawful (gorm b) mr rr \<longrightarrow> moves (gorm b) mr rr d (db s)"
  then show "lawful (gorm b) mr rr \<longrightarrow> moves (gorm b) mr rr d (db (call_store (InMemoryStore b) x s))"
    using moves_exec[of b mr rr s "fst x" "snd x"] by (auto simp: call_InMemoryStore intro: moves_trans)
qed

lemma touch_moves:
  assumes "lawful (gorm b) mr rr" and "accounts_law (gorm b) mr rr" and "touch b s s'"
  shows "moves (gorm b) mr rr (db s) (db s')"
  using assms(3) by (induction rule: touch.induct)
    (use assms(1,2) in \<open>auto simp: accounts_law_def moved.wf_plain moved.wf_send moved.wf_event
      intro: moves_same[OF moves_refl]\<close>)

interpretation tables: durable b
  "\<lambda>s. lawful (gorm b) mr rr \<and> accounts_law (gorm b) mr rr \<longrightarrow> moves (gorm b) mr rr d (db s)" for b mr rr d
  by unfold_locales (auto simp: NewInMemoryStore_def intro: moves_trans touch_moves)

text \<open>From any state to a later one, and from the first start to any state.\<close>

lemma later_moves:
  assumes "lawful (gorm b) mr rr" and "accounts_law (gorm b) mr rr" and "later b y y'"
  shows "moves (gorm b) mr rr (db (store_of y)) (db (store_of y'))"
  using tables.later_keeps[OF assms(3), of mr rr "db (store_of y)"] assms(1,2) by simp

lemma lives_moves:
  assumes "lawful (gorm b) mr rr" and "accounts_law (gorm b) mr rr" and "lives b d y"
  shows "moves (gorm b) mr rr d (db (store_of y))" "persistent (store_of y)"
  using tables.lives_keep[OF assms(3), of mr rr d] on_db.lives_keep[OF assms(3)] assms(1,2)
  by (simp_all add: NewInMemoryStore_def)

section \<open>An accepted message\<close>

text \<open>The two lookups of a send read only; then a successful one saves.\<close>

lemma lookups_same_rows:
  assumes "lawful (gorm b) mr rr"
  shows "same_rows mr rr (db s) (db (snd (NextSeq b c s)))"
    and "same_rows mr rr (db s) (db (snd (GetMessageByClientID b f k s)))"
proof -
  have "read_law (messages_t (gorm b)) mr rr" and seq: "same_rows mr rr d (snd (max_seq (gorm b) w d))" for w d
    using assms by (simp_all add: lawful_def)
  then have take: "same_rows mr rr d (snd (t_take (messages_t (gorm b)) w d))" for w d
    by (simp add: read_law_def)
  show "same_rows mr rr (db s) (db (snd (NextSeq b c s)))"
    using seq by (auto simp: NextSeq_def Let_def same_rows_def case_prod_beta split: sum.split)
  show "same_rows mr rr (db s) (db (snd (GetMessageByClientID b f k s)))"
    using take by (auto simp: GetMessageByClientID_def Let_def same_rows_def case_prod_beta
        split: sum.split option.split)
qed

lemma same_rows_trans: "same_rows mr rr d1 d2 \<Longrightarrow> same_rows mr rr d2 d3 \<Longrightarrow> same_rows mr rr d1 d3"
  by (simp add: same_rows_def)

lemma commit_saves:
  assumes "send_commit (InMemoryStore b) r q rs l = (Saved m, l')"
  shows "SaveMessageWithRecipients b (Some m) rs (snd (NextSeq b (chat_of q) (l_store l))) = (None, l_store l')"
proof -
  obtain n s1 where s1: "i_NextSeq (InMemoryStore b) (chat_of q) (l_store l) = (n, s1)" by fastforce
  obtain i l1 where l1: "GenerateServerMsgID (clk r 1) ''s'' (l\<lparr>l_store := s1\<rparr>) = (i, l1)" by fastforce
  have "l_store l1 = s1" using Generate_frame(1)[of "clk r 1" "''s''" "l\<lparr>l_store := s1\<rparr>"] l1
    by (simp del: One_nat_def)
  with assms s1 l1 show ?thesis
    by (auto simp: send_commit_def Let_def InMemoryStore_def split: prod.splits option.splits)
qed

lemma send_saves:
  assumes "lawful (gorm b) mr rr" and "send b r req rs y = (Saved m, y1)"
  shows "\<exists>s. same_rows mr rr (db (store_of y)) (db s) \<and> persistent s = persistent (store_of y) \<and>
    SaveMessageWithRecipients b (Some m) rs s = (None, store_of y1)"
proof -
  obtain l where ps: "ProcessSend (InMemoryStore b) r (Some req) rs (logic (im_srv y)) = (Saved m, l)"
    and y1: "store_of y1 = l_store l"
    using assms(2) by (auto simp: send_def srv_ProcessSend_def split: prod.splits)
  obtain res l1 where c: "send_check (InMemoryStore b) r (Some req) (logic (im_srv y)) = (res, l1)" by fastforce
  have "res \<noteq> Inl (Saved m)"
    using c by (auto simp: send_check_def Let_def split: if_splits prod.splits option.splits)
  then obtain q where q: "res = Inr q" "send_commit (InMemoryStore b) r q rs l1 = (Saved m, l)"
    using ps c by (cases res) (auto simp: ProcessSend_def)
  obtain f k where l1: "l_store l1 = snd (GetMessageByClientID b f k (store_of y))"
    using c q(1) by (auto simp: send_check_def Let_def InMemoryStore_def split: if_splits prod.splits option.splits
        dest!: arg_cong[of _ _ snd])
  let ?s = "snd (NextSeq b (chat_of q) (l_store l1))"
  have "same_rows mr rr (db (store_of y)) (db ?s)"
    unfolding l1 by (rule same_rows_trans[OF lookups_same_rows(2,1)[OF assms(1)]])
  moreover have "persistent ?s = persistent (store_of y)"
    using persistent_exec[of b r "OpByClient f k" "store_of y"] NextSeq_frame[of b "chat_of q" "l_store l1"] l1
    by simp
  moreover have "SaveMessageWithRecipients b (Some m) rs ?s = (None, store_of y1)"
    using commit_saves[OF q(2)] y1 by simp
  ultimately show ?thesis by blast
qed

text \<open>The queue of a process that has just started.\<close>

lemma boot_queue:
  assumes "lawful (gorm b) mr rr" and "answers (gorm b) d" and "cold b c"
    and few: "length (filter (\<lambda>x. DR_Status x = 0) (rr d)) \<le> queue_cap"
  shows "\<exists>w. srv_worker (im_srv (boot e True d c now b r)) = Some w \<and>
    set (pipeline w) = DR_ServerMsgID ` {x \<in> set (rr d). DR_Status x = 0} - {[]}"
proof -
  let ?ids = "fst (RecoverPendingServerMsgIDs b r 2000 (NewInMemoryStore True d c))"
  let ?w = "enqueue_all ?ids NewWorker"
  have ids: "set ?ids = DR_ServerMsgID ` {x \<in> set (rr d). DR_Status x = 0} - {[]}"
    by (rule restart_recover[OF assms(1-3)]) (use few in \<open>simp_all add: queue_cap_def\<close>)
  have "distinct ?ids"
    by (auto simp: RecoverPendingServerMsgIDs_def scan_rows_def case_prod_beta split: option.split sum.split)
  then have "length ?ids = card (set ?ids)" by (rule distinct_card[symmetric])
  also have "\<dots> \<le> card (DR_ServerMsgID ` set (filter (\<lambda>x. DR_Status x = 0) (rr d)))"
    unfolding ids by (rule card_mono) auto
  also have "\<dots> \<le> length (filter (\<lambda>x. DR_Status x = 0) (rr d))"
    by (rule le_trans[OF card_image_le card_length]) simp
  finally have room: "length (deliverQueue NewWorker) + length ?ids \<le> queue_cap"
    using few by (simp add: NewWorker_def)
  have w: "srv_worker (im_srv (boot e True d c now b r)) = Some ?w"
    by (simp add: boot_def Start_def SetWorker_def NewServer_def newLogicService_def case_prod_beta
        RecoverPendingDeliveries_def set_store_def InMemoryStore_def)
  then have "queue_inv ?w" using sys_inv_boot[of e True d c now b r] by (simp add: sys_inv_def srv_ok_def)
  then have "set (pipeline ?w) = in_flight ?w" by (simp add: queue_inv_def in_flight_def del: set_map)
  also have "\<dots> = set ?ids - {[]}"
    using enqueue_all_room[OF room] by (simp add: in_flight_def NewWorker_def)
  finally show ?thesis using w ids by simp
qed

section \<open>Properties\<close>

text \<open>
  C19: an accepted message survives crashes. In a process on a lawful database, once the server has
  accepted a message with an id that no row has and a new pair of sender and client id, the program may go on
  in any way, crash and be restarted any number of times, and stop at any point. A process started
  on the tables as they then are finds the
  message under its id, with all fields the wire format delivers; every recipient has a row, and
  as long as that is pending, the recipient is one of those the store returns for the message, and
  the message is in the delivery queue when the process has started. It is asked that the process
  starts with a cache that holds no lists and a database that answers, and that at most 1024
  rows, the capacity of the queue, are pending in the table.
\<close>

theorem accepted_survives_crash:
  assumes laws: "lawful (gorm b) mr rr" "accounts_law (gorm b) mr rr"
    and reach: "lives b d0 y" and uniq: "ids_unique (gorm b) (mr d0)"
    and sent: "send b r req rs y = (Saved m, y1)"
    and new: "\<forall>x \<in> set (mr (db (store_of y))). \<not> msg_clash (gorm b) (toDBMessage m) x"
      "\<forall>x \<in> set (rr (db (store_of y))). \<not> coll (gorm b) (DR_ServerMsgID x) (ServerMsgID m)"
    and run: "later b y1 y2" and d_def: "d = db (store_of y2)"
    and up: "answers (gorm b) d" "cold b c"
    and few: "length (filter (\<lambda>x. DR_Status x = 0) (rr d)) \<le> queue_cap"
  shows "(\<exists>t. fst (GetMessageByServerID b (ServerMsgID m) (NewInMemoryStore True d c)) =
      Some (m\<lparr>Type := TypeDeliver, Status := 0, Ts := t\<rparr>)) \<and>
    (\<forall>to \<in> set rs. to \<noteq> [] \<longrightarrow> (\<exists>row \<in> set (rr d). DR_ServerMsgID row = ServerMsgID m \<and>
      coll (gorm b) (DR_ToUser row) to \<and> (DR_Status row = 0 \<longrightarrow>
        DR_ToUser row \<in> set (fst (GetRecipients b r' (ServerMsgID m) (NewInMemoryStore True d c))) \<and>
        (\<exists>w. srv_worker (im_srv (boot e True d c now b r')) = Some w \<and> ServerMsgID m \<in> set (pipeline w)))))"
proof -
  obtain s where s: "same_rows mr rr (db (store_of y)) (db s)" "persistent s = persistent (store_of y)"
    "SaveMessageWithRecipients b (Some m) rs s = (None, store_of y1)"
    using send_saves[OF laws(1) sent] by blast
  note start = lives_moves[OF laws reach]
  have u: "ids_unique (gorm b) (mr (db s))"
    using moves_keep(2)[OF laws(1) start(1) uniq] s(1) by (simp add: same_rows_def)
  have new': "\<forall>x \<in> set (mr (db s)). \<not> msg_clash (gorm b) (toDBMessage m) x"
    "\<forall>x \<in> set (rr (db s)). \<not> coll (gorm b) (DR_ServerMsgID x) (ServerMsgID m)"
    using new s(1) by (simp_all add: same_rows_def)
  have p: "persistent s" using start s(2) by simp
  have "moves (gorm b) mr rr (db (store_of y1)) d"
    unfolding d_def by (rule later_moves[OF laws run])
  note saved = saved_rows_survive[OF laws(1) p s(3) new' u this up, of r']
  obtain w where w: "srv_worker (im_srv (boot e True d c now b r')) = Some w"
    "set (pipeline w) = DR_ServerMsgID ` {x \<in> set (rr d). DR_Status x = 0} - {[]}"
    using boot_queue[OF laws(1) up few] by blast
  have "ServerMsgID m \<in> set (pipeline w)"
    if "row \<in> set (rr d)" "DR_ServerMsgID row = ServerMsgID m" "DR_Status row = 0" for row
  proof -
    have "ServerMsgID m \<in> DR_ServerMsgID ` {x \<in> set (rr d). DR_Status x = 0}"
      using that by (intro image_eqI[of _ _ row]) simp_all
    with conjunct1[OF conjunct2[OF saved]] show ?thesis unfolding w(2) by simp
  qed
  with conjunct1[OF saved] conjunct2[OF conjunct2[OF saved]] w(1) show ?thesis by blast
qed

text \<open>
  C22: an acknowledgement survives a crash. When a recipient of a stored message has acknowledged it
  and the database has answered the update, then whatever the program does afterwards, however often
  it crashes, a process restarted on the tables does not return that recipient for the message again, under any name
  the database takes for the same. It is asked that the restarted process finds a cache that
  holds no lists and a database that answers.
\<close>

theorem ack_survives_crash:
  assumes laws: "lawful (gorm b) mr rr" "accounts_law (gorm b) mr rr"
    and reach: "lives b d0 y" and "i \<noteq> []" and "to \<noteq> []"
    and row: "\<exists>x \<in> set (rr (db (store_of y))). pair_row (gorm b) i to x"
    and ok: "fst (MarkDeliveryAcked b r i to (store_of y)) = None"
    and run: "later b (on_srv (srv_HandleDeliverAck b r to i) y) y2" and d_def: "d = db (store_of y2)"
    and up: "answers (gorm b) d" "cold b c"
  shows "\<forall>u \<in> set (fst (GetRecipients b r' i (NewInMemoryStore True d c))). \<not> coll (gorm b) u to"
proof -
  let ?s1 = "snd (MarkDeliveryAcked b r i to (store_of y))"
  have "persistent (store_of y)" by (rule lives_moves(2)[OF laws reach])
  moreover have "MarkDeliveryAcked b r i to (store_of y) = (None, ?s1)" using ok by (simp add: prod_eq_iff)
  ultimately have "settled (gorm b) i to (rr (db ?s1))" using row by (intro ack_settles[OF laws(1)])
  moreover have "store_of (on_srv (srv_HandleDeliverAck b r to i) y) = ?s1"
    using assms(4,5) by (simp add: srv_HandleDeliverAck_def HandleDeliverAck_def InMemoryStore_def)
  ultimately have "settled (gorm b) i to (rr d)"
    using moves_keep(3)[OF laws(1) later_moves[OF laws run]] by (simp add: d_def)
  from settled_not_returned[OF laws(1) this up] show ?thesis by blast
qed

lemma enqueue_all_queue: "set (deliverQueue (enqueue_all ids w)) \<subseteq> set (deliverQueue w) \<union> set ids"
proof (induction ids arbitrary: w)
  case (Cons i ids)
  have "set (deliverQueue (EnqueueServerMsg i w)) \<subseteq> insert i (set (deliverQueue w))"
    by (auto simp: Enqueue_cases unmark_def)
  with Cons.IH[of "EnqueueServerMsg i w"] show ?case by (auto simp: enqueue_all_def)
qed (simp add: enqueue_all_def)

text \<open>
  C23: once its attempts are exhausted, a message is withheld from its recipient. When a failed attempt
  has used up the configured number, counted in memory or in the table, and the update has been
  stored, then whatever the program does afterwards, however often it crashes and is restarted,
  the message is not among those the store lists as pending for the user, and coming on line
  does not put it in the delivery queue. It is asked that the tables had no two rows for one
  message and user when the first process started, which the unique key excludes, that the
  pair has a row, and that the cache does not answer with a list of the user's pending messages
  at that time.
\<close>

theorem dead_letter_withheld:
  assumes laws: "lawful (gorm b) mr rr" "accounts_law (gorm b) mr rr"
    and reach: "lives b d0 y" and uniq: "pairs_unique (gorm b) (rr d0)"
    and row: "\<exists>x \<in> set (rr (db (store_of y))). pair_row (gorm b) i to x"
    and fail: "ScheduleRetry b r i to err mx base (store_of y) = ((True, None), store_of y1)"
    and run: "later b y1 y2"
    and miss: "fst (cache_get_strings b (PendingUserKey to) (cache (store_of y2))) = None"
  shows "i \<notin> set (fst (ListPendingServerMsgIDsByUser b r' to n (store_of y2))) \<and>
    (\<forall>w w'. srv_worker (im_srv y2) = Some w \<and> i \<notin> set (deliverQueue w) \<and>
      srv_worker (srv_EnqueuePendingForUser b r' to n (im_srv y2)) = Some w' \<longrightarrow> i \<notin> set (deliverQueue w'))"
proof -
  note start = lives_moves[OF laws reach]
  have ne: "to \<noteq> []" using fail by (auto simp: ScheduleRetry_def split: if_splits)
  have "persistent (store_of y1) = persistent (store_of y)"
    using persistent_exec[of b r "OpRetry i to err mx base" "store_of y"] fail by simp
  then have p2: "persistent (store_of y2)" using start(2) by (auto intro: on_db.later_keeps[OF run])
  have "settled (gorm b) i to (rr (db (store_of y1)))"
    by (rule burial_settles[OF laws(1) start(2) moves_keep(5)[OF laws(1) start(1) uniq] row fail])
  then have "settled (gorm b) i to (rr (db (store_of y2)))"
    by (rule moves_keep(3)[OF laws(1) later_moves[OF laws run]])
  then have "i \<notin> set (fst (ListPendingServerMsgIDsByUser b r' to n (store_of y2)))"
    by (rule settled_not_listed[OF laws(1) _ miss p2 ne])
  moreover from this have "i \<notin> set (deliverQueue w')"
    if "srv_worker (im_srv y2) = Some w" "i \<notin> set (deliverQueue w)"
      "srv_worker (srv_EnqueuePendingForUser b r' to n (im_srv y2)) = Some w'" for w w'
    using that enqueue_all_queue[of "fst (ListPendingServerMsgIDsByUser b r' to n (store_of y2))" w]
    by (auto simp: srv_EnqueuePendingForUser_def EnqueuePendingForUser_def InMemoryStore_def set_store_def split: prod.splits)
  ultimately show ?thesis by blast
qed

text \<open>A row that is pending with a time for its next attempt that has come.\<close>

definition due_row :: "int \<Rightarrow> db_recipient \<Rightarrow> bool" where
  "due_row now row \<longleftrightarrow> DR_Status row = 0 \<and> (case DR_NextRetryAt row of None \<Rightarrow> False | Some t \<Rightarrow> t \<le> now)"

text \<open>
  C27: no retry is lost. In database mode, after a tick of the retry worker the id of every row that
  is due in the table, that is pending with a time for the next attempt that has come, is in the
  pipeline of the delivery worker, whose in-flight set stays exact. It is asked that the cache
  does not answer with a list of due messages, that the database answers, that at most 500 rows, the limit of the
  scan, are due, and that the queue has room for 500 more ids.
\<close>

theorem retry_tick_enqueues_due:
  assumes law: "lawful (gorm b) mr rr" and up: "answers (gorm b) (db (store_of y))" and p: "persistent (store_of y)"
    and miss: "fst (cache_get_strings b PendingDueKey (cache (store_of y))) = None"
    and few: "length (filter (due_row (clk (rs 0) 0)) (rr (db (store_of y)))) \<le> 500"
    and inv: "sys_inv y" and w: "srv_worker (im_srv y) = Some w" and room: "length (deliverQueue w) + 500 \<le> queue_cap"
    and z_def: "z = exec_event x b rs Retry y"
  shows "\<exists>w'. srv_worker (im_srv z) = Some w' \<and> queue_inv w' \<and>
    DR_ServerMsgID ` {row \<in> set (rr (db (store_of y))). due_row (clk (rs 0) 0) row} - {[]} \<subseteq> set (pipeline w')"
proof -
  obtain c where c: "cache_get_strings b PendingDueKey (cache (store_of y)) = (None, c)"
    using miss by (metis prod.collapse)
  let ?s = "(store_of y)\<lparr>cache := c\<rparr>"
  have scan: "GetDueRetryServerMsgIDs b (rs 0) 500 (store_of y) =
      scan_rows b PendingDueKey (due_row (clk (rs 0) 0)) (Asc next_retry_key) 500 ?s"
    using p c by (simp add: GetDueRetryServerMsgIDs_def due_row_def[abs_def] Let_def)
  define ids where "ids = fst (GetDueRetryServerMsgIDs b (rs 0) 500 (store_of y))"
  have set: "set ids = DR_ServerMsgID ` {row \<in> set (rr (db (store_of y))). due_row (clk (rs 0) 0) row} - {[]}"
    and "distinct ids"
    using scan_finds[OF law, of ?s 500 "due_row (clk (rs 0) 0)"] up few by (simp_all add: ids_def scan)
  from this(2) have "length ids = card (set ids)" by (rule distinct_card[symmetric])
  also have "\<dots> \<le> card (DR_ServerMsgID ` set (filter (due_row (clk (rs 0) 0)) (rr (db (store_of y)))))"
    unfolding set by (rule card_mono) auto
  also have "\<dots> \<le> length (filter (due_row (clk (rs 0) 0)) (rr (db (store_of y))))"
    by (rule le_trans[OF card_image_le card_length]) simp
  finally have "length (deliverQueue w) + length ids \<le> queue_cap" using few room by simp
  from enqueue_all_room[OF this] have "set ids \<subseteq> in_flight (enqueue_all ids w)" using set by auto
  moreover have wz: "srv_worker (im_srv z) = Some (enqueue_all ids w)"
    using w by (simp add: z_def exec_event_def retry_def retry_tick_def ids_def InMemoryStore_def case_prod_beta set_store_def)
  moreover have "sys_inv z"
    unfolding z_def by (rule sys_inv_event[OF inv]) (simp add: valid_event_def)
  then have "queue_inv (enqueue_all ids w)" using wz by (simp add: sys_inv_def srv_ok_def)
  ultimately show ?thesis unfolding set[symmetric]
    by (intro exI[of _ "enqueue_all ids w"]) (simp add: queue_inv_def in_flight_def del: set_map)
qed

section \<open>Instances\<close>

text \<open>A process on empty tables that has accepted a message from ann to bob, who is off line.\<close>

definition empty_process :: "(tables, (string \<times> string) list) sys" where
  "empty_process = boot [] True no_tables [] 0 sample_backend (sample_rt 0)"

definition first_req :: Message where
  "first_req = zero_Message\<lparr>From := ''ann'', To := ''bob'', ClientMsgID := ''c-1''\<rparr>"

definition first_send :: "send_result \<times> (tables, (string \<times> string) list) sys" where
  "first_send = send sample_backend (sample_rt 0) first_req [''bob''] empty_process"

lemma accounts_backend: "accounts_law (gorm sample_backend) msg_rows recip_rows"
  by (simp add: accounts_law_def sample_backend_def sample_db_def list_table_def Let_def same_rows_def)

lemma empty_lives: "lives sample_backend no_tables empty_process"
  unfolding empty_process_def by (rule lives_boot)

definition first_msg :: Message where
  "first_msg = first_req\<lparr>Type := TypeDeliver, ServerMsgID := ''s-0-1'', ChatID := ''c2c:ann:bob'', Seq := 1\<rparr>"

lemma first_send_saved: "fst first_send = Saved first_msg"
  by code_simp

lemma empty_rows: "msg_rows (db (store_of empty_process)) = []" "recip_rows (db (store_of empty_process)) = []"
  by code_simp+

text \<open>The delivery goroutine then finds bob off line, and the process stops.\<close>

definition after_attempt :: "(tables, (string \<times> string) list) sys" where
  "after_attempt = exec_event sample_ext sample_backend (\<lambda>_. sample_rt 3) Deliver (snd first_send)"

lemma attempt_step: "later sample_backend (snd first_send) after_attempt"
proof -
  have "step sample_backend [] (snd first_send) after_attempt"
    unfolding after_attempt_def by (rule step_event) (simp_all add: valid_event_def sample_ext_def)
  then show ?thesis by (blast intro: works)
qed

lemma attempt_rows: "map DR_Status (recip_rows (db (store_of after_attempt))) = [0]"
  by code_simp

theorem accepted_survives_crash_witness:
  "\<exists>t. fst (GetMessageByServerID sample_backend ''s-0-1''
     (NewInMemoryStore True (db (store_of after_attempt)) [])) =
   Some (first_msg\<lparr>Type := TypeDeliver, Status := 0, Ts := t\<rparr>)"
proof -
  have sent: "send sample_backend (sample_rt 0) first_req [''bob''] empty_process = (Saved first_msg, snd first_send)"
    using first_send_saved by (simp add: first_send_def prod_eq_iff)
  have "length (filter (\<lambda>x. DR_Status x = 0) (recip_rows (db (store_of after_attempt)))) \<le>
      length (map DR_Status (recip_rows (db (store_of after_attempt))))" by simp
  also have "\<dots> \<le> queue_cap" by (simp only: attempt_rows) (simp add: queue_cap_def)
  finally have few: "length (filter (\<lambda>x. DR_Status x = 0) (recip_rows (db (store_of after_attempt)))) \<le> queue_cap" .
  have new: "\<forall>x \<in> set (msg_rows (db (store_of empty_process))). \<not> msg_clash (gorm sample_backend) (toDBMessage first_msg) x"
    "\<forall>x \<in> set (recip_rows (db (store_of empty_process))). \<not> coll (gorm sample_backend) (DR_ServerMsgID x) (ServerMsgID first_msg)"
    "ids_unique (gorm sample_backend) (msg_rows no_tables)"
    by (simp_all add: empty_rows ids_unique_def no_tables_def)
  have "ServerMsgID first_msg = ''s-0-1''" by (simp add: first_msg_def)
  then show ?thesis
    using accepted_survives_crash[OF lawful_backend accounts_backend empty_lives new(3) sent new(1,2)
        attempt_step refl answers_sample cold_sample few] by simp
qed

text \<open>A process that starts on a table with one pending row.\<close>

definition one_pending :: tables where
  "one_pending = no_tables\<lparr>recip_rows := [(new_recipient ''s-1'' ''bob'')\<lparr>DR_ID := 1\<rparr>]\<rparr>"

definition restarted :: "(tables, (string \<times> string) list) sys" where
  "restarted = boot [] True one_pending [] 0 sample_backend (sample_rt 0)"

lemma restarted_lives: "lives sample_backend one_pending restarted"
  unfolding restarted_def by (rule lives_boot)

lemma restarted_row: "\<exists>x \<in> set (recip_rows (db (store_of restarted))). pair_row (gorm sample_backend) ''s-1'' ''bob'' x"
proof -
  have "map (\<lambda>x. (DR_ServerMsgID x, DR_ToUser x)) (recip_rows (db (store_of restarted))) = [(''s-1'', ''bob'')]"
    by code_simp
  then show ?thesis by (auto simp: pair_row_def sample_backend_def sample_db_def)
qed

theorem ack_survives_crash_witness:
  "''bob'' \<notin> set (fst (GetRecipients sample_backend (sample_rt 0) ''s-1'' (NewInMemoryStore True
     (db (store_of (on_srv (srv_HandleDeliverAck sample_backend (sample_rt 7) ''bob'' ''s-1'') restarted))) [])))"
proof -
  have "fst (MarkDeliveryAcked sample_backend (sample_rt 7) ''s-1'' ''bob'' (store_of restarted)) = None" by code_simp
  from ack_survives_crash[OF lawful_backend accounts_backend restarted_lives _ _ restarted_row this
      rtranclp.rtrancl_refl refl answers_sample cold_sample, of "sample_rt 0"]
  show ?thesis by (auto simp: sample_backend_def sample_db_def)
qed

theorem dead_letter_withheld_witness:
  "''s-1'' \<notin> set (fst (ListPendingServerMsgIDsByUser sample_backend (sample_rt 9) ''bob'' 500
     (snd (ScheduleRetry sample_backend (sample_rt 7) ''s-1'' ''bob'' None 1 2 (store_of restarted)))))"
proof -
  let ?f = "ScheduleRetry sample_backend (sample_rt 7) ''s-1'' ''bob'' None 1 2 (store_of restarted)"
  let ?y = "on_srv (set_store (snd ?f)) restarted"
  have "fst ?f = (True, None)" by code_simp
  then have fail: "?f = ((True, None), store_of ?y)" by (simp add: prod_eq_iff)
  have uniq: "pairs_unique (gorm sample_backend) (recip_rows one_pending)"
    by (simp add: pairs_unique_def one_pending_def)
  have miss: "fst (cache_get_strings sample_backend (PendingUserKey ''bob'') (cache (snd ?f))) = None" by code_simp
  then show ?thesis
    using dead_letter_withheld[OF lawful_backend accounts_backend restarted_lives uniq restarted_row fail
        rtranclp.rtrancl_refl, of "sample_rt 9" 500] by simp
qed

text \<open>A process that starts on a table with one row that is due.\<close>

definition one_due :: tables where
  "one_due = no_tables\<lparr>recip_rows := [(new_recipient ''s-1'' ''bob'')\<lparr>DR_ID := 1, DR_NextRetryAt := Some 5\<rparr>]\<rparr>"

definition with_due :: "(tables, (string \<times> string) list) sys" where
  "with_due = on_srv (\<lambda>v. v\<lparr>srv_worker := Some NewWorker\<rparr>) (boot [] True one_due [] 0 sample_backend (sample_rt 0))"

theorem retry_tick_enqueues_due_witness:
  "\<exists>w. srv_worker (im_srv (exec_event sample_ext sample_backend (\<lambda>_. sample_rt 9) Retry with_due)) = Some w \<and>
    ''s-1'' \<in> set (pipeline w)"
proof -
  have up: "answers (gorm sample_backend) (db (store_of with_due))" by (rule answers_sample)
  have s: "persistent (store_of with_due)"
    "fst (cache_get_strings sample_backend PendingDueKey (cache (store_of with_due))) = None" by code_simp+
  have row: "map (\<lambda>r. (DR_ServerMsgID r, due_row 9 r)) (recip_rows (db (store_of with_due))) = [(''s-1'', True)]" by code_simp
  then obtain r where r: "recip_rows (db (store_of with_due)) = [r]" "DR_ServerMsgID r = ''s-1''" "due_row 9 r" by auto
  have few: "length (filter (due_row (clk (sample_rt 9) 0)) (recip_rows (db (store_of with_due)))) \<le> 500"
    by (simp add: r(1))
  have w: "srv_worker (im_srv with_due) = Some NewWorker" "length (deliverQueue NewWorker) + 500 \<le> queue_cap"
    by (simp_all add: with_due_def NewWorker_def queue_cap_def)
  have inv: "sys_inv with_due"
    using sys_inv_boot[of "[]" True one_due "[]" 0 sample_backend "sample_rt 0"] queue_inv_new
    by (simp add: with_due_def sys_inv_def srv_ok_def presence_ok_def)
  show ?thesis
    using retry_tick_enqueues_due[where rs = "\<lambda>_. sample_rt 9", OF lawful_backend up s few inv w refl, of sample_ext] r
    by (auto simp: sample_rt_def)
qed

end
