(* ===== verification/Resend.thy ===== *)
theory Resend
  imports Crash_Recovery Chat_Props
begin

text \<open>
  Repeated sends over crashes. The client repeats a request until it has an answer; the pair of
  sender and client id tells the server that it has accepted it before, from memory or, after a
  restart, from the table.
\<close>

section \<open>The message of a pair\<close>

definition pair_msg :: "'d gorm_db \<Rightarrow> string \<Rightarrow> string \<Rightarrow> db_message \<Rightarrow> bool" where
  "pair_msg g f k x \<longleftrightarrow> coll g (DM_SendID x) f \<and> coll g (DM_ClientMsgID x) k"

definition owned :: "'d gorm_db \<Rightarrow> string \<Rightarrow> string \<Rightarrow> db_message \<Rightarrow> db_message list \<Rightarrow> bool" where
  "owned g f k row ms \<longleftrightarrow> row \<in> set ms \<and> pair_msg g f k row \<and> (\<forall>x \<in> set ms. pair_msg g f k x \<longrightarrow> x = row)"

definition keys_unique :: "'d gorm_db \<Rightarrow> db_message list \<Rightarrow> bool" where
  "keys_unique g ms \<longleftrightarrow> (\<forall>x \<in> set ms. \<forall>y \<in> set ms. msg_clash g x y \<longrightarrow> x = y)"

lemma msg_clash_sym:
  assumes "lawful g mr rr"
  shows "msg_clash g x y \<Longrightarrow> msg_clash g y x"
  unfolding msg_clash_def by (blast intro: coll_laws[OF assms])

lemma pair_clash:
  assumes "lawful g mr rr"
  shows "pair_msg g f k x \<Longrightarrow> pair_msg g f k y \<Longrightarrow> msg_clash g x y"
  unfolding pair_msg_def msg_clash_def by (blast intro: coll_laws[OF assms])

lemma owned_step:
  assumes "lawful g mr rr" and "db_step g c c'" and "owned g f k row (fst c)"
  shows "owned g f k row (fst c')"
  using assms(2)
proof (cases rule: db_step.cases)
  case (add_message ms x rs)
  with assms(3) have "row \<in> set ms" "pair_msg g f k row" by (simp_all add: owned_def)
  with add_message(3) have "\<not> pair_msg g f k x" using pair_clash[OF assms(1)] by blast
  with assms(3) add_message(1,2) show ?thesis by (simp add: owned_def)
qed (use assms(3) in simp_all)

lemma keys_step:
  assumes "lawful g mr rr" and "db_step g c c'" and "keys_unique g (fst c)"
  shows "keys_unique g (fst c')"
  using assms(2)
proof (cases rule: db_step.cases)
  case (add_message ms x rs)
  with msg_clash_sym[OF assms(1)] have "\<not> msg_clash g y x" if "y \<in> set ms" for y using that by blast
  with assms(3) add_message show ?thesis by (auto simp: keys_unique_def)
qed (use assms(3) in simp_all)

lemma messages_moves:
  assumes "lawful g mr rr" and "moves g mr rr d d'"
  shows "owned g f k row (mr d) \<Longrightarrow> owned g f k row (mr d')"
    and "keys_unique g (mr d) \<Longrightarrow> keys_unique g (mr d')"
proof -
  have "(owned g f k row (fst c) \<longrightarrow> owned g f k row (fst c')) \<and> (keys_unique g (fst c) \<longrightarrow> keys_unique g (fst c'))"
    if "(db_step g)\<^sup>*\<^sup>* c c'" for c c'
    using that by (induction rule: rtranclp_induct) (auto intro: owned_step[OF assms(1)] keys_step[OF assms(1)])
  from this[of "(mr d, rr d)" "(mr d', rr d')"] assms(2)
  show "owned g f k row (mr d) \<Longrightarrow> owned g f k row (mr d')" "keys_unique g (mr d) \<Longrightarrow> keys_unique g (mr d')"
    by (auto simp: moves_def)
qed

section \<open>The index of the store\<close>

text \<open>Only sends and the two look-ups change the index by client id.\<close>

lemma byClient_fold [simp]:
  "byClient (fold (\<lambda>x. saveDeliveryUnsafe (h x) (g x)) xs s) = byClient s"
  "byClient (fold (saveDeliveryUnsafe i) ys s) = byClient s"
  by (induction xs arbitrary: s) simp_all

lemma byClient_frame [simp]:
  "byClient (del_keys b ks s) = byClient s" "byClient (snd (update_recipients b w f s)) = byClient s"
  "byClient (snd (SaveDelivery b i to s)) = byClient s"
  by (simp_all add: del_keys_def update_recipients_def SaveDelivery_def Let_def
      split: prod.split sum.split option.split)

lemma byClient_rows [simp]:
  "byClient (snd (save_rows b rows s)) = byClient s" "byClient (snd (scan_rows b key w ord limit s)) = byClient s"
proof -
  show rows: "byClient (snd (save_rows b rows s)) = byClient s" for rows and s :: "('a, 'b) store"
    by (induction rows arbitrary: s) (simp_all add: case_prod_beta)
  show "byClient (snd (scan_rows b key w ord limit s)) = byClient s"
    by (simp add: scan_rows_def case_prod_beta rows split: sum.split)
qed

lemma byClient_schedule [simp]: "byClient (snd (schedule_row b i to t mx base now s)) = byClient s"
  by (auto simp: schedule_row_def bury_rows_def Let_def case_prod_beta split: sum.split option.split)

lemma byClient_plain:
  assumes "plain_call op" and "\<And>f k. op \<noteq> OpByClient f k" and "\<And>i. op \<noteq> OpByServer i"
  shows "byClient (exec_store b (r, op) s) = byClient s"
proof (cases op)
  case (OpNextSeq c)
  then show ?thesis using NextSeq_frame[of b c s] by simp
qed (use assms in \<open>auto simp: GetRecipients_def MarkDeliverySent_def MarkDeliveryAcked_def MarkDeliveryRead_def
  ScheduleRetry_def bury_rows_def GetDueRetryServerMsgIDs_def DeliveryStats_def RecoverPendingServerMsgIDs_def
  ListPendingServerMsgIDsByUser_def GetC2CHistory_def Let_def case_prod_beta split: option.split sum.split\<close>)

text \<open>What the index knows of a pair is the message of its row, or the message as it was saved.\<close>

definition index_ok :: "string \<Rightarrow> string \<Rightarrow> Message \<Rightarrow> db_message \<Rightarrow> ('d, 'c) store \<Rightarrow> bool" where
  "index_ok f k m row s \<longleftrightarrow> (\<forall>m'. byClient_lookup s f k = Some m' \<longrightarrow> m' = m \<or> m' = fromDBMessage row)"

lemma index_same: "byClient s' = byClient s \<Longrightarrow> index_ok f k m row s \<Longrightarrow> index_ok f k m row s'"
  by (simp add: index_ok_def byClient_lookup_def)

lemma index_load:
  assumes "lawful g mr rr" and "owned g f k row ms" and "x \<in> set ms" and "index_ok f k m row s"
  shows "index_ok f k m row (saveMessageUnsafe (fromDBMessage x) s)"
proof -
  have "x = row" if "DM_SendID x = f" "DM_ClientMsgID x = k"
    using assms(2,3) that coll_laws(1)[OF assms(1)] by (auto simp: owned_def pair_msg_def)
  with assms(4) show ?thesis by (auto simp: index_ok_def byClient_step index_add_def fromDBMessage_def)
qed

text \<open>A look-up leaves the index alone, or loads the row it has found.\<close>

lemma by_client_cases:
  "byClient (snd (GetMessageByClientID b f k s)) = byClient s \<or>
    (\<exists>w x d. t_take (messages_t (gorm b)) w (db s) = (Inr x, d) \<and>
      snd (GetMessageByClientID b f k s) = saveMessageUnsafe (fromDBMessage x) (s\<lparr>db := d\<rparr>))"
proof (cases "t_take (messages_t (gorm b)) (\<lambda>row. coll (gorm b) (DM_SendID row) f \<and>
    coll (gorm b) (DM_ClientMsgID row) k) (db s)")
  case (Pair res d)
  show ?thesis
  proof (cases res)
    case (Inr x)
    have "snd (GetMessageByClientID b f k s) \<in> {s, saveMessageUnsafe (fromDBMessage x) (s\<lparr>db := d\<rparr>)}"
      unfolding GetMessageByClientID_def Pair Inr Let_def by (simp split: option.split)
    with Pair[unfolded Inr] show ?thesis by fastforce
  qed (simp add: GetMessageByClientID_def Pair split: option.split)
qed

lemma by_server_cases:
  "byClient (snd (GetMessageByServerID b i s)) = byClient s \<or>
    (\<exists>w x d. t_take (messages_t (gorm b)) w (db s) = (Inr x, d) \<and>
      snd (GetMessageByServerID b i s) = saveMessageUnsafe (fromDBMessage x) (s\<lparr>db := d\<rparr>))"
proof (cases "t_take (messages_t (gorm b)) (\<lambda>row. coll (gorm b) (DM_ServerMsgID row) i) (db s)")
  case (Pair res d)
  show ?thesis
  proof (cases res)
    case (Inr x)
    have "snd (GetMessageByServerID b i s) \<in> {s, saveMessageUnsafe (fromDBMessage x) (s\<lparr>db := d\<rparr>)}"
      unfolding GetMessageByServerID_def Pair Inr Let_def by (simp split: option.split)
    with Pair[unfolded Inr] show ?thesis by fastforce
  qed (simp add: GetMessageByServerID_def Pair markRecipientRowsDeadIfMessageMissing_def Let_def
      split: option.split db_error.split)
qed

lemma index_plain:
  assumes law: "lawful (gorm b) mr rr" and own: "owned (gorm b) f k row (mr (db s))"
    and ok: "index_ok f k m row s" and "plain_call op"
  shows "index_ok f k m row (exec_store b (r, op) s)"
proof -
  have take: "x \<in> set (mr (db s))" if "t_take (messages_t (gorm b)) w (db s) = (Inr x, d)" for w x d
  proof -
    have "take_law (messages_t (gorm b)) mr" using law by (simp add: lawful_def)
    from this[unfolded take_law_def, rule_format, where w = w and d = "db s"] that show ?thesis by simp
  qed
  have load: "index_ok f k m row (saveMessageUnsafe (fromDBMessage x) (s\<lparr>db := d\<rparr>))"
    if "t_take (messages_t (gorm b)) w (db s) = (Inr x, d)" for w x d
    using take[OF that] ok by (intro index_load[OF law own]) (simp_all add: index_ok_def byClient_lookup_def)
  have plain: "index_ok f k m row (s\<lparr>db := d\<rparr>)" for d using ok by (simp add: index_ok_def byClient_lookup_def)
  have client: "index_ok f k m row (snd (GetMessageByClientID b f' k' s))" for f' k'
    using by_client_cases[of b f' k' s]
  proof (elim disjE exE conjE)
    fix w x d
    assume "t_take (messages_t (gorm b)) w (db s) = (Inr x, d)"
      and eq: "snd (GetMessageByClientID b f' k' s) = saveMessageUnsafe (fromDBMessage x) (s\<lparr>db := d\<rparr>)"
    then show ?thesis unfolding eq by (intro load)
  qed (rule index_same[OF _ ok])
  have server: "index_ok f k m row (snd (GetMessageByServerID b i s))" for i
    using by_server_cases[of b i s]
  proof (elim disjE exE conjE)
    fix w x d
    assume "t_take (messages_t (gorm b)) w (db s) = (Inr x, d)"
      and eq: "snd (GetMessageByServerID b i s) = saveMessageUnsafe (fromDBMessage x) (s\<lparr>db := d\<rparr>)"
    then show ?thesis unfolding eq by (intro load)
  qed (rule index_same[OF _ ok])
  show ?thesis
  proof (cases "(\<exists>f k. op = OpByClient f k) \<or> (\<exists>i. op = OpByServer i)")
    case True
    with client server show ?thesis by auto
  next
    case False
    with assms(4) have "byClient (exec_store b (r, op) s) = byClient s" by (intro byClient_plain) auto
    then show ?thesis by (rule index_same[OF _ ok])
  qed
qed

text \<open>A pair that has a row is found.\<close>

lemma pair_found:
  assumes law: "lawful (gorm b) mr rr" and up: "answers (gorm b) (db s)" and "persistent s"
    and own: "owned (gorm b) f k row (mr (db s))" and ok: "index_ok f k m row s" and "f \<noteq> []" "k \<noteq> []"
  shows "\<exists>m' s'. GetMessageByClientID b f k s = (Some m', s') \<and> (m' = m \<or> m' = fromDBMessage row) \<and>
    same_rows mr rr (db s) (db s')"
proof (cases "byClient_lookup s f k")
  case None
  let ?w = "\<lambda>x :: db_message. coll (gorm b) (DM_SendID x) f \<and> coll (gorm b) (DM_ClientMsgID x) k"
  have take: "take_law (messages_t (gorm b)) mr" using law by (simp add: lawful_def)
  have reads: "read_law (messages_t (gorm b)) mr rr" using law by (simp add: lawful_def)
  obtain res d where q: "t_take (messages_t (gorm b)) ?w (db s) = (res, d)" by fastforce
  have "res = Inr row"
  proof (cases res)
    case (Inl e)
    then have "e = ErrRecordNotFound" using up q unfolding answers_def by (metis db_error.exhaust fst_conv)
    with Inl q take[unfolded take_law_def, rule_format, where w = ?w and d = "db s"] own show ?thesis
      by (auto simp: owned_def pair_msg_def)
  next
    case (Inr x)
    with q take[unfolded take_law_def, rule_format, where w = ?w and d = "db s"] own show ?thesis
      by (auto simp: owned_def pair_msg_def)
  qed
  moreover have "same_rows mr rr (db s) d"
    using conjunct2[OF reads[unfolded read_law_def, rule_format, where w = ?w and d = "db s"]] q by simp
  ultimately show ?thesis using None q assms(3,6,7) by (simp add: GetMessageByClientID_def Let_def)
next
  case (Some m')
  then show ?thesis using assms(6,7) ok by (simp add: GetMessageByClientID_def index_ok_def same_rows_def)
qed

section \<open>Sends and system events\<close>

lemma byClient_save_cases:
  "byClient_lookup (snd (SaveMessageWithRecipients b (Some msg) rs s)) f k = byClient_lookup s f k \<or>
    From msg = f \<and> ClientMsgID msg = k \<and> f \<noteq> [] \<and> k \<noteq> []"
proof -
  have frame: "byClient_lookup (s\<lparr>db := d\<rparr>) = byClient_lookup s" "byClient_lookup (s\<lparr>db := d, cache := c\<rparr>) = byClient_lookup s"
    for d c and s :: "('a, 'b) store"
    by (simp_all add: fun_eq_iff byClient_lookup_def)
  show ?thesis
    by (auto simp: SaveMessageWithRecipients_def Let_def byClient_step index_add_def frame
        split: prod.splits option.splits)
qed

lemma index_save:
  assumes "index_ok f k m row s" and "\<not> (From msg = f \<and> ClientMsgID msg = k \<and> f \<noteq> [] \<and> k \<noteq> [])"
  shows "index_ok f k m row (snd (SaveMessageWithRecipients b (Some msg) rs (snd (NextSeq b c s))))"
proof -
  have "byClient_lookup (snd (NextSeq b c s)) = byClient_lookup s"
    using NextSeq_frame[of b c s] by (simp add: fun_eq_iff byClient_lookup_def)
  with assms byClient_save_cases[of b msg rs "snd (NextSeq b c s)" f k] show ?thesis
    by (auto simp: index_ok_def)
qed

section \<open>Over every access and every restart\<close>

lemma commit_fields:
  "send_commit (InMemoryStore b) r q rs l = (Saved m, l') \<Longrightarrow> Type m = TypeDeliver \<and> Status m = 0"
  by (auto simp: send_commit_def Let_def zero_Message_def split: prod.splits option.splits)

lemma index_touch:
  assumes law: "lawful (gorm b) mr rr" and up: "\<forall>d. answers (gorm b) d"
    and own: "persistent s" "owned (gorm b) f k row (mr (db s))" and ok: "index_ok f k m row s"
    and ne: "f \<noteq> []" "k \<noteq> []" and "touch b s s'"
  shows "index_ok f k m row s'"
  using assms(8)
proof (cases rule: touch.cases)
  case (store_call x)
  have "index_ok f k m row (exec_store b (fst x, snd x) s)" by (rule index_plain[OF law own(2) ok store_call(2)])
  then show ?thesis by (simp add: store_call(1) call_InMemoryStore)
next
  case (send_access l r req rs)
  obtain res l1 where c: "send_check (InMemoryStore b) r req l = (res, l1)" by fastforce
  have l1: "index_ok f k m row (l_store l1)"
    using check_store[OF c] ok index_plain[OF law own(2) ok, of "OpByClient _ _" r] send_access(1) by auto
  show ?thesis
  proof (cases res)
    case (Inr q)
    note q = check_passes[OF c[unfolded Inr]]
    have "\<not> (From q = f \<and> ClientMsgID q = k)"
      using pair_found[OF law spec[OF up] own ok ne] q send_access(1) by auto
    moreover obtain msg where msg: "From msg = From q" "ClientMsgID msg = ClientMsgID q"
      "l_store (snd (send_commit (InMemoryStore b) r q rs l1)) =
        snd (SaveMessageWithRecipients b (Some msg) rs (snd (NextSeq b (chat_of q) (l_store l1))))"
      using commit_access by blast
    ultimately have "index_ok f k m row (l_store (snd (send_commit (InMemoryStore b) r q rs l1)))"
      unfolding msg(3) by (intro index_save[OF l1]) auto
    then show ?thesis using c Inr send_access(2) by (simp add: ProcessSend_def)
  qed (use c l1 send_access(2) in \<open>simp add: ProcessSend_def\<close>)
next
  case (event_access l r body rs)
  obtain msg where "ClientMsgID msg = []" "l_store (snd (system_event (InMemoryStore b) r body rs l)) =
      snd (SaveMessageWithRecipients b (Some msg) rs (snd (NextSeq b ''system'' (l_store l))))"
    using Lifetimes.event_access by blast
  with index_save[OF ok, of msg] ne event_access show ?thesis by simp
qed (use ok in \<open>simp_all add: index_ok_def byClient_lookup_def\<close>)

interpretation sent: durable b "\<lambda>s. lawful (gorm b) mr rr \<and> accounts_law (gorm b) mr rr \<and> (\<forall>d. answers (gorm b) d) \<and>
    f \<noteq> [] \<and> k \<noteq> [] \<longrightarrow> persistent s \<and> owned (gorm b) f k row (mr (db s)) \<and> index_ok f k m row s"
  for b mr rr f k row m
proof
  fix s s' :: "('a, 'b) store" and c
  assume inv: "lawful (gorm b) mr rr \<and> accounts_law (gorm b) mr rr \<and> (\<forall>d. answers (gorm b) d) \<and>
    f \<noteq> [] \<and> k \<noteq> [] \<longrightarrow> persistent s \<and> owned (gorm b) f k row (mr (db s)) \<and> index_ok f k m row s"
  show "lawful (gorm b) mr rr \<and> accounts_law (gorm b) mr rr \<and> (\<forall>d. answers (gorm b) d) \<and>
    f \<noteq> [] \<and> k \<noteq> [] \<longrightarrow> persistent s' \<and> owned (gorm b) f k row (mr (db s')) \<and> index_ok f k m row s'"
    if "touch b s s'"
    using inv that messages_moves(1)[OF _ touch_moves[OF _ _ that]] index_touch[where s = s and s' = s']
      touches_persistent[OF r_into_rtranclp, OF that] by blast
  show "lawful (gorm b) mr rr \<and> accounts_law (gorm b) mr rr \<and> (\<forall>d. answers (gorm b) d) \<and>
    f \<noteq> [] \<and> k \<noteq> [] \<longrightarrow> persistent (NewInMemoryStore True (db s) c) \<and>
    owned (gorm b) f k row (mr (db (NewInMemoryStore True (db s) c))) \<and> index_ok f k m row (NewInMemoryStore True (db s) c)"
    using inv by (simp add: NewInMemoryStore_def index_ok_def byClient_lookup_def)
qed

section \<open>Property\<close>

lemma save_owns:
  assumes law: "lawful (gorm b) mr rr" and uniq: "keys_unique (gorm b) (mr (db s))" and "persistent s"
    and save: "SaveMessageWithRecipients b (Some m) rs s = (None, s1)"
    and new: "\<forall>x \<in> set (mr (db s)). \<not> msg_clash (gorm b) (toDBMessage m) x"
      "\<forall>x \<in> set (rr (db s)). \<not> coll (gorm b) (DR_ServerMsgID x) (ServerMsgID m)"
  shows "\<exists>row. msg_stored (toDBMessage m) row \<and> owned (gorm b) (From m) (ClientMsgID m) row (mr (db s1))"
proof -
  obtain d where tx: "save_tx b m rs (db s) = (None, d)" and d: "db s1 = d"
    using save assms(3) by (auto simp: SaveMessageWithRecipients_def Let_def split: if_splits prod.splits option.splits)
  have "exact_id (gorm b) (ServerMsgID m) (rr (db s))" using new(2) by (auto simp: exact_id_def)
  from save_tx_rows(1)[OF law tx new(1) this]
  obtain row where row: "msg_stored (toDBMessage m) row" "row \<in> set (mr (db s1))" unfolding d by blast
  have pair: "pair_msg (gorm b) (From m) (ClientMsgID m) row"
    using row(1) coll_laws(1)[OF law] by (auto simp: pair_msg_def msg_stored_def toDBMessage_def)
  have "keys_unique (gorm b) (mr (db s1))"
    using messages_moves(2)[OF law moves_Save[OF law, of s "Some m" rs] uniq] by (simp add: save)
  then have "x = row" if "x \<in> set (mr (db s1))" "pair_msg (gorm b) (From m) (ClientMsgID m) x" for x
    using that(1) row(2) pair_clash[OF law that(2) pair] unfolding keys_unique_def by blast
  with row pair show ?thesis unfolding owned_def by blast
qed

lemma fresh_pair:
  assumes law: "lawful (gorm b) mr rr" and up: "answers (gorm b) (db s)" and "persistent s"
    and miss: "GetMessageByClientID b f k s = (None, s')" and "f \<noteq> []" "k \<noteq> []" and "x \<in> set (mr (db s))"
  shows "\<not> pair_msg (gorm b) f k x"
proof -
  let ?w = "\<lambda>x :: db_message. coll (gorm b) (DM_SendID x) f \<and> coll (gorm b) (DM_ClientMsgID x) k"
  have take: "take_law (messages_t (gorm b)) mr" using law by (simp add: lawful_def)
  obtain e d where q: "t_take (messages_t (gorm b)) ?w (db s) = (Inl e, d)"
    using miss assms(3,5,6) by (auto simp: GetMessageByClientID_def Let_def split: option.splits prod.splits sum.splits)
  then have "e = ErrRecordNotFound" using up unfolding answers_def by (metis db_error.exhaust fst_conv)
  with q take[unfolded take_law_def, rule_format, where w = ?w and d = "db s"] assms(7) show ?thesis
    by (auto simp: pair_msg_def)
qed

text \<open>
  C20: a client that repeats a request after a crash is answered with the first message. Once the
  server has accepted a message, then after whatever the program does, however
  often it crashes and is restarted, a request with the same sender and client id, whatever else is in
  it, is answered with that message, up to its time stamp, and leaves both tables as they are. It
  is asked that the database keeps its documented laws and answers every query in every state
  (\<open>GetMessageByClientID\<close> takes a query that fails for a message that is not there, and the repeat
  would be accepted), that the tables had no two rows with one key at first, and that
  the server id of the message was new: no row of either table had it.
\<close>

theorem resend_after_crash:
  assumes laws: "lawful (gorm b) mr rr" "accounts_law (gorm b) mr rr" and up: "\<forall>d. answers (gorm b) d"
    and reach: "lives b d0 y" and uniq: "keys_unique (gorm b) (mr d0)"
    and sent: "send b r req rs y = (Saved m, y1)"
    and new: "\<forall>x \<in> set (mr (db (store_of y))). \<not> coll (gorm b) (DM_ServerMsgID x) (ServerMsgID m)"
      "\<forall>x \<in> set (rr (db (store_of y))). \<not> coll (gorm b) (DR_ServerMsgID x) (ServerMsgID m)"
    and run: "later b y1 y2"
    and again: "From req' = From m" "ClientMsgID req' = ClientMsgID m" "TrimSpace (ClientMsgID m) \<noteq> []"
  shows "\<exists>t y3. send b r' req' rs' y2 = (Existing (m\<lparr>Ts := t\<rparr>), y3) \<and>
    same_rows mr rr (db (store_of y2)) (db (store_of y3))"
proof -
  let ?f = "From m" and ?k = "ClientMsgID m" and ?l = "logic (im_srv y)"
  obtain q l1 l2 where q: "send_check (InMemoryStore b) r (Some req) ?l = (Inr q, l1)"
      "send_commit (InMemoryStore b) r q rs l1 = (Saved m, l2)" and y1: "store_of y1 = l_store l2"
    using sent by (auto simp: send_def srv_ProcessSend_def ProcessSend_def send_check_def Let_def
        split: prod.splits sum.splits if_splits option.splits)
  note com = send_commit_saved[OF q(2)] and miss = check_passes[OF q(1)]
  have ne: "?f \<noteq> []" "?k \<noteq> []" using miss com by simp_all
  note start = lives_moves[OF laws reach]
  obtain s where s: "same_rows mr rr (db (store_of y)) (db s)" "persistent s = persistent (store_of y)"
    "SaveMessageWithRecipients b (Some m) rs s = (None, store_of y1)"
    using send_saves[OF laws(1) sent] by blast
  have none: "\<not> pair_msg (gorm b) ?f ?k x" if "x \<in> set (mr (db (store_of y)))" for x
    using fresh_pair[OF laws(1) spec[OF up] start(2), of ?f ?k _ x] miss com ne that by simp
  have clash: "\<forall>x \<in> set (mr (db s)). \<not> msg_clash (gorm b) (toDBMessage m) x"
    using none new(1) s(1)
    by (auto simp: msg_clash_def pair_msg_def same_rows_def toDBMessage_def)
  have "keys_unique (gorm b) (mr (db s))"
    using messages_moves(2)[OF laws(1) start(1) uniq] s(1) by (simp add: same_rows_def)
  then obtain row where row: "msg_stored (toDBMessage m) row" "owned (gorm b) ?f ?k row (mr (db (store_of y1)))"
    using save_owns[OF laws(1) _ _ s(3) clash] new(2) s(1,2) start(2) by (auto simp: same_rows_def)
  have "byClient_lookup (store_of y1) ?f ?k = Some m"
    using Save_ok[OF s(3)] ne by (auto simp: byClient_step index_add_def)
  then have "index_ok ?f ?k m row (store_of y1)" by (simp add: index_ok_def)
  moreover have "persistent (store_of y1)"
    using persistent_exec[of b r "OpSave (Some m) rs" s] s(2,3) start(2) by simp
  ultimately have after: "persistent (store_of y2)" "owned (gorm b) ?f ?k row (mr (db (store_of y2)))"
    "index_ok ?f ?k m row (store_of y2)"
    using sent.later_keeps[OF run, of mr rr ?f ?k row m] laws up ne row(2) by blast+
  obtain m' s' where found: "GetMessageByClientID b ?f ?k (store_of y2) = (Some m', s')"
    "m' = m \<or> m' = fromDBMessage row" "same_rows mr rr (db (store_of y2)) (db s')"
    using pair_found[OF laws(1) spec[OF up] after ne] by blast
  have "\<exists>t. m' = m\<lparr>Ts := t\<rparr>"
  proof (cases "m' = m")
    case True
    then have "m' = m\<lparr>Ts := Ts m\<rparr>" by simp
    then show ?thesis by blast
  next
    case False
    obtain n t where "row = (toDBMessage m)\<lparr>DM_ID := n, DM_CreateTime := t\<rparr>" using row(1) by (auto simp: msg_stored_def)
    then have "m' = m\<lparr>Type := TypeDeliver, Status := 0, Ts := unix t\<rparr>" using False found(2) by (simp add: fromDB_toDB)
    also have "\<dots> = m\<lparr>Ts := unix t\<rparr>" using commit_fields[OF q(2)] by simp
    finally show ?thesis by blast
  qed
  moreover have "send b r' req' rs' y2 = (Existing m', y2\<lparr>im_srv := (im_srv y2)\<lparr>logic := (logic (im_srv y2))\<lparr>l_store := s'\<rparr>\<rparr>\<rparr>)"
    using found(1) again miss com(1)
    by (simp add: send_def srv_ProcessSend_def ProcessSend_def send_check_def InMemoryStore_def Let_def)
  ultimately show ?thesis using found(3) by fastforce
qed

text \<open>The process that has accepted ann's message stops, and ann repeats her request to the next one.\<close>

theorem resend_after_crash_witness:
  "\<exists>t. fst (send sample_backend (sample_rt 6) first_req [''bob'']
     (boot [] True (db (store_of after_attempt)) [] 5 sample_backend (sample_rt 5))) = Existing (first_msg\<lparr>Ts := t\<rparr>)"
proof -
  have sent: "send sample_backend (sample_rt 0) first_req [''bob''] empty_process = (Saved first_msg, snd first_send)"
    using first_send_saved by (simp add: first_send_def prod_eq_iff)
  have run: "later sample_backend (snd first_send) (boot [] True (db (store_of after_attempt)) [] 5 sample_backend (sample_rt 5))"
    using attempt_step restarts by (rule rtranclp.rtrancl_into_rtrancl)
  have "keys_unique (gorm sample_backend) (msg_rows no_tables)" by (simp add: keys_unique_def no_tables_def)
  moreover have "From first_req = From first_msg" "ClientMsgID first_req = ClientMsgID first_msg"
    "TrimSpace (ClientMsgID first_msg) \<noteq> []" by code_simp+
  ultimately show ?thesis
    using resend_after_crash[OF lawful_backend accounts_backend _ empty_lives _ sent _ _ run, of first_req "sample_rt 6" "[''bob'']"]
    by (auto simp: answers_sample empty_rows)
qed

end
