(* ===== verification/Pending_Rows.thy ===== *)
theory Pending_Rows
  imports Crash_Recovery
begin

text \<open>
  Memory and table of pending deliveries, side by side. The store keeps an entry in memory for
  every delivery it knows and a row in the table; \<open>GetRecipients\<close> looks at the entries first. Here
  it is shown that the entries never hide a pending row, on a database that answers its queries
  and without a cache, which is the default.
\<close>

section \<open>The effect of a call\<close>

definition reliable :: "'d gorm_db \<Rightarrow> bool" where
  "reliable g \<longleftrightarrow> (\<forall>w f d. \<exists>n. fst (t_update (recipients_t g) w f d) = Inr n)"

text \<open>All rows of a pair are settled.\<close>

definition no_pending :: "'d gorm_db \<Rightarrow> string \<Rightarrow> string \<Rightarrow> db_recipient list \<Rightarrow> bool" where
  "no_pending g i u rs \<longleftrightarrow> (\<forall>x \<in> set rs. pair_row g i u x \<longrightarrow> 1 \<le> DR_Status x)"

text \<open>
  The rows stay and go forward; an entry stays, it is settled only when the rows of its pair are,
  and it is opened only for a pair that has a row. A recipient without a name has no rows.
\<close>

definition effect ::
  "'d gorm_db \<Rightarrow> ('d \<Rightarrow> db_recipient list) \<Rightarrow> ('d, 'c) store \<Rightarrow> ('d, 'c) store \<Rightarrow> bool" where
  "effect g rr s s' \<longleftrightarrow> list_all2 kept (rr (db s)) (rr (db s')) \<and>
     (\<forall>i u. find_entry s i u \<noteq> None \<longrightarrow> find_entry s' i u \<noteq> None) \<and>
     (\<forall>i u e'. find_entry s' i u = Some e' \<longrightarrow> u \<noteq> [] \<longrightarrow>
        (find_entry s i u = None \<longrightarrow> (\<exists>x \<in> set (rr (db s')). pair_row g i u x)) \<and>
        (undelivered e' \<or> no_pending g i u (rr (db s')) \<or> (\<exists>e. find_entry s i u = Some e \<and> \<not> undelivered e)))"

lemma kept_trans: "kept x y \<Longrightarrow> kept y z \<Longrightarrow> kept x z"
  by (auto simp: kept_def)

lemma all_kept_refl: "list_all2 kept rs rs"
  by (simp add: list.rel_refl kept_refl)

lemma all_kept_trans: "list_all2 kept xs ys \<Longrightarrow> list_all2 kept ys zs \<Longrightarrow> list_all2 kept xs zs"
  by (rule list_all2_trans[where ?P1.0 = kept and ?P2.0 = kept]) (auto intro: kept_trans)

lemma pair_kept: "kept x y \<Longrightarrow> pair_row g i u y = pair_row g i u x"
  by (simp add: kept_def pair_row_def)

lemma no_pending_kept: "list_all2 kept rs rs' \<Longrightarrow> no_pending g i u rs \<Longrightarrow> no_pending g i u rs'"
  unfolding no_pending_def by (metis kept_row(2) pair_kept kept_def)

lemma pair_row_kept:
  "list_all2 kept rs rs' \<Longrightarrow> \<exists>x \<in> set rs. pair_row g i u x \<Longrightarrow> \<exists>x \<in> set rs'. pair_row g i u x"
  by (metis kept_row(1) pair_kept)

lemma effect_refl [simp]: "effect g rr s s"
  by (auto simp: effect_def all_kept_refl)

lemma effect_trans:
  assumes "effect g rr s1 s2" and "effect g rr s2 s3"
  shows "effect g rr s1 s3"
proof -
  have rows: "list_all2 kept (rr (db s1)) (rr (db s3))" and k: "list_all2 kept (rr (db s2)) (rr (db s3))"
    using assms all_kept_trans unfolding effect_def by blast+
  have "(find_entry s1 i u = None \<longrightarrow> (\<exists>x \<in> set (rr (db s3)). pair_row g i u x)) \<and>
      (undelivered e3 \<or> no_pending g i u (rr (db s3)) \<or> (\<exists>e. find_entry s1 i u = Some e \<and> \<not> undelivered e))"
    if e3: "find_entry s3 i u = Some e3" "u \<noteq> []" for i u e3
  proof (cases "find_entry s2 i u")
    case None
    with assms(2) e3 have "\<exists>x \<in> set (rr (db s3)). pair_row g i u x" "undelivered e3 \<or> no_pending g i u (rr (db s3))"
      unfolding effect_def by fastforce+
    then show ?thesis by blast
  next
    case (Some e2)
    with assms(2) e3 have "undelivered e3 \<or> no_pending g i u (rr (db s3)) \<or> \<not> undelivered e2"
      unfolding effect_def by fastforce
    moreover have "undelivered e2 \<or> no_pending g i u (rr (db s2)) \<or> (\<exists>e. find_entry s1 i u = Some e \<and> \<not> undelivered e)"
      and "find_entry s1 i u = None \<longrightarrow> (\<exists>x \<in> set (rr (db s2)). pair_row g i u x)"
      using assms(1) Some e3(2) unfolding effect_def by blast+
    ultimately show ?thesis using no_pending_kept[OF k] pair_row_kept[OF k] by blast
  qed
  moreover have "find_entry s3 i u \<noteq> None" if "find_entry s1 i u \<noteq> None" for i u
    using assms that unfolding effect_def by blast
  ultimately show ?thesis using rows unfolding effect_def by blast
qed

text \<open>The elementary effects.\<close>

lemma effect_rows: "list_all2 kept (rr (db s)) (rr d) \<Longrightarrow> effect g rr s (s\<lparr>db := d\<rparr>)"
  by (auto simp: effect_def)

lemma effect_same: "same_rows mr rr (db s) d \<Longrightarrow> effect g rr s (s\<lparr>db := d\<rparr>)"
  by (auto simp: effect_def same_rows_def all_kept_refl)

lemma effect_memory: "deliveries s' = deliveries s \<Longrightarrow> db s' = db s \<Longrightarrow> effect g rr s s'"
  by (auto simp: effect_def all_kept_refl find_entry_def)

lemma effect_open: "u = [] \<or> (\<exists>x \<in> set (rr (db s)). pair_row g i u x) \<Longrightarrow> effect g rr s (saveDeliveryUnsafe i u s)"
  by (auto simp: effect_def all_kept_refl find_entry_saveDeliveryUnsafe new_entry_def undelivered_def)

lemma effect_entry: "(\<And>e. undelivered (f e) = undelivered e) \<Longrightarrow> effect g rr s (mod_entry i u f s)"
  by (auto simp: effect_def all_kept_refl)

lemma effect_settle: "no_pending g i u (rr (db s)) \<Longrightarrow> effect g rr s (mod_entry i u f s)"
  by (auto simp: effect_def all_kept_refl)

section \<open>Every call but a save\<close>

definition steady ::
  "('d, 'c) backend \<Rightarrow> ('d \<Rightarrow> db_message list) \<Rightarrow> ('d \<Rightarrow> db_recipient list) \<Rightarrow> bool" where
  "steady b mr rr \<longleftrightarrow> lawful (gorm b) mr rr \<and> reliable (gorm b) \<and> client b = None"

lemma steady_lawful: "steady b mr rr \<Longrightarrow> lawful (gorm b) mr rr"
  by (simp add: steady_def)

lemma no_cache [simp]:
  assumes "steady b mr rr"
  shows "cache_get_strings b k c = (None, c)" "cache_set_strings b k xs ttl c = c" "del_keys b ks s = s"
  using assms by (simp_all add: steady_def cache_get_strings_def cache_set_strings_def del_keys_def cache_del_def)

lemma effect_reads:
  assumes "steady b mr rr" and "effect (gorm b) rr s0 s"
  shows "t_find (recipients_t (gorm b)) w ord lim off (db s) = (x, d) \<Longrightarrow> effect (gorm b) rr s0 (s\<lparr>db := d\<rparr>)"
    and "t_find (messages_t (gorm b)) w' ord' lim off (db s) = (x', d) \<Longrightarrow> effect (gorm b) rr s0 (s\<lparr>db := d\<rparr>)"
    and "t_take (recipients_t (gorm b)) w (db s) = (x1, d) \<Longrightarrow> effect (gorm b) rr s0 (s\<lparr>db := d\<rparr>)"
    and "t_take (messages_t (gorm b)) w' (db s) = (x1', d) \<Longrightarrow> effect (gorm b) rr s0 (s\<lparr>db := d\<rparr>)"
    and "max_seq (gorm b) w' (db s) = (x2, d) \<Longrightarrow> effect (gorm b) rr s0 (s\<lparr>db := d\<rparr>)"
    and "count_status (gorm b) (db s) = (x3, d) \<Longrightarrow> effect (gorm b) rr s0 (s\<lparr>db := d\<rparr>)"
proof -
  have go: "effect (gorm b) rr s0 (s\<lparr>db := d'\<rparr>)" if "same_rows mr rr (db s) d'" for d'
    by (rule effect_trans[OF assms(2) effect_same[OF that]])
  have law: "lawful (gorm b) mr rr" using assms(1) by (rule steady_lawful)
  show "t_find (recipients_t (gorm b)) w ord lim off (db s) = (x, d) \<Longrightarrow> effect (gorm b) rr s0 (s\<lparr>db := d\<rparr>)"
    and "t_find (messages_t (gorm b)) w' ord' lim off (db s) = (x', d) \<Longrightarrow> effect (gorm b) rr s0 (s\<lparr>db := d\<rparr>)"
    and "t_take (recipients_t (gorm b)) w (db s) = (x1, d) \<Longrightarrow> effect (gorm b) rr s0 (s\<lparr>db := d\<rparr>)"
    and "t_take (messages_t (gorm b)) w' (db s) = (x1', d) \<Longrightarrow> effect (gorm b) rr s0 (s\<lparr>db := d\<rparr>)"
    and "max_seq (gorm b) w' (db s) = (x2, d) \<Longrightarrow> effect (gorm b) rr s0 (s\<lparr>db := d\<rparr>)"
    and "count_status (gorm b) (db s) = (x3, d) \<Longrightarrow> effect (gorm b) rr s0 (s\<lparr>db := d\<rparr>)"
    using law unfolding lawful_def read_law_def by (metis go snd_conv)+
qed

text \<open>An update succeeds, and changes the rows it says.\<close>

lemma update_rows:
  assumes "steady b mr rr" and "update_recipients b w f s = (e, s')" and "\<And>x. w x \<Longrightarrow> kept x (f x)"
  shows "e = None \<and> (\<exists>d. s' = s\<lparr>db := d\<rparr> \<and> list_all2 kept (rr (db s)) (rr d) \<and>
    list_all2 (\<lambda>x y. if w x then written (f x) y else y = x) (rr (db s)) (rr d))"
proof -
  have law: "update_law (recipients_t (gorm b)) rr mr" and rel: "reliable (gorm b)"
    using assms(1) by (simp_all add: steady_def lawful_def)
  obtain n d where u: "t_update (recipients_t (gorm b)) w f (db s) = (Inr n, d)"
    using rel unfolding reliable_def by (metis prod.collapse)
  have rows: "list_all2 (\<lambda>x y. if w x then written (f x) y else y = x) (rr (db s)) (rr d)"
    using law[unfolded update_law_def, rule_format, of "db s" w f] u by simp
  moreover have "list_all2 kept (rr (db s)) (rr d)"
    using rows by (rule list.rel_mono_strong) (use assms(3) in \<open>auto simp: kept_def written_def split: if_splits\<close>)
  moreover have "e = None" "s' = s\<lparr>db := d\<rparr>" using assms(2) u by (simp_all add: update_recipients_def)
  ultimately show ?thesis by blast
qed

lemma effect_update:
  assumes "steady b mr rr" and "effect (gorm b) rr s0 s" and "update_recipients b w f s = (e, s')"
    and "\<And>x. w x \<Longrightarrow> kept x (f x)"
  shows "effect (gorm b) rr s0 s'"
  using update_rows[OF assms(1,3,4)] effect_trans[OF assms(2) effect_rows] by blast

lemma update_settled:
  assumes "steady b mr rr" and "update_recipients b (row_is b i u) f s = (e, s')"
    and "\<And>x. kept x (f x) \<and> 1 \<le> DR_Status (f x)"
  shows "no_pending (gorm b) i u (rr (db s'))"
proof -
  obtain d where d: "s' = s\<lparr>db := d\<rparr>" "list_all2 (\<lambda>x y. if row_is b i u x then written (f x) y else y = x) (rr (db s)) (rr d)"
    using update_rows[OF assms(1,2)] assms(3) by blast
  from d(2) have "\<forall>y \<in> set (rr d). pair_row (gorm b) i u y \<longrightarrow> 1 \<le> DR_Status y"
  proof (induction rule: list_all2_induct)
    case (Cons x xs y ys)
    have "pair_row (gorm b) i u y \<longrightarrow> 1 \<le> DR_Status y"
      using Cons(1) assms(3)[of x] by (auto simp: row_is_def pair_row_def written_def kept_def split: if_splits)
    with Cons(3) show ?case by simp
  qed simp
  then show ?thesis by (simp add: no_pending_def d(1))
qed

lemma mod_entry_db: "(mod_entry i u f s)\<lparr>db := d\<rparr> = mod_entry i u f (s\<lparr>db := d\<rparr>)"
  by (simp add: mod_entry_def)

text \<open>An entry and the rows of its pair are settled together.\<close>

lemma effect_both:
  assumes "steady b mr rr" and "update_recipients b (row_is b i u) f (mod_entry i u g s) = (e, s')"
    and "\<And>x. kept x (f x) \<and> 1 \<le> DR_Status (f x)"
  shows "effect (gorm b) rr s s' \<and> e = None"
proof -
  obtain d where d: "s' = (mod_entry i u g s)\<lparr>db := d\<rparr>" "list_all2 kept (rr (db s)) (rr d)" and e: "e = None"
    using update_rows[OF assms(1,2)] assms(3) by auto
  have "no_pending (gorm b) i u (rr (db (s\<lparr>db := d\<rparr>)))"
    using update_settled[OF assms] by (simp add: d(1))
  then have "effect (gorm b) rr (s\<lparr>db := d\<rparr>) s'" unfolding d(1) mod_entry_db by (rule effect_settle)
  with effect_rows[where d = d and g = "gorm b", OF d(2)] e show ?thesis using effect_trans by blast
qed

lemma effect_marks:
  assumes "steady b mr rr" and "persistent s"
  shows "effect (gorm b) rr s (snd (MarkDeliverySent b r i to err s))"
    and "effect (gorm b) rr s (snd (MarkDeliveryAcked b r i to s))"
    and "effect (gorm b) rr s (snd (MarkDeliveryRead b r i to s))"
proof -
  have entry: "effect (gorm b) rr s (mod_entry i to (\<lambda>e. e\<lparr>Retry := n e, LastSent := t\<rparr>) s)" for n t
    by (rule effect_entry) (simp add: undelivered_def)
  have "effect (gorm b) rr s (snd (update_recipients b w f (mod_entry i to (\<lambda>e. e\<lparr>Retry := n e, LastSent := t\<rparr>) s)))"
    if "\<And>x. kept x (f x)" for w f n t
    using effect_update[OF assms(1) entry surjective_pairing] that by blast
  then show "effect (gorm b) rr s (snd (MarkDeliverySent b r i to err s))"
    using entry by (simp add: MarkDeliverySent_def Let_def kept_def case_prod_beta)
  have both: "effect (gorm b) rr s (snd (case update_recipients b (row_is b i to) f (mod_entry i to g s) of
      (Some e, s2) \<Rightarrow> (Some (StoreDB e), s2) | (None, s2) \<Rightarrow> (None, del_keys b ks s2)))"
    if "\<And>x. kept x (f x) \<and> 1 \<le> DR_Status (f x)" for f g ks
    using effect_both[OF assms(1) _ that, where s = s] no_cache(3)[OF assms(1)] by (auto split: prod.split option.split)
  show "effect (gorm b) rr s (snd (MarkDeliveryAcked b r i to s))"
    using assms(2) unfolding MarkDeliveryAcked_def Let_def by (simp add: both kept_def)
  show "effect (gorm b) rr s (snd (MarkDeliveryRead b r i to s))"
    using assms(2) unfolding MarkDeliveryRead_def Let_def by (simp add: both kept_def)
qed

lemma effect_schedule_row:
  assumes "steady b mr rr" and "effect (gorm b) rr s0 s"
  shows "effect (gorm b) rr s0 (snd (schedule_row b i to t mx base now s))"
proof (cases "t_take (recipients_t (gorm b)) (row_is b i to) (db s)")
  case (Pair res d)
  have d: "effect (gorm b) rr s0 (s\<lparr>db := d\<rparr>)" by (rule effect_reads(3)[OF assms Pair])
  have "effect (gorm b) rr s0 (snd (case update_recipients b w f (s\<lparr>db := d\<rparr>) of
      (Some e, s2) \<Rightarrow> (g e, s2) | (None, s2) \<Rightarrow> (h, del_keys b ks s2)))"
    if "\<And>x. kept x (f x)" for w f ks and g :: "db_error \<Rightarrow> bool \<times> store_error option" and h
    using effect_update[OF assms(1) d] that no_cache(3)[OF assms(1)] by (auto split: prod.split option.split)
  with d show ?thesis
    by (auto simp: schedule_row_def bury_rows_def Let_def Pair kept_def split: sum.split)
qed

lemma effect_ScheduleRetry:
  assumes "steady b mr rr" and "persistent s"
  shows "effect (gorm b) rr s (snd (ScheduleRetry b r i to err mx base s))"
proof -
  have both: "effect (gorm b) rr s (snd (case update_recipients b (row_is b i to) f (mod_entry i to g s) of
      (Some e, s2) \<Rightarrow> ((True, Some (StoreDB e)), s2) | (None, s2) \<Rightarrow> ((True, None), del_keys b ks s2)))"
    if "\<And>x. kept x (f x) \<and> 1 \<le> DR_Status (f x)" for f g ks
    using effect_both[OF assms(1) _ that, where s = s] no_cache(3)[OF assms(1)] by (auto split: prod.split option.split)
  have row: "effect (gorm b) rr s (snd (schedule_row b i to t mx' base' now
      (mod_entry i to (\<lambda>e. e\<lparr>Retry := n, LastError := t, NextRetryAt := u\<rparr>) s)))" for t mx' base' now n u
    by (intro effect_schedule_row[OF assms(1)] effect_entry) (simp add: undelivered_def)
  show ?thesis
    using assms(2) both row unfolding ScheduleRetry_def bury_rows_def Let_def by (simp add: kept_def)
qed

text \<open>The scans open entries for rows they have just read.\<close>

lemma effect_row:
  "effect g rr s s' \<Longrightarrow> \<exists>x \<in> set (rr (db s)). pair_row g i u x \<Longrightarrow> \<exists>x \<in> set (rr (db s')). pair_row g i u x"
  unfolding effect_def using pair_row_kept by blast

lemma effect_SaveDelivery:
  assumes "steady b mr rr" and row: "\<exists>x \<in> set (rr (db s)). pair_row (gorm b) i to x"
  shows "effect (gorm b) rr s (snd (SaveDelivery b i to s))"
proof -
  let ?s = "saveDeliveryUnsafe i to s"
  have open_it: "effect (gorm b) rr s ?s" using row by (intro effect_open) simp
  obtain e d where ins: "t_create_ignore (recipients_t (gorm b)) (new_recipient i to) (db s) = (e, d)" by fastforce
  have law: "insert_law (recipients_t (gorm b)) rr mr (rec_clash (gorm b)) rec_stored"
    using steady_lawful[OF assms(1)] by (simp add: lawful_def)
  have "\<exists>x \<in> set (rr (db s)). rec_clash (gorm b) (new_recipient i to) x"
    using row by (auto simp: rec_clash_def new_recipient_def pair_row_def)
  then have "same_rows rr mr (db s) d"
    using law[unfolded insert_law_def, rule_format, of "db s" "new_recipient i to", unfolded ins]
    by (auto split: option.splits)
  then have "effect (gorm b) rr s (?s\<lparr>db := d\<rparr>)"
    using effect_trans[OF open_it effect_rows[of rr ?s d]] by (simp add: same_rows_def all_kept_refl)
  with open_it ins no_cache(3)[OF assms(1)] show ?thesis
    by (simp add: SaveDelivery_def Let_def split: option.split)
qed

lemma effect_save_rows:
  assumes "steady b mr rr" and "effect (gorm b) rr s0 s"
    and "\<forall>row \<in> set rows. \<exists>x \<in> set (rr (db s)). pair_row (gorm b) (DR_ServerMsgID row) (DR_ToUser row) x"
  shows "effect (gorm b) rr s0 (snd (save_rows b rows s))"
  using assms(2,3)
proof (induction rows arbitrary: s)
  case (Cons row rows)
  let ?s = "snd (SaveDelivery b (DR_ServerMsgID row) (DR_ToUser row) s)"
  have one: "effect (gorm b) rr s ?s" using Cons.prems(2) by (intro effect_SaveDelivery[OF assms(1)]) simp
  have "effect (gorm b) rr s0 (snd (save_rows b rows ?s))"
    using Cons.prems effect_row[OF one] by (intro Cons.IH effect_trans[OF Cons.prems(1) one]) auto
  then show ?case by (simp add: case_prod_beta)
qed simp

lemma found_rows:
  assumes "lawful (gorm b) mr rr" and "t_find (recipients_t (gorm b)) w ord lim None d0 = (Inr rows, d)"
  shows "set rows \<subseteq> set (filter w (rr d0)) \<and> rr d = rr d0"
proof -
  have "find_law (recipients_t (gorm b)) rr" and reads: "read_law (recipients_t (gorm b)) mr rr"
    using assms(1) by (simp_all add: lawful_def)
  from this(1)[unfolded find_law_def, rule_format, where w = w and ord = ord and lim = lim and d = d0 and out = rows]
  have "set rows \<subseteq> set (filter w (rr d0))" using assms(2) by simp
  moreover have "rr d = rr d0"
    using conjunct1[OF reads[unfolded read_law_def, rule_format, where w = w and ord = ord and lim = lim and off = None and d = d0]]
      assms(2) by (simp add: same_rows_def)
  ultimately show ?thesis by simp
qed

lemma own_pair: "lawful g mr rr \<Longrightarrow> pair_row g (DR_ServerMsgID x) (DR_ToUser x) x"
  by (simp add: pair_row_def coll_laws(1))

lemma effect_scan_rows:
  assumes "steady b mr rr"
  shows "effect (gorm b) rr s (snd (scan_rows b key w ord limit s))"
proof (cases "t_find (recipients_t (gorm b)) w ord (limit_clause limit) None (db s)")
  case (Pair res d)
  have read: "effect (gorm b) rr s (s\<lparr>db := d\<rparr>)" by (rule effect_reads(1)[OF assms effect_refl Pair])
  show ?thesis
  proof (cases res)
    case (Inr rows)
    from found_rows[OF steady_lawful[OF assms] Pair[unfolded Inr]] own_pair[OF steady_lawful[OF assms]]
    have "\<forall>row \<in> set rows. \<exists>x \<in> set (rr (db (s\<lparr>db := d\<rparr>))). pair_row (gorm b) (DR_ServerMsgID row) (DR_ToUser row) x"
      by auto
    from effect_save_rows[OF assms read this] Pair Inr show ?thesis
      by (simp add: scan_rows_def case_prod_beta no_cache[OF assms])
  qed (use read Pair in \<open>simp add: scan_rows_def\<close>)
qed

lemma effect_scans:
  assumes "steady b mr rr" and "persistent s"
  shows "effect (gorm b) rr s (snd (GetDueRetryServerMsgIDs b r n s))"
    and "effect (gorm b) rr s (snd (RecoverPendingServerMsgIDs b r n s))"
    and "effect (gorm b) rr s (snd (ListPendingServerMsgIDsByUser b r u n s))"
  using assms(2) by (simp_all add: GetDueRetryServerMsgIDs_def RecoverPendingServerMsgIDs_def
      ListPendingServerMsgIDsByUser_def Let_def no_cache[OF assms(1)] effect_scan_rows[OF assms(1)])

lemma effect_opens:
  assumes "effect g rr s0 s" and "\<forall>row \<in> set rows. \<exists>x \<in> set (rr (db s)). pair_row g (DR_ServerMsgID row) (DR_ToUser row) x"
  shows "effect g rr s0 (fold (\<lambda>row. saveDeliveryUnsafe (DR_ServerMsgID row) (DR_ToUser row)) rows s)"
  using assms
proof (induction rows arbitrary: s)
  case (Cons row rows)
  then have "effect g rr s (saveDeliveryUnsafe (DR_ServerMsgID row) (DR_ToUser row) s)"
    by (intro effect_open) simp
  from Cons.IH[OF effect_trans[OF Cons.prems(1) this]] Cons.prems(2) show ?case by simp
qed simp

lemma effect_GetRecipients:
  assumes "steady b mr rr" and "persistent s"
  shows "effect (gorm b) rr s (snd (GetRecipients b r i s))"
proof (cases "mem_recipients r s i = []")
  case True
  let ?w = "\<lambda>row. coll (gorm b) (DR_ServerMsgID row) i \<and> DR_Status row = 0"
  obtain res d where q: "t_find (recipients_t (gorm b)) ?w Unordered None None (db s) = (res, d)" by fastforce
  have read: "effect (gorm b) rr s (s\<lparr>db := d\<rparr>)" by (rule effect_reads(1)[OF assms(1) effect_refl q])
  show ?thesis
  proof (cases res)
    case (Inr rows)
    from found_rows[OF steady_lawful[OF assms(1)] q[unfolded Inr]] own_pair[OF steady_lawful[OF assms(1)]]
    have "\<forall>row \<in> set rows. \<exists>x \<in> set (rr (db (s\<lparr>db := d\<rparr>))). pair_row (gorm b) (DR_ServerMsgID row) (DR_ToUser row) x"
      by auto
    from read effect_opens[OF read this] q Inr True assms(2) show ?thesis
      by (simp add: GetRecipients_def Let_def no_cache[OF assms(1)])
  qed (use read q True assms(2) in \<open>simp add: GetRecipients_def no_cache[OF assms(1)]\<close>)
qed (simp add: GetRecipients_def Let_def)

lemma effect_message: "effect g rr s0 (saveMessageUnsafe m s) = effect g rr s0 s"
  by (simp add: effect_def)

lemma effect_lookups:
  assumes "steady b mr rr"
  shows "effect (gorm b) rr s (snd (NextSeq b c s))" and "effect (gorm b) rr s (snd (GetMessageByClientID b f k s))"
    and "effect (gorm b) rr s (snd (GetMessageByServerID b i s))" and "effect (gorm b) rr s (snd (DeliveryStats b s))"
proof -
  note reads = effect_reads[OF assms effect_refl]
  have seq: "effect g rr s0 (s\<lparr>nextSeq := q\<rparr>) = effect g rr s0 s"
    "effect g rr s0 (s\<lparr>nextSeq := q, db := d\<rparr>) = effect g rr s0 (s\<lparr>db := d\<rparr>)"
    for q d and s0 s :: "('a, 'b) store" and g
    by (simp_all add: effect_def find_entry_def)
  show "effect (gorm b) rr s (snd (NextSeq b c s))"
    using reads(5) by (auto simp: NextSeq_def Let_def seq split: prod.split sum.split)
  show "effect (gorm b) rr s (snd (GetMessageByClientID b f k s))"
    using reads(4) by (auto simp: GetMessageByClientID_def Let_def effect_message split: prod.split sum.split option.split)
  have dead: "effect (gorm b) rr s (markRecipientRowsDeadIfMessageMissing b i t (s\<lparr>db := d\<rparr>))"
    if "effect (gorm b) rr s (s\<lparr>db := d\<rparr>)" for i t d
    using that effect_update[OF assms that surjective_pairing]
    by (auto simp: markRecipientRowsDeadIfMessageMissing_def Let_def kept_def)
  show "effect (gorm b) rr s (snd (GetMessageByServerID b i s))"
    using reads(4) dead
    by (auto simp: GetMessageByServerID_def Let_def effect_message split: prod.split sum.split option.split db_error.split)
  show "effect (gorm b) rr s (snd (DeliveryStats b s))"
    using reads(6) by (auto simp: DeliveryStats_def split: prod.split sum.split)
qed

lemma effect_history:
  assumes "steady b mr rr"
  shows "effect (gorm b) rr s (snd (GetC2CHistory b r u v n s))"
proof -
  have rows: "effect (gorm b) rr s (s\<lparr>db := snd (history_rows b u v rows d)\<rparr>)" if "effect (gorm b) rr s (s\<lparr>db := d\<rparr>)" for rows d
    using that
  proof (induction rows arbitrary: d)
    case (Cons row rows)
    have "effect (gorm b) rr s (s\<lparr>db := snd (t_take (recipients_t (gorm b)) w d)\<rparr>)" for w
      using effect_reads(3)[OF assms Cons.prems, of w] by (simp add: prod_eq_iff)
    then show ?case using Cons.IH by (simp add: Let_def case_prod_beta)
  qed simp
  have find: "effect (gorm b) rr s (s\<lparr>db := snd (t_find (messages_t (gorm b)) w ord lim off (db s))\<rparr>)" for w ord lim off
    by (rule effect_reads(2)[OF assms effect_refl surjective_pairing])
  show ?thesis
    unfolding GetC2CHistory_def by (auto simp: case_prod_beta find split: sum.split intro!: rows)
qed

lemma effect_plain:
  assumes "steady b mr rr" and "persistent s" and "plain_call op"
  shows "effect (gorm b) rr s (exec_store b (r, op) s)"
  using assms(3)
  by (cases op) (simp_all add: effect_lookups[OF assms(1)] effect_GetRecipients[OF assms(1,2)] effect_marks[OF assms(1,2)]
      effect_ScheduleRetry[OF assms(1,2)] effect_scans[OF assms(1,2)] effect_history[OF assms(1)])

section \<open>The invariant\<close>

text \<open>Every pending row has its entry; an entry has a row, and is settled only when its rows are.\<close>

definition abreast :: "'d gorm_db \<Rightarrow> ('d \<Rightarrow> db_recipient list) \<Rightarrow> ('d, 'c) store \<Rightarrow> bool" where
  "abreast g rr s \<longleftrightarrow>
     (\<forall>x \<in> set (rr (db s)). DR_Status x = 0 \<longrightarrow> DR_ServerMsgID x \<noteq> [] \<longrightarrow> DR_ToUser x \<noteq> [] \<longrightarrow>
        find_entry s (DR_ServerMsgID x) (DR_ToUser x) \<noteq> None) \<and>
     (\<forall>i u e. find_entry s i u = Some e \<longrightarrow> u \<noteq> [] \<longrightarrow>
        (\<exists>x \<in> set (rr (db s)). pair_row g i u x) \<and> (undelivered e \<or> no_pending g i u (rr (db s))))"

lemma abreast_effect:
  assumes "effect g rr s s'" and "abreast g rr s"
  shows "abreast g rr s'"
proof -
  have k: "list_all2 kept (rr (db s)) (rr (db s'))" using assms(1) by (simp add: effect_def)
  have "find_entry s' (DR_ServerMsgID y) (DR_ToUser y) \<noteq> None"
    if y: "y \<in> set (rr (db s'))" "DR_Status y = 0" "DR_ServerMsgID y \<noteq> []" "DR_ToUser y \<noteq> []" for y
  proof -
    obtain x where "x \<in> set (rr (db s))" "kept x y" using kept_row(2)[OF k y(1)] by blast
    with y assms(2) have "find_entry s (DR_ServerMsgID y) (DR_ToUser y) \<noteq> None"
      unfolding abreast_def kept_def by metis
    then show ?thesis using assms(1) unfolding effect_def by blast
  qed
  moreover have "(\<exists>x \<in> set (rr (db s')). pair_row g i u x) \<and> (undelivered e' \<or> no_pending g i u (rr (db s')))"
    if e': "find_entry s' i u = Some e'" "u \<noteq> []" for i u e'
  proof (cases "find_entry s i u")
    case None
    with assms(1) e' show ?thesis unfolding effect_def by fastforce
  next
    case (Some e)
    with assms(2) e'(2) have "\<exists>x \<in> set (rr (db s)). pair_row g i u x" "undelivered e \<or> no_pending g i u (rr (db s))"
      unfolding abreast_def by blast+
    moreover have "undelivered e' \<or> no_pending g i u (rr (db s')) \<or> \<not> undelivered e"
      using assms(1) e' Some unfolding effect_def by fastforce
    ultimately show ?thesis using no_pending_kept[OF k] pair_row_kept[OF k] by blast
  qed
  ultimately show ?thesis unfolding abreast_def by blast
qed

text \<open>The rows a save adds.\<close>

lemma insert_new:
  assumes "lawful g mr rr" and "t_create_ignore (recipients_t g) (new_recipient i to) d = (None, d')"
  shows "\<exists>xs. rr d' = rr d @ xs \<and> (\<exists>x \<in> set (rr d'). pair_row g i to x) \<and>
    (\<forall>x \<in> set xs. DR_ServerMsgID x = i \<and> DR_ToUser x = to \<and> (\<forall>y \<in> set (rr d). \<not> pair_row g i to y))"
proof -
  have law: "insert_law (recipients_t g) rr mr (rec_clash g) rec_stored" using assms(1) by (simp add: lawful_def)
  note ins = law[unfolded insert_law_def, rule_format, of d "new_recipient i to", unfolded assms(2)]
  have clash: "rec_clash g (new_recipient i to) x = pair_row g i to x" for x
    by (simp add: rec_clash_def new_recipient_def pair_row_def)
  show ?thesis
  proof (cases "\<exists>x \<in> set (rr d). pair_row g i to x")
    case True
    with ins have "rr d' = rr d @ []" by (simp add: clash same_rows_def)
    with True show ?thesis by (intro exI[of _ "[]"]) simp
  next
    case False
    with ins obtain x where x: "rec_stored (new_recipient i to) x" "rr d' = rr d @ [x]" by (auto simp: clash)
    then have "DR_ServerMsgID x = i" "DR_ToUser x = to" by (auto simp: rec_stored_def new_recipient_def)
    moreover from this have "pair_row g i to x" using own_pair[OF assms(1), of x] by simp
    ultimately show ?thesis using x(2) False by (intro exI[of _ "[x]"]) simp
  qed
qed

lemma inserted_rows:
  assumes "lawful (gorm b) mr rr" and "insert_recipients b i tos d = (None, d')"
  shows "\<exists>xs. rr d' = rr d @ xs \<and> (\<forall>to \<in> set tos. to \<noteq> [] \<longrightarrow> (\<exists>x \<in> set (rr d'). pair_row (gorm b) i to x)) \<and>
    (\<forall>x \<in> set xs. DR_ServerMsgID x = i \<and> DR_ToUser x \<in> set tos \<and>
      (\<forall>y \<in> set (rr d). \<not> pair_row (gorm b) i (DR_ToUser x) y))"
  using assms(2)
proof (induction tos arbitrary: d)
  case (Cons to tos)
  show ?case
  proof (cases "to = []")
    case True
    with Cons.prems have rest: "insert_recipients b i tos d = (None, d')" by simp
    obtain xs where "rr d' = rr d @ xs" "\<forall>to \<in> set tos. to \<noteq> [] \<longrightarrow> (\<exists>x \<in> set (rr d'). pair_row (gorm b) i to x)"
      "\<forall>x \<in> set xs. DR_ServerMsgID x = i \<and> DR_ToUser x \<in> set tos \<and> (\<forall>y \<in> set (rr d). \<not> pair_row (gorm b) i (DR_ToUser x) y)"
      using Cons.IH[OF rest] by blast
    with True show ?thesis by (intro exI[of _ xs]) simp
  next
    case False
    obtain e d1 where c: "t_create_ignore (recipients_t (gorm b)) (new_recipient i to) d = (e, d1)" by fastforce
    with Cons.prems False have e: "e = None" and rest: "insert_recipients b i tos d1 = (None, d')" by (cases e; simp)+
    obtain ys where ys: "rr d1 = rr d @ ys" "\<exists>x \<in> set (rr d1). pair_row (gorm b) i to x"
      "\<forall>x \<in> set ys. DR_ServerMsgID x = i \<and> DR_ToUser x = to \<and> (\<forall>y \<in> set (rr d). \<not> pair_row (gorm b) i to y)"
      using insert_new[OF assms(1) c[unfolded e]] by blast
    obtain xs where xs: "rr d' = rr d1 @ xs" "\<forall>to \<in> set tos. to \<noteq> [] \<longrightarrow> (\<exists>x \<in> set (rr d'). pair_row (gorm b) i to x)"
      "\<forall>x \<in> set xs. DR_ServerMsgID x = i \<and> DR_ToUser x \<in> set tos \<and> (\<forall>y \<in> set (rr d1). \<not> pair_row (gorm b) i (DR_ToUser x) y)"
      using Cons.IH[OF rest] by blast
    show ?thesis
      by (rule exI[of _ "ys @ xs"]) (use xs ys in auto)
  qed
qed simp

lemma saved_rows_new:
  assumes "lawful (gorm b) mr rr" and "save_tx b m rs d = (None, d')"
  shows "\<exists>xs. rr d' = rr d @ xs \<and>
    (\<forall>to \<in> set rs. to \<noteq> [] \<longrightarrow> (\<exists>x \<in> set (rr d'). pair_row (gorm b) (ServerMsgID m) to x)) \<and>
    (\<forall>x \<in> set xs. DR_ServerMsgID x = ServerMsgID m \<and> DR_ToUser x \<in> set rs \<and>
      (\<forall>y \<in> set (rr d). \<not> pair_row (gorm b) (ServerMsgID m) (DR_ToUser x) y))"
proof -
  let ?body = "\<lambda>d. case t_create_ignore (messages_t (gorm b)) (toDBMessage m) d of
      (Some e, d') \<Rightarrow> (Some e, d') | (None, d') \<Rightarrow> insert_recipients b (ServerMsgID m) rs d'"
  have tx: "tx_law (gorm b) mr rr" and ins: "insert_law (messages_t (gorm b)) mr rr (msg_clash (gorm b)) msg_stored"
    using assms(1) by (simp_all add: lawful_def)
  obtain d1 where d1: "?body d = (None, d1)" "same_rows mr rr d1 d'"
    using tx[unfolded tx_law_def, rule_format, of ?body d, unfolded assms(2)[unfolded save_tx_def]]
    by (simp only: prod.case option.case) blast
  obtain e d2 where c: "t_create_ignore (messages_t (gorm b)) (toDBMessage m) d = (e, d2)" by fastforce
  with d1(1) have e: "e = None" and rest: "insert_recipients b (ServerMsgID m) rs d2 = (None, d1)" by (cases e; simp)+
  have "rr d2 = rr d"
    using ins[unfolded insert_law_def, rule_format, of d "toDBMessage m", unfolded c e]
    by (auto simp: same_rows_def split: if_splits)
  with inserted_rows[OF assms(1) rest] d1(2) show ?thesis by (simp add: same_rows_def)
qed

lemma abreast_save:
  assumes "steady b mr rr" and "persistent s" and inv: "abreast (gorm b) rr s"
  shows "abreast (gorm b) rr (snd (SaveMessageWithRecipients b (Some m) rs s))"
proof (cases "ServerMsgID m = []")
  case False
  let ?i = "ServerMsgID m"
  have law: "lawful (gorm b) mr rr" by (rule steady_lawful[OF assms(1)])
  obtain res d where tx: "save_tx b m rs (db s) = (res, d)" by fastforce
  show ?thesis
  proof (cases res)
    case (Some e)
    have "tx_law (gorm b) mr rr" using law by (simp add: lawful_def)
    then have "same_rows mr rr (db s) d"
      using tx Some unfolding tx_law_def save_tx_def by (metis (mono_tags, lifting) case_prod_conv option.simps(5))
    from abreast_effect[OF effect_same[OF this] inv] tx Some False assms(2) show ?thesis
      by (simp add: SaveMessageWithRecipients_def Let_def)
  next
    case None
    let ?s' = "snd (SaveMessageWithRecipients b (Some m) rs s)"
    obtain xs where xs: "rr d = rr (db s) @ xs" "\<forall>to \<in> set rs. to \<noteq> [] \<longrightarrow> (\<exists>x \<in> set (rr d). pair_row (gorm b) ?i to x)"
      "\<forall>x \<in> set xs. DR_ServerMsgID x = ?i \<and> DR_ToUser x \<in> set rs \<and> (\<forall>y \<in> set (rr (db s)). \<not> pair_row (gorm b) ?i (DR_ToUser x) y)"
      using saved_rows_new[OF law tx[unfolded None]] by blast
    have s': "?s' = fold (saveDeliveryUnsafe ?i) rs (saveMessageUnsafe m (s\<lparr>db := d, cache := cache_saved b m rs (cache s)\<rparr>))"
      using tx None False assms(2) by (simp add: SaveMessageWithRecipients_def Let_def)
    have db': "db ?s' = d" unfolding s' by simp
    have entry: "find_entry ?s' j u = (if j = ?i \<and> u \<in> set rs \<and> find_entry s j u = None then Some (new_entry u)
        else find_entry s j u)" for j u
    proof -
      have "find_entry (s\<lparr>db := d, cache := c\<rparr>) j u = find_entry s j u" for c by (simp add: find_entry_def)
      then show ?thesis unfolding s' by (auto simp: find_entry_fold_saveDelivery)
    qed
    have one: "find_entry ?s' (DR_ServerMsgID x) (DR_ToUser x) \<noteq> None"
      if "x \<in> set (rr d)" "DR_Status x = 0" "DR_ServerMsgID x \<noteq> []" "DR_ToUser x \<noteq> []" for x
      using that xs(1,3) inv unfolding entry abreast_def by auto
    have two: "(\<exists>x \<in> set (rr d). pair_row (gorm b) j u x) \<and> (undelivered e \<or> no_pending (gorm b) j u (rr d))"
      if e: "find_entry ?s' j u = Some e" "u \<noteq> []" for j u e
    proof (cases "find_entry s j u")
      case None
      with e have "j = ?i" "u \<in> set rs" "e = new_entry u" by (auto simp: entry split: if_splits)
      with xs(2) e(2) show ?thesis by (auto simp: new_entry_def undelivered_def)
    next
      case (Some e0)
      with e have e0: "e0 = e" by (simp add: entry)
      from inv Some e(2) obtain y where y: "y \<in> set (rr (db s))" "pair_row (gorm b) j u y"
        and or: "undelivered e \<or> no_pending (gorm b) j u (rr (db s))" unfolding abreast_def e0 by blast
      have "\<not> pair_row (gorm b) j u x" if x: "x \<in> set xs" for x
      proof
        assume "pair_row (gorm b) j u x"
        with y(2) xs(3) x have "pair_row (gorm b) ?i (DR_ToUser x) y"
          unfolding pair_row_def by (metis coll_laws(2,3)[OF law])
        with xs(3) x y(1) show False by blast
      qed
      with y or show ?thesis by (auto simp: xs(1) no_pending_def)
    qed
    show ?thesis using one two unfolding abreast_def db' by blast
  qed
qed (use inv in \<open>simp add: SaveMessageWithRecipients_def\<close>)

lemma abreast_numbered_save:
  assumes "steady b mr rr" and "persistent s" and "abreast (gorm b) rr s"
  shows "abreast (gorm b) rr (snd (SaveMessageWithRecipients b (Some m) rs (snd (NextSeq b c s))))"
  using assms NextSeq_frame[of b c s] abreast_effect[OF effect_lookups(1)[OF assms(1)] assms(3)]
  by (intro abreast_save[OF assms(1)]) simp_all

lemma abreast_touch:
  assumes "steady b mr rr" and "accounts_law (gorm b) mr rr" and "touch b s s'" and "persistent s" and inv: "abreast (gorm b) rr s"
  shows "abreast (gorm b) rr s'"
proof -
  have read: "abreast (gorm b) rr (s\<lparr>db := d\<rparr>)" if "same_rows mr rr (db s) d" for d
    by (rule abreast_effect[OF effect_same[OF that] inv])
  show ?thesis
    using assms(3)
  proof (cases rule: touch.cases)
    case (store_call x)
    have "abreast (gorm b) rr (exec_store b (fst x, snd x) s)"
      by (rule abreast_effect[OF effect_plain[OF assms(1,4) store_call(2)] inv])
    then show ?thesis by (simp add: store_call(1) call_InMemoryStore)
  next
    case (send_access l r req rs)
    obtain res l1 where c: "send_check (InMemoryStore b) r req l = (res, l1)" by fastforce
    have "abreast (gorm b) rr (snd (GetMessageByClientID b f k s))" for f k
      by (rule abreast_effect[OF effect_lookups(2)[OF assms(1)] inv])
    moreover have "persistent (snd (GetMessageByClientID b f k s))" for f k
      using persistent_exec[of b r "OpByClient f k" s] assms(4) by simp
    ultimately have l1: "abreast (gorm b) rr (l_store l1)" "persistent (l_store l1)"
      using check_store[OF c] inv assms(4) send_access(1) by auto
    show ?thesis
    proof (cases res)
      case (Inr q)
      have "abreast (gorm b) rr (l_store (snd (send_commit (InMemoryStore b) r q rs l1)))"
        using commit_access[of q b r rs l1] abreast_numbered_save[OF assms(1) l1(2,1)] by auto
      then show ?thesis using c Inr send_access(2) by (simp add: ProcessSend_def)
    qed (use c l1 send_access(2) in \<open>simp add: ProcessSend_def\<close>)
  next
    case (event_access l r body rs)
    then show ?thesis
      using Lifetimes.event_access[of b r body rs l] abreast_numbered_save[OF assms(1,4) inv] by auto
  next
    case (keys c)
    then show ?thesis using abreast_effect[OF effect_memory inv] by simp
  qed (use assms(2) read in \<open>simp_all add: accounts_law_def\<close>)
qed

interpretation side_by_side: lasting b "\<lambda>s. steady b mr rr \<and> accounts_law (gorm b) mr rr \<longrightarrow>
    persistent s \<and> abreast (gorm b) rr s" for b mr rr
proof
  fix s s' :: "('a, 'b) store"
  assume t: "touch b s s'" and inv: "steady b mr rr \<and> accounts_law (gorm b) mr rr \<longrightarrow> persistent s \<and> abreast (gorm b) rr s"
  show "steady b mr rr \<and> accounts_law (gorm b) mr rr \<longrightarrow> persistent s' \<and> abreast (gorm b) rr s'"
    using inv abreast_touch[OF _ _ t] touches_persistent[OF r_into_rtranclp, OF t] by blast
qed

text \<open>At the start, the recovery opens an entry for every pending row, up to its limit of 2000.\<close>

lemma save_rows_entries:
  assumes "steady b mr rr"
    and "\<forall>row \<in> set rows. \<exists>x \<in> set (rr (db s)). pair_row (gorm b) (DR_ServerMsgID row) (DR_ToUser row) x"
    and "row \<in> set rows" "DR_ServerMsgID row \<noteq> []" "DR_ToUser row \<noteq> []"
  shows "find_entry (snd (save_rows b rows s)) (DR_ServerMsgID row) (DR_ToUser row) \<noteq> None"
  using assms(2,3)
proof (induction rows arbitrary: s)
  case (Cons x rows)
  let ?s = "snd (SaveDelivery b (DR_ServerMsgID x) (DR_ToUser x) s)"
  have one: "effect (gorm b) rr s ?s" using Cons.prems(1) by (intro effect_SaveDelivery[OF assms(1)]) simp
  have rest: "\<forall>row \<in> set rows. \<exists>x \<in> set (rr (db ?s)). pair_row (gorm b) (DR_ServerMsgID row) (DR_ToUser row) x"
    using Cons.prems(1) effect_row[OF one] by auto
  show ?case
  proof (cases "row = x")
    case True
    have "find_entry ?s (DR_ServerMsgID x) (DR_ToUser x) \<noteq> None"
      using True assms(4,5)
      by (auto simp: SaveDelivery_def Let_def no_cache(3)[OF assms(1)] find_entry_saveDeliveryUnsafe
          split: option.split prod.split)
    moreover have "effect (gorm b) rr ?s (snd (save_rows b rows ?s))"
      by (rule effect_save_rows[OF assms(1) effect_refl rest])
    ultimately show ?thesis using True unfolding effect_def by (auto simp: case_prod_beta)
  next
    case False
    with Cons.prems(2) Cons.IH[OF rest] show ?thesis by (simp add: case_prod_beta)
  qed
qed simp

lemma abreast_boot:
  assumes "steady b mr rr" and up: "answers (gorm b) d"
    and few: "length (filter (\<lambda>x. DR_Status x = 0) (rr d)) \<le> 2000"
  shows "abreast (gorm b) rr (store_of (boot e True d c now b r))"
proof -
  let ?n = "NewInMemoryStore True d c" and ?w = "\<lambda>x. DR_Status x = 0" and ?ord = "Asc (\<lambda>row. int (DR_ID row))"
  have law: "lawful (gorm b) mr rr" by (rule steady_lawful[OF assms(1)])
  have boot: "store_of (boot e True d c now b r) = snd (RecoverPendingServerMsgIDs b r 2000 ?n)"
    by (simp add: boot_def Start_def SetWorker_def NewServer_def newLogicService_def case_prod_beta
        RecoverPendingDeliveries_def InMemoryStore_def)
  have n: "db ?n = d" "persistent ?n" "find_entry ?n i u = None" for i u
    by (simp_all add: NewInMemoryStore_def find_entry_def)
  obtain rows d' where q: "t_find (recipients_t (gorm b)) ?w ?ord (limit_clause 2000) None d = (Inr rows, d')"
    using up unfolding answers_def by (metis prod.collapse)
  have "find_law (recipients_t (gorm b)) rr" using law by (simp add: lawful_def)
  from this[unfolded find_law_def, rule_format, where w = ?w and ord = ?ord and lim = "limit_clause 2000" and d = d and out = rows]
  have rows: "set rows = set (filter ?w (rr d))" using q few by (simp add: limit_clause_def)
  have d': "rr d' = rr d" using found_rows[OF law q] by simp
  have recover: "snd (RecoverPendingServerMsgIDs b r 2000 ?n) = snd (save_rows b rows (?n\<lparr>db := d'\<rparr>))"
  proof -
    have "db (?n\<lparr>cache := cache ?n\<rparr>) = d" using n(1) by simp
    then show ?thesis using q n(1,2)
      by (simp add: RecoverPendingServerMsgIDs_def no_cache[OF assms(1)] scan_rows_def case_prod_beta)
  qed
  let ?s = "snd (save_rows b rows (?n\<lparr>db := d'\<rparr>))"
  have own: "\<forall>row \<in> set rows. \<exists>x \<in> set (rr (db (?n\<lparr>db := d'\<rparr>))). pair_row (gorm b) (DR_ServerMsgID row) (DR_ToUser row) x"
    using rows own_pair[OF law] by (auto simp: d')
  have eff: "effect (gorm b) rr (?n\<lparr>db := d'\<rparr>) ?s" by (rule effect_save_rows[OF assms(1) effect_refl own])
  have "find_entry ?s (DR_ServerMsgID y) (DR_ToUser y) \<noteq> None"
    if y: "y \<in> set (rr (db ?s))" "DR_Status y = 0" "DR_ServerMsgID y \<noteq> []" "DR_ToUser y \<noteq> []" for y
  proof -
    have "list_all2 kept (rr d) (rr (db ?s))" using eff by (simp add: effect_def d')
    then obtain x where "x \<in> set (rr d)" "kept x y" using kept_row(2) y(1) by blast
    with y rows have "x \<in> set rows" "DR_ServerMsgID x = DR_ServerMsgID y" "DR_ToUser x = DR_ToUser y"
      by (simp_all add: kept_def)
    with y show ?thesis using save_rows_entries[OF assms(1) own, of x] by simp
  qed
  moreover have "(\<exists>x \<in> set (rr (db ?s)). pair_row (gorm b) i u x) \<and> (undelivered e \<or> no_pending (gorm b) i u (rr (db ?s)))"
    if "find_entry ?s i u = Some e" "u \<noteq> []" for i u e
    using eff that n(3) unfolding effect_def by fastforce
  ultimately show ?thesis unfolding boot recover abreast_def by blast
qed

section \<open>Property\<close>

lemma abreast_returned:
  assumes "lawful (gorm b) mr rr" and inv: "abreast (gorm b) rr s" and "range_ok r"
    and x: "x \<in> set (rr (db s))" "DR_Status x = 0" "DR_ServerMsgID x \<noteq> []" "DR_ToUser x \<noteq> []"
  shows "DR_ToUser x \<in> set (fst (GetRecipients b r (DR_ServerMsgID x) s))"
proof -
  obtain en where en: "find_entry s (DR_ServerMsgID x) (DR_ToUser x) = Some en"
    "undelivered en \<or> no_pending (gorm b) (DR_ServerMsgID x) (DR_ToUser x) (rr (db s))"
    using x inv unfolding abreast_def by blast
  have "undelivered en"
    using en(2) x(1,2) own_pair[OF assms(1), of x] by (auto simp: no_pending_def)
  with en(1) have "DR_ToUser x \<in> set (mem_recipients r s (DR_ServerMsgID x))"
    by (simp add: set_mem_recipients[OF assms(3)])
  then show ?thesis by (auto simp: GetRecipients_def Let_def)
qed

lemma reachable_abreast:
  assumes "steady b mr rr" and "accounts_law (gorm b) mr rr" and "reachable b e True d0 c0 y"
    and "answers (gorm b) d0" and "length (filter (\<lambda>x. DR_Status x = 0) (rr d0)) \<le> 2000"
  shows "abreast (gorm b) rr (store_of y)" "persistent (store_of y)"
proof -
  obtain now r0 where run: "(step b e)\<^sup>*\<^sup>* (boot e True d0 c0 now b r0) y"
    using assms(3) by (auto simp: reachable_def)
  show "abreast (gorm b) rr (store_of y)" "persistent (store_of y)"
    using side_by_side.steps_keep[OF run, of mr rr] assms(1,2) abreast_boot[OF assms(1,4,5), of e c0 now r0]
      touches_persistent[OF touches_boot[where e = e and p = True and d = d0 and c = c0 and now = now and r = r0 and b = b]]
    by (simp_all add: NewInMemoryStore_def)
qed

text \<open>
  C24: no pending recipient is left out. In a process that started with at most 2000 pending rows,
  without a cache and on a database that answers its queries, every recipient whose row is pending is among
  those the store returns for the message, in every reachable state: what the store has in memory
  never hides a delivery that is still to be made. The states are those between events: a call of the
  store is completed before the next begins.
\<close>

theorem pending_recipients_returned:
  assumes "steady b mr rr" and "accounts_law (gorm b) mr rr" and "reachable b e True d0 c0 y"
    and "answers (gorm b) d0" and "length (filter (\<lambda>x. DR_Status x = 0) (rr d0)) \<le> 2000" and "range_ok r"
    and x: "x \<in> set (rr (db (store_of y)))" "DR_Status x = 0" "DR_ServerMsgID x \<noteq> []" "DR_ToUser x \<noteq> []"
  shows "DR_ToUser x \<in> set (fst (GetRecipients b r (DR_ServerMsgID x) (store_of y)))"
  by (rule abreast_returned[OF steady_lawful[OF assms(1)] reachable_abreast(1)[OF assms(1-5)] assms(6) x])

section \<open>An instance\<close>

text \<open>A process without a cache, on the tables with ann's message to bob, after an attempt to deliver it.\<close>

definition plain_backend :: "(tables, (string \<times> string) list) backend" where
  "plain_backend = sample_backend\<lparr>client := None\<rparr>"

lemma steady_plain: "steady plain_backend msg_rows recip_rows" "accounts_law (gorm plain_backend) msg_rows recip_rows"
  "answers (gorm plain_backend) d"
proof -
  have g: "gorm plain_backend = gorm sample_backend" by (simp add: plain_backend_def)
  have "reliable (gorm sample_backend)"
    by (simp add: reliable_def sample_backend_def sample_db_def list_table_def Let_def)
  then show "steady plain_backend msg_rows recip_rows"
    using lawful_backend unfolding steady_def g by (simp add: plain_backend_def)
  show "accounts_law (gorm plain_backend) msg_rows recip_rows" unfolding g by (rule accounts_backend)
  show "answers (gorm plain_backend) d" unfolding g by (rule answers_sample)
qed

lemma attempt_few: "length (filter (\<lambda>x. DR_Status x = 0) (recip_rows (db (store_of after_attempt)))) \<le> 2000"
proof -
  have "length (filter (\<lambda>x. DR_Status x = 0) (recip_rows (db (store_of after_attempt)))) \<le>
      length (map DR_Status (recip_rows (db (store_of after_attempt))))" by simp
  also have "\<dots> \<le> 2000" by (simp only: attempt_rows) simp
  finally show ?thesis .
qed

definition plain_process :: "(tables, (string \<times> string) list) sys" where
  "plain_process = exec_event sample_ext plain_backend (\<lambda>_. sample_rt 3) Deliver
     (boot [] True (db (store_of after_attempt)) [] 0 plain_backend (sample_rt 0))"

lemma plain_reachable: "reachable plain_backend [] True (db (store_of after_attempt)) [] plain_process"
proof -
  have "step plain_backend [] (boot [] True (db (store_of after_attempt)) [] 0 plain_backend (sample_rt 0)) plain_process"
    unfolding plain_process_def by (rule step_event) (simp_all add: valid_event_def sample_ext_def)
  then show ?thesis unfolding reachable_def by blast
qed

theorem pending_recipients_returned_witness:
  "\<exists>x. x \<in> set (recip_rows (db (store_of plain_process))) \<and> DR_Status x = 0 \<and>
     DR_ToUser x \<in> set (fst (GetRecipients plain_backend (sample_rt 9) (DR_ServerMsgID x) (store_of plain_process)))"
proof -
  have "map (\<lambda>x. (DR_ServerMsgID x, DR_ToUser x, DR_Status x)) (recip_rows (db (store_of plain_process))) =
      [(''s-0-1'', ''bob'', 0)]" by code_simp
  then obtain x where x: "x \<in> set (recip_rows (db (store_of plain_process)))" "DR_Status x = 0"
    "DR_ServerMsgID x = ''s-0-1''" "DR_ToUser x = ''bob''" by (auto simp: map_eq_Cons_conv)
  from x attempt_few range_ok_sample
    pending_recipients_returned[OF steady_plain(1,2) plain_reachable steady_plain(3), of "sample_rt 9" x]
  show ?thesis by auto
qed

section \<open>Beyond the limit of the recovery\<close>

text \<open>
  The bound on the number of pending rows is needed. When the recovery has not opened the entries of
  a message, because its rows were beyond the limit, the table is asked and gives all recipients;
  but as soon as one of them has come on line, his entry is in memory, and the other pending
  recipient is no longer returned.
\<close>

definition two_pending :: tables where
  "two_pending = no_tables\<lparr>recip_rows :=
     [(new_recipient ''s-1'' ''bob'')\<lparr>DR_ID := 1\<rparr>, (new_recipient ''s-1'' ''eve'')\<lparr>DR_ID := 2\<rparr>]\<rparr>"

theorem entry_hides_other_recipient:
  "let s = NewInMemoryStore True two_pending [];
       s1 = snd (ListPendingServerMsgIDsByUser plain_backend (sample_rt 0) ''bob'' 500 s)
   in fst (GetRecipients plain_backend (sample_rt 0) ''s-1'' s) = [''bob'', ''eve''] \<and>
      fst (GetRecipients plain_backend (sample_rt 0) ''s-1'' s1) = [''bob''] \<and>
      map DR_Status (recip_rows (db s1)) = [0, 0]"
  by code_simp

end
