(* ===== verification/Sign_In.thy ===== *)
theory Sign_In
  imports Pending_Rows Chat_Props "HOL-Library.Sublist"
begin

text \<open>
  What signing in does for the messages that wait in the table. A line that makes a connection
  authenticated is a sequence of queries on the accounts, the entry itself, and an answer; the
  entry queues what the table lists as pending for the name.
\<close>

section \<open>The accounts leave the rest alone\<close>

interpretation aside: account_client b "\<lambda>s. accounts_law (gorm b) mr rr \<longrightarrow> same_rows mr rr d (db s) \<and> persistent s = p"
  for b mr rr d p
  by unfold_locales (simp_all add: accounts_law_def same_rows_def)

text \<open>Everything but the accounts and the cache is the same.\<close>

definition beside :: "('d \<Rightarrow> db_message list) \<Rightarrow> ('d \<Rightarrow> db_recipient list) \<Rightarrow> ('d, 'c) sys \<Rightarrow> ('d, 'c) sys \<Rightarrow> bool" where
  "beside mr rr y z \<longleftrightarrow> conns z = conns y \<and> srv_worker (im_srv z) = srv_worker (im_srv y) \<and>
     OnlineMap (im_srv z) = OnlineMap (im_srv y) \<and> same_rows mr rr (db (store_of y)) (db (store_of z)) \<and>
     persistent (store_of z) = persistent (store_of y) \<and> (sys_inv y \<longrightarrow> sys_inv z)"

lemma beside_refl [simp]: "beside mr rr y y"
  by (simp add: beside_def same_rows_def)

lemma beside_trans: "beside mr rr x y \<Longrightarrow> beside mr rr y z \<Longrightarrow> beside mr rr x z"
  by (simp add: beside_def same_rows_def)

lemma beside_on_store:
  assumes "same_rows mr rr (db (store_of y)) (db (snd (g (store_of y)))) \<and> persistent (snd (g (store_of y))) = persistent (store_of y)"
    and "\<And>s. store_wf s \<Longrightarrow> store_wf (snd (g s))"
  shows "beside mr rr y (snd (on_store g y))"
proof -
  have "sys_inv (snd (on_store g y))" if "sys_inv y" using that assms(2) by (rule sys_inv_on_store)
  with assms(1) show ?thesis by (simp add: beside_def on_store_eq)
qed

lemma beside_accounts:
  assumes "accounts_law (gorm b) mr rr"
  shows "beside mr rr y (snd (on_store (GetUserByName b j n) y))"
    and "beside mr rr y (snd (on_store (CreateUser b j u) y))"
    and "beside mr rr y (snd (on_store (UpdateUserStatus b n st) y))"
  using assms aside.accounts[where b = b and mr = mr and rr = rr and d = "db (store_of y)" and
      p = "persistent (store_of y)" and s = "store_of y"]
  by (intro beside_on_store dao_frame; simp add: same_rows_def)+

section \<open>An entry\<close>

lemma Login_enters:
  assumes "accounts_law (gorm b) mr rr" and "Login x b rs c n pw y = (None, z)"
  shows "\<exists>rs' y1. TrimSpace n \<noteq> [] \<and> beside mr rr y y1 \<and> beside mr rr (enter x b rs' c (TrimSpace n) y1) z"
proof -
  let ?get = "snd (on_store (GetUserByName b (x_user_json x) (TrimSpace n)) y)"
  have "TrimSpace n \<noteq> []" and z: "z = login_commit x b (\<lambda>k. rs (Suc k)) c (TrimSpace n) ?get"
    using assms(2) by (auto simp: Login_def login_check_def split: prod.splits sum.splits if_splits)
  moreover have "beside mr rr y ?get" by (rule beside_accounts(1)[OF assms(1)])
  ultimately show ?thesis using beside_accounts(3)[OF assms(1)] unfolding z login_commit_def by blast
qed

lemma Register_enters:
  assumes "accounts_law (gorm b) mr rr" and "Register x b rs c n pw y = (None, z)"
  shows "\<exists>rs' y1. TrimSpace n \<noteq> [] \<and> beside mr rr y y1 \<and> beside mr rr (enter x b rs' c (TrimSpace n) y1) z"
proof -
  let ?get = "snd (on_store (GetUserByName b (x_user_json x) (TrimSpace n)) y)"
  obtain hash where "TrimSpace n \<noteq> []" and z: "z = enter x b (\<lambda>k. rs (Suc k)) c (TrimSpace n)
      (snd (on_store (CreateUser b (x_user_json x) (Some (new_user (TrimSpace n) hash))) ?get))"
    using assms(2) unfolding Register_def Let_def case_prod_beta by (auto split: sum.splits if_splits option.splits)
  moreover have "beside mr rr y (snd (on_store (CreateUser b (x_user_json x) (Some (new_user (TrimSpace n) hash))) ?get))"
    using beside_accounts(1,2)[OF assms(1)] beside_trans by blast
  ultimately show ?thesis unfolding z by (metis beside_refl)
qed

text \<open>A line that signs its connection in.\<close>

lemma line_enters:
  assumes laws: "accounts_law (gorm b) mr rr" and "c < length (conns y)"
    and before: "\<not> Authenticated (the_user y c)" and after: "Authenticated (the_user z c)"
    and z: "z = snd (manager_round x b rs c l y)"
  shows "\<exists>rs' n y1 z1 m. n \<noteq> [] \<and> beside mr rr y y1 \<and> beside mr rr (enter x b rs' c n y1) z1 \<and> z = SendMsg c m z1"
proof -
  let ?y = "on_srv markInboundMessage y"
  have mark: "beside mr rr y ?y" by (simp add: beside_def same_rows_def) (simp add: markInboundMessage_def)
  have same: "Authenticated (the_user (SendMsg c m v) c) = Authenticated (the_user v c)" if "length (conns v) = length (conns y)" for m v
    using idents_fields(3)[OF idents_SendMsg, of c v c m] that assms(2) by simp
  have entry: ?thesis
    if "z = snd (case q of (Some e, y1) \<Rightarrow> (False, SendMsg c (f e) y1) | (None, y1) \<Rightarrow> (True, SendMsg c (g y1) y1))"
      and "\<And>y1. q = (None, y1) \<Longrightarrow> \<exists>rs' y2. TrimSpace n \<noteq> [] \<and> beside mr rr ?y y2 \<and> beside mr rr (enter x b rs' c (TrimSpace n) y2) y1"
      and "\<And>e y1. q = (Some e, y1) \<Longrightarrow> untouched ?y y1"
    for q :: "string option \<times> ('a, 'b) sys" and f g n
  proof (cases q)
    case (Pair e y1)
    show ?thesis
    proof (cases e)
      case None
      with that(2) Pair obtain rs' y2 where "TrimSpace n \<noteq> []" "beside mr rr ?y y2" "beside mr rr (enter x b rs' c (TrimSpace n) y2) y1"
        by blast
      moreover have "z = SendMsg c (g y1) y1" using that(1) Pair None by simp
      ultimately show ?thesis using beside_trans[OF mark] by blast
    next
      case (Some err)
      then have u: "untouched ?y y1" using that(3) Pair by simp
      then have "Authenticated (the_user y1 c) = Authenticated (the_user y c)" "length (conns y1) = length (conns y)"
        using idents_fields(3)[of y1 ?y c] untouched_length[OF u] assms(2) by (simp_all add: untouched_def)
      with that(1) Pair Some before after same[of y1] show ?thesis by simp
    qed
  qed
  have reg: ?thesis if "z = snd (case Register x b rs c n pw ?y of
      (Some e, y1) \<Rightarrow> (False, SendMsg c (f e) y1) | (None, y1) \<Rightarrow> (True, SendMsg c (g y1) y1))" for n pw f g
  proof (rule entry[OF that])
    show "\<exists>rs' y2. TrimSpace n \<noteq> [] \<and> beside mr rr ?y y2 \<and> beside mr rr (enter x b rs' c (TrimSpace n) y2) y1"
      if "Register x b rs c n pw ?y = (None, y1)" for y1
      by (rule Register_enters[OF laws that])
    show "untouched ?y y1" if "Register x b rs c n pw ?y = (Some e, y1)" for e y1
      using Register_cases[of c ?y x b rs n pw] that assms(2) by simp
  qed
  have log: ?thesis if "z = snd (case Login x b rs c n pw ?y of
      (Some e, y1) \<Rightarrow> (False, SendMsg c (f e) y1) | (None, y1) \<Rightarrow> (True, SendMsg c (g y1) y1))" for n pw f g
  proof (rule entry[OF that])
    show "\<exists>rs' y2. TrimSpace n \<noteq> [] \<and> beside mr rr ?y y2 \<and> beside mr rr (enter x b rs' c (TrimSpace n) y2) y1"
      if "Login x b rs c n pw ?y = (None, y1)" for y1
      by (rule Login_enters[OF laws that])
    show "untouched ?y y1" if "Login x b rs c n pw ?y = (Some e, y1)" for e y1
      using Login_cases[of c ?y x b rs n pw] that assms(2) by simp
  qed
  have answer: ?thesis if "z = SendMsg c m ?y" for m
    using before after same[of ?y m] that by simp
  define ok where "ok p \<longleftrightarrow> (z = snd p \<longrightarrow> ?thesis)" for p :: "bool \<times> ('a, 'b) sys"
  have "ok (case Register x b rs c n pw ?y of
      (Some e, y1) \<Rightarrow> (False, SendMsg c (f e) y1) | (None, y1) \<Rightarrow> (True, SendMsg c (g y1) y1))"
    "ok (case Login x b rs c n pw ?y of
      (Some e, y1) \<Rightarrow> (False, SendMsg c (f e) y1) | (None, y1) \<Rightarrow> (True, SendMsg c (g y1) y1))"
    "ok (a, SendMsg c m ?y)" for n pw f g a m
    unfolding ok_def by (rule impI, erule reg log, rule impI, erule log, rule impI, rule answer, simp)
  then have "ok (handleAuthCommand x b rs c msg ?y)" for msg
    unfolding handleAuthCommand_def by (simp split: list.split)
  then have auth: ?thesis if "z = snd (handleAuthCommand x b rs c msg ?y)" for msg
    using that unfolding ok_def by blast
  show ?thesis
  proof (cases l)
    case RawError
    then have "z = Logout b rs c y" using z by (simp add: manager_round_def)
    then have "Authenticated (the_user z c) = Authenticated (the_user y c)"
      using nth_idents[of c z] nth_idents[of c y] idents_Logout[OF assms(2)] assms(2)
      by (cases "loggedOut (the_user y c)") (auto simp: Logout_def ident_def logged_out_def)
    with before after show ?thesis by simp
  next
    case RawTooLong
    with before after same[of y] z show ?thesis by (simp add: manager_round_def)
  next
    case (RawLine raw)
    show ?thesis
    proof (cases "TrimSpace (decodeInputText (x_gb18030 x) raw) = []")
      case True
      with RawLine before after z show ?thesis by (simp add: manager_round_def processRawLine_def)
    next
      case False
      with RawLine before z show ?thesis by (intro auth) (simp add: manager_round_def processRawLine_def Let_def)
    qed
  qed
qed

section \<open>The table after an entry\<close>

text \<open>Coming on line only adds rows.\<close>

lemma rows_SaveDelivery:
  assumes "lawful (gorm b) mr rr"
  shows "prefix (rr (db s)) (rr (db (snd (SaveDelivery b i u s))))"
proof -
  obtain e d where ins: "t_create_ignore (recipients_t (gorm b)) (new_recipient i u) (db s) = (e, d)" by fastforce
  have "insert_law (recipients_t (gorm b)) rr mr (rec_clash (gorm b)) rec_stored" using assms by (simp add: lawful_def)
  from this[unfolded insert_law_def, rule_format, of "db s" "new_recipient i u", unfolded ins]
  have "prefix (rr (db s)) (rr d)" by (auto simp: same_rows_def split: option.splits if_splits)
  with ins show ?thesis by (simp add: SaveDelivery_def Let_def del_keys_def split: option.split)
qed

lemma rows_save_rows:
  assumes "lawful (gorm b) mr rr"
  shows "prefix (rr (db s)) (rr (db (snd (save_rows b rows s))))"
proof (induction rows arbitrary: s)
  case (Cons x rows)
  let ?s = "snd (SaveDelivery b (DR_ServerMsgID x) (DR_ToUser x) s)"
  from rows_SaveDelivery[OF assms] Cons.IH[of ?s] show ?case
    by (auto simp: case_prod_beta intro: prefix_order.trans)
qed simp

lemma same_find:
  assumes "lawful (gorm b) mr rr" and "t_find (recipients_t (gorm b)) w ord lim off d = (res, d')"
  shows "rr d' = rr d"
proof -
  have "read_law (recipients_t (gorm b)) mr rr" using assms(1) by (simp add: lawful_def)
  then show ?thesis using assms(2) unfolding read_law_def same_rows_def by (metis snd_conv)
qed

lemma rows_scan:
  assumes "lawful (gorm b) mr rr"
  shows "prefix (rr (db s)) (rr (db (snd (scan_rows b k w ord l s))))"
proof (cases "t_find (recipients_t (gorm b)) w ord (limit_clause l) None (db s)")
  case (Pair res d)
  note d = same_find[OF assms Pair]
  show ?thesis
  proof (cases res)
    case (Inr rows)
    have "prefix (rr (db s)) (rr (db (snd (save_rows b rows (s\<lparr>db := d\<rparr>)))))"
      using rows_save_rows[OF assms, of "s\<lparr>db := d\<rparr>" rows] d by simp
    then show ?thesis by (simp add: scan_rows_def Pair Inr case_prod_beta)
  qed (simp add: scan_rows_def Pair d)
qed

lemma rows_list_pending:
  assumes "lawful (gorm b) mr rr"
  shows "prefix (rr (db s)) (rr (db (snd (ListPendingServerMsgIDsByUser b r u n s))))"
proof -
  have "prefix (rr (db s)) (rr (db (snd (scan_rows b k w ord l (s\<lparr>cache := c\<rparr>)))))" for k w ord l c
    using rows_scan[OF assms, of "s\<lparr>cache := c\<rparr>" k w ord l] by simp
  then show ?thesis by (simp add: ListPendingServerMsgIDsByUser_def split: prod.split option.split)
qed

lemma rows_save:
  assumes "lawful (gorm b) mr rr"
  shows "prefix (rr (db s)) (rr (db (snd (SaveMessageWithRecipients b (Some m) rs s))))"
proof -
  obtain res d where tx: "save_tx b m rs (db s) = (res, d)" by fastforce
  have "tx_law (gorm b) mr rr" using assms by (simp add: lawful_def)
  then have "res \<noteq> None \<Longrightarrow> rr d = rr (db s)"
    using tx unfolding tx_law_def save_tx_def same_rows_def by (metis (mono_tags, lifting) case_prod_conv option.case_eq_if)
  moreover have "res = None \<Longrightarrow> prefix (rr (db s)) (rr d)"
    using saved_rows_new[OF assms, of m rs "db s" d] tx by auto
  ultimately show ?thesis
    by (cases res) (simp_all add: SaveMessageWithRecipients_def Let_def tx)
qed

lemma rows_event:
  assumes "lawful (gorm b) mr rr"
  shows "prefix (rr (db (l_store l))) (rr (db (l_store (snd (system_event (InMemoryStore b) r body rs l)))))"
proof -
  obtain msg where eq: "l_store (snd (system_event (InMemoryStore b) r body rs l)) =
      snd (SaveMessageWithRecipients b (Some msg) rs (snd (NextSeq b ''system'' (l_store l))))"
    using event_access by blast
  have "rr (db (snd (NextSeq b ch s))) = rr (db s)" for ch and s :: "('a, 'b) store"
    using assms by (auto simp: NextSeq_def Let_def lawful_def same_rows_def split: prod.split sum.split)
      (metis snd_conv)+
  with rows_save[OF assms, of "snd (NextSeq b ''system'' (l_store l))" msg rs] show ?thesis unfolding eq by simp
qed

lemma rows_Online:
  assumes "lawful (gorm b) mr rr"
  shows "prefix (rr (db (store_of y))) (rr (db (store_of (Online x b rs c y))))"
proof -
  define y2 where "y2 = on_srv (srv_EnqueuePendingForUser b (rs 0) (u_Name (the_user y c)) 500)
    (on_srv (RegisterOnline (u_Name (the_user y c)) (Some c) (u_Addr (the_user y c))) y)"
  have "prefix (rr (db (store_of y))) (rr (db (store_of y2)))"
    using rows_list_pending[OF assms, of "store_of y"]
    by (simp add: y2_def srv_EnqueuePendingForUser_def EnqueuePendingForUser_def InMemoryStore_def case_prod_beta
        split: option.split)
  moreover have "prefix (rr (db (store_of y2))) (rr (db (store_of (snd (broadcast b r body who y2)))))" for r body who
    using rows_event[OF assms, of "logic (im_srv y2)"]
    by (simp add: broadcast_def BroadcastSystemEvent_def case_prod_beta)
  moreover have "db (store_of (startOnlineHeartbeat x b c (SendJSON c m v))) = db (store_of v)" for m v
    by (simp add: startOnlineHeartbeat_def SendJSON_def SendMsg_def on_cache_def Let_def split: option.split)
  ultimately show ?thesis
    unfolding Online_def Let_def y2_def[symmetric] by (simp add: case_prod_beta) (meson prefix_order.trans)
qed

text \<open>The ids listed for a user.\<close>

lemma listed_pending:
  assumes laws: "steady b mr rr" and up: "answers (gorm b) (db s)" and "persistent s" and "u \<noteq> []"
    and few: "length (filter (\<lambda>x. coll (gorm b) (DR_ToUser x) u \<and> DR_Status x = 0) (rr (db s))) \<le> 500"
    and ids: "ListPendingServerMsgIDsByUser b r u 500 s = (ids, s1)"
  shows "set ids = DR_ServerMsgID ` {x \<in> set (rr (db s)). coll (gorm b) (DR_ToUser x) u \<and> DR_Status x = 0} - {[]}"
    and "length ids \<le> 500"
proof -
  let ?w = "\<lambda>x. coll (gorm b) (DR_ToUser x) u \<and> DR_Status x = 0" and ?ord = "Asc (\<lambda>row. int (DR_ID row))"
  obtain rows where "fst (t_find (recipients_t (gorm b)) ?w ?ord (limit_clause 500) None (db s)) = Inr rows"
    using up unfolding answers_def by blast
  then obtain d where q: "t_find (recipients_t (gorm b)) ?w ?ord (limit_clause 500) None (db s) = (Inr rows, d)"
    by (cases "t_find (recipients_t (gorm b)) ?w ?ord (limit_clause 500) None (db s)") simp
  have "find_law (recipients_t (gorm b)) rr" using steady_lawful[OF laws] by (simp add: lawful_def)
  from this[unfolded find_law_def, rule_format, where w = ?w and ord = ?ord and lim = "limit_clause 500" and d = "db s" and out = rows]
  have rows: "set rows = set (filter ?w (rr (db s)))" unfolding q using few by (simp add: limit_clause_def del: set_filter)
  have out: "ids = dedupeStrings (map DR_ServerMsgID rows)"
  proof -
    have "(ids, s1) = scan_rows b (PendingUserKey u) ?w ?ord 500 s"
      using ids assms(3,4) by (simp add: ListPendingServerMsgIDsByUser_def no_cache[OF laws])
    then have "ids = fst (scan_rows b (PendingUserKey u) ?w ?ord 500 s)" by (metis fst_conv)
    also have "\<dots> = dedupeStrings (map DR_ServerMsgID rows)"
      by (simp add: scan_rows_def q case_prod_beta fst_save_rows)
    finally show ?thesis .
  qed
  then show set_ids: "set ids = DR_ServerMsgID ` {x \<in> set (rr (db s)). ?w x} - {[]}" using rows by auto
  have "card (set ids) \<le> card (DR_ServerMsgID ` set (filter ?w (rr (db s))))"
    unfolding set_ids by (intro card_mono) auto
  also have "\<dots> \<le> length (filter ?w (rr (db s)))"
    by (rule le_trans[OF card_image_le[OF finite_set] card_length])
  finally show "length ids \<le> 500" using few distinct_card[of ids] by (simp add: out)
qed

section \<open>Property\<close>

text \<open>Between events no id is in the hands of a goroutine, so the pipeline is the queue.\<close>

lemma reachable_worker:
  assumes "reachable b e p d c0 y"
  shows "\<exists>w. srv_worker (im_srv y) = Some w \<and> hands w = ([], [], None)"
proof -
  obtain now r where run: "(step b e)\<^sup>*\<^sup>* (boot e p d c0 now b r) y" using assms by (auto simp: reachable_def)
  have "turned 0 (Some NewWorker) (srv_worker (im_srv (boot e p d c0 now b r)))"
    by (simp add: boot_def Start_def SetWorker_def RecoverPendingDeliveries_def set_store_def case_prod_beta)
  then obtain w0 where "srv_worker (im_srv (boot e p d c0 now b r)) = Some w0" "hands w0 = hands NewWorker"
    by (auto simp: turned_def)
  with evolves_steps[OF run] show ?thesis by (auto simp: evolves_def turned_def NewWorker_def)
qed

lemma queue_of_pipeline: "hands w = ([], [], None) \<Longrightarrow> pipeline w = deliverQueue w"
  by (simp add: pipeline_def)

text \<open>The channel of the session gets the greeting and the answer.\<close>

lemma C_SendMsg: "length (C (the_user (SendMsg d m y) c)) \<le> Suc (length (C (the_user y c)))"
  by (cases "c < length (conns y)"; cases "d = c") (auto simp: SendMsg_def nth_list_update list_update_beyond)

lemma C_Online: "length (C (the_user (Online x b rs c y) c)) \<le> Suc (length (C (the_user y c)))"
proof -
  have "C (the_user (startOnlineHeartbeat x b c v) c) = C (the_user v c)" for v
    by (cases "c < length (conns v)")
      (auto simp: startOnlineHeartbeat_def on_cache_def Let_def list_update_beyond split: option.split)
  moreover have "length (C (the_user (SendJSON c (Some m) v) c)) \<le> Suc (length (C (the_user y c)))"
    if "conns v = conns y" for m and v :: "('a, 'b) sys"
    using C_SendMsg[of c "marshal_message m" v c] that by (simp add: SendJSON_def)
  moreover have "conns (snd (broadcast b r body who v)) = conns v" for r body who v
    by (simp add: broadcast_def case_prod_beta)
  ultimately show ?thesis unfolding Online_def Let_def by (simp add: case_prod_beta del: One_nat_def)
qed

lemma signed_in:
  assumes laws: "steady b mr rr" "accounts_law (gorm b) mr rr" and up: "\<forall>d. answers (gorm b) d"
    and reach: "reachable b e True d0 c0 y" and c: "c < length (conns y)" "\<not> Authenticated (the_user y c)"
    and z: "z = exec_event x b rs (Line c l) y" "x_env x = e" and after: "Authenticated (the_user z c)"
    and u: "u = u_Name (the_user z c)"
    and w: "srv_worker (im_srv y) = Some w" "length (deliverQueue w) + 500 \<le> queue_cap"
    and few: "length (filter (\<lambda>x. coll (gorm b) (DR_ToUser x) u \<and> DR_Status x = 0) (rr (db (store_of y)))) \<le> 500"
  shows "map_of (OnlineMap (im_srv z)) u = Some \<lparr>sender = c, addr = u_Addr (the_user z c)\<rparr>"
    and "prefix (rr (db (store_of y))) (rr (db (store_of z)))"
    and "\<exists>w'. srv_worker (im_srv z) = Some w' \<and>
      DR_ServerMsgID ` {x \<in> set (rr (db (store_of y))). coll (gorm b) (DR_ToUser x) u \<and> DR_Status x = 0} - {[]} \<subseteq> set (deliverQueue w')"
    and "isClosed (the_user z c) = isClosed (the_user y c)"
    and "length (C (the_user z c)) \<le> length (C (the_user y c)) + 2"
proof -
  have "z = snd (manager_round x b rs c l y)" using z(1) by (simp add: exec_event_def)
  from line_enters[OF laws(2) c after this] obtain rs' n y1 z1 m where n: "n \<noteq> []" and y1: "beside mr rr y y1"
    and z1: "beside mr rr (enter x b rs' c n y1) z1" and send: "z = SendMsg c m z1" by blast
  define ye where "ye = upd c (\<lambda>u. u\<lparr>u_Name := n, Authenticated := True\<rparr>) y1"
  have enter: "enter x b rs' c n y1 = Online x b rs' c ye" by (simp add: enter_def ye_def)
  have c1: "c < length (conns y1)" "\<not> Authenticated (the_user y1 c)" using y1 c by (simp_all add: beside_def)
  have inv: "sys_inv ye" unfolding ye_def
    by (rule sys_inv_named[OF _ c1(2)]) (use y1 reachable_inv[OF reach] in \<open>simp add: beside_def\<close>)
  have user: "c < length (conns ye)" "Authenticated (the_user ye c)" "u_Name (the_user ye c) = n"
    using c1(1) by (simp_all add: ye_def)
  have "conns z1 = conns (enter x b rs' c n y1)" using z1 unfolding beside_def by blast
  then have "idents z1 = idents (enter x b rs' c n y1)" by (simp only: idents_def)
  then have same: "idents z = idents ye" by (simp add: send enter)
  have name: "u = n" "u_Addr (the_user z c) = u_Addr (the_user ye c)"
    using idents_fields[OF same user(1)] user(3) by (simp_all add: u)
  have rows: "rr (db (store_of ye)) = rr (db (store_of y))" "persistent (store_of ye)"
    using y1 lives_moves(2)[OF steady_lawful[OF laws(1)] laws(2) reachable_lives[OF reach]]
    by (simp_all add: ye_def beside_def same_rows_def)
  obtain ids s where ids: "ListPendingServerMsgIDsByUser b (rs' 0) n 500 (store_of ye) = (ids, s)" by fastforce
  have "answers (gorm b) (db (store_of ye))" using up by blast
  note listed = listed_pending[OF laws(1) this rows(2) n few[unfolded name(1) rows(1)[symmetric]] ids]
  have we: "srv_worker (im_srv ye) = Some w" using y1 w(1) by (simp add: ye_def beside_def)
  have "i_ListPendingServerMsgIDsByUser (InMemoryStore b) (rs' 0) n 500 (store_of ye) = (ids, s)"
    using ids by (simp add: InMemoryStore_def)
  from online_queues_pending[where rs = rs', OF inv user n we this _ refl, of x] listed(2) w(2)
  obtain w' where w': "srv_worker (im_srv (enter x b rs' c n y1)) = Some w'" "set ids - {[]} \<subseteq> set (pipeline w')"
    "map_of (OnlineMap (im_srv (enter x b rs' c n y1))) n = Some \<lparr>sender = c, addr = u_Addr (the_user ye c)\<rparr>"
    unfolding enter by auto
  have wz: "srv_worker (im_srv z) = Some w'" using w'(1) z1 by (simp add: send beside_def)
  have "valid_event (Line c l) y" using c(1) by (simp add: valid_event_def)
  then have "step b e y z" using z(2) unfolding z(1) by (rule step_event)
  then have "reachable b e True d0 c0 z"
    using reach unfolding reachable_def by (meson rtranclp.rtrancl_into_rtrancl)
  then have pipe: "pipeline w' = deliverQueue w'" using reachable_worker wz queue_of_pipeline by fastforce
  with w'(2) listed(1) wz show "\<exists>w'. srv_worker (im_srv z) = Some w' \<and>
      DR_ServerMsgID ` {x \<in> set (rr (db (store_of y))). coll (gorm b) (DR_ToUser x) u \<and> DR_Status x = 0} - {[]} \<subseteq> set (deliverQueue w')"
    unfolding name(1) rows(1) by auto
  show "map_of (OnlineMap (im_srv z)) u = Some \<lparr>sender = c, addr = u_Addr (the_user z c)\<rparr>"
    using w'(3) z1 name by (simp add: send beside_def)
  show "prefix (rr (db (store_of y))) (rr (db (store_of z)))"
    using rows_Online[OF steady_lawful[OF laws(1)], of ye x rs' c] z1 rows(1) by (simp add: send enter beside_def same_rows_def)
  show "isClosed (the_user z c) = isClosed (the_user y c)"
    using idents_fields(4)[OF same user(1)] y1 c(1) by (simp add: ye_def beside_def)
  have "length (C (the_user z1 c)) \<le> Suc (length (C (the_user y c)))"
    using C_Online[of x b rs' c ye] z1 y1 c(1) by (simp add: enter ye_def beside_def)
  then show "length (C (the_user z c)) \<le> length (C (the_user y c)) + 2"
    unfolding send using C_SendMsg[of c m z1 c] by simp
qed

text \<open>
  C11: signing in brings what waits in the table. A line that makes a connection authenticated, by a
  login or a registration, files the session under its name in the online map, and every message
  that the table has as pending for that name is then in the queue of the delivery goroutine; the
  pending rows themselves stay as they are. It is asked that there is no cache, that the database
  keeps its documented laws and answers its queries, that at most 500 rows are pending for the name,
  which is the limit of the query, and that the queue has 500 free places. Beyond 500 the
  later rows are not queued.
\<close>

theorem login_queues_pending:
  assumes "steady b mr rr" and "accounts_law (gorm b) mr rr" and "\<forall>d. answers (gorm b) d"
    and "reachable b e True d0 c0 y" and "c < length (conns y)" and "\<not> Authenticated (the_user y c)"
    and "z = exec_event x b rs (Line c l) y" and "x_env x = e" and "Authenticated (the_user z c)"
    and "u = u_Name (the_user z c)"
    and "srv_worker (im_srv y) = Some w" and "length (deliverQueue w) + 500 \<le> queue_cap"
    and "length (filter (\<lambda>x. coll (gorm b) (DR_ToUser x) u \<and> DR_Status x = 0) (rr (db (store_of y)))) \<le> 500"
    and row: "row \<in> set (rr (db (store_of y)))" "DR_Status row = 0" "coll (gorm b) (DR_ToUser row) u" "DR_ServerMsgID row \<noteq> []"
  shows "map_of (OnlineMap (im_srv z)) u = Some \<lparr>sender = c, addr = u_Addr (the_user z c)\<rparr> \<and>
    row \<in> set (rr (db (store_of z))) \<and>
    (\<exists>w' k. srv_worker (im_srv z) = Some w' \<and> k < length (deliverQueue w') \<and> deliverQueue w' ! k = DR_ServerMsgID row)"
proof -
  note after = signed_in[OF assms(1-13)]
  obtain w' where "srv_worker (im_srv z) = Some w'" "DR_ServerMsgID row \<in> set (deliverQueue w')"
    using after(3) row by blast
  moreover have "row \<in> set (rr (db (store_of z)))" using set_mono_prefix[OF after(2)] row(1) by blast
  ultimately show ?thesis using after(1) by (auto simp: in_set_conv_nth)
qed

section \<open>An instance\<close>

text \<open>The tables with ann's message to bob, who now registers on a new connection.\<close>

definition boot_pending :: "(tables, (string \<times> string) list) sys" where
  "boot_pending = boot [] True (db (store_of after_attempt)) [] 0 plain_backend (sample_rt 0)"

definition bob_connected :: "(tables, (string \<times> string) list) sys" where
  "bob_connected = exec_event sample_ext plain_backend (\<lambda>_. sample_rt 3) (Connect ''10.0.0.7:5000'') boot_pending"

definition bob_registered :: "(tables, (string \<times> string) list) sys" where
  "bob_registered = exec_event sample_ext plain_backend (\<lambda>_. sample_rt 3) (Line 0 (RawLine ''register|bob|pw'')) bob_connected"

lemma boot_pending_state: "conns boot_pending = []" "OnlineMap (im_srv boot_pending) = []"
  "persistent (store_of boot_pending)" "user_rows (db (store_of boot_pending)) = []" "cache (store_of boot_pending) = []"
  by code_simp+

lemma boot_pending_tables:
  "map (\<lambda>x. (DR_ServerMsgID x, DR_ToUser x, DR_Status x)) (recip_rows (db (store_of boot_pending))) = [(''s-0-1'', ''bob'', 0)]"
  by code_simp

lemma boot_pending_queue: "case srv_worker (im_srv boot_pending) of Some w \<Rightarrow> deliverQueue w = [''s-0-1'']"
  by code_simp

lemma bob_connected_state:
  "length (conns bob_connected) = 1" "\<not> Authenticated (the_user bob_connected 0)" "OnlineMap (im_srv bob_connected) = []"
  "store_of bob_connected = store_of boot_pending" "srv_worker (im_srv bob_connected) = srv_worker (im_srv boot_pending)"
  and bob_connected_user: "C (the_user bob_connected 0) = [txt_prompt_auth]" "\<not> isClosed (the_user bob_connected 0)"
proof -
  have "fst (accept_round (sample_rt 3) (Some ''10.0.0.7:5000'') (im_srv boot_pending)) = None" by code_simp
  note conn = connect_state[of "\<lambda>_. sample_rt 3", OF this bob_connected_def]
  show "length (conns bob_connected) = 1" "\<not> Authenticated (the_user bob_connected 0)" "OnlineMap (im_srv bob_connected) = []"
    "store_of bob_connected = store_of boot_pending" "srv_worker (im_srv bob_connected) = srv_worker (im_srv boot_pending)"
    "C (the_user bob_connected 0) = [txt_prompt_auth]" "\<not> isClosed (the_user bob_connected 0)"
    unfolding conn by (simp_all add: boot_pending_state)
qed

lemma bob_registered_state: "Authenticated (the_user bob_registered 0)" "u_Name (the_user bob_registered 0) = ''bob''"
proof -
  have line: "TrimSpace (decodeInputText (x_gb18030 sample_ext) ''register|bob|pw'') = ''register|bob|pw''"
  proof -
    have "decodeInputText (x_gb18030 sample_ext) ''register|bob|pw'' = ''register|bob|pw''"
      by (simp add: decodeInputText_def) code_simp
    moreover have "TrimSpace ''register|bob|pw'' = ''register|bob|pw''" by code_simp
    ultimately show ?thesis by simp
  qed
  have "lower_prefix ''register|'' ''register|bob|pw''" "SplitN CHR ''|'' 3 ''register|bob|pw'' = [''register'', ''bob'', ''pw'']"
    "TrimSpace ''bob'' = ''bob''" "\<not> ContainsAny ''bob'' name_breaks" by code_simp+
  from register_line[OF line this(1) _ this(2,3) _ this(4), of bob_connected plain_backend 0 "\<lambda>_. sample_rt 3", OF _ _ _ _ _ _ _ _ _ _
      prod.collapse[symmetric]]
  show "Authenticated (the_user bob_registered 0)" "u_Name (the_user bob_registered 0) = ''bob''"
    unfolding bob_registered_def exec_event_def
    by (simp_all add: bob_connected_state boot_pending_state plain_backend_def sample_backend_def)
qed

lemma bob_connected_reachable: "reachable plain_backend [] True (db (store_of after_attempt)) [] bob_connected"
proof -
  have "step plain_backend [] boot_pending bob_connected"
    unfolding bob_connected_def by (rule step_event) (simp_all add: valid_event_def sample_ext_def)
  then show ?thesis unfolding reachable_def boot_pending_def by blast
qed

lemma bob_row: "\<exists>row. recip_rows (db (store_of boot_pending)) = [row] \<and> DR_ServerMsgID row = ''s-0-1'' \<and>
    DR_ToUser row = ''bob'' \<and> DR_Status row = 0"
  using boot_pending_tables by (auto simp: map_eq_Cons_conv)

lemma bob_worker: "\<exists>w. srv_worker (im_srv bob_connected) = Some w \<and> deliverQueue w = [''s-0-1'']"
  using boot_pending_queue reachable_worker[OF bob_connected_reachable] by (auto simp: bob_connected_state)

theorem login_queues_pending_witness:
  "\<exists>w k. srv_worker (im_srv bob_registered) = Some w \<and> k < length (deliverQueue w) \<and> deliverQueue w ! k = ''s-0-1''"
proof -
  obtain row where row: "recip_rows (db (store_of boot_pending)) = [row]" "DR_ServerMsgID row = ''s-0-1''"
    "DR_ToUser row = ''bob''" "DR_Status row = 0" using bob_row by blast
  obtain w where w: "srv_worker (im_srv bob_connected) = Some w" "deliverQueue w = [''s-0-1'']" using bob_worker by blast
  have "coll (gorm plain_backend) = (=)" by (simp add: plain_backend_def sample_backend_def sample_db_def)
  with login_queues_pending[OF steady_plain(1,2) _ bob_connected_reachable _ bob_connected_state(2) bob_registered_def _
      bob_registered_state(1) refl w(1), of row]
  show ?thesis by (simp add: row w(2) bob_connected_state steady_plain(3) bob_registered_state sample_ext_def queue_cap_def)
qed

end
