(* ===== verification/Turns.thy ===== *)
theory Turns
  imports Sign_In
begin

text \<open>
  From the queue to the sessions. The queue of the delivery worker is served in order, whatever
  the rest of the process does in between; when the turn of a message comes, everybody who is on
  line and has it pending in the table gets it. Together with the recovery on login this covers the
  way of a message to a user who was off line when it was sent, to the members of a group, and
  over restarts, in the database mode in which the program runs.
\<close>

section \<open>Runs with their rounds of delivery\<close>

text \<open>\<open>tn\<close> counts the rounds of the delivery goroutine.\<close>

inductive run :: "('d, 'c) backend \<Rightarrow> env \<Rightarrow> nat \<Rightarrow> ('d, 'c) sys \<Rightarrow> ('d, 'c) sys \<Rightarrow> bool"
  for b :: "('d, 'c) backend" and e :: env where
  run_start: "run b e 0 y y"
| run_event: "run b e tn y y1 \<Longrightarrow> valid_event ev y1 \<Longrightarrow> x_env x = e \<Longrightarrow>
    run b e (tn + (if ev = Deliver then 1 else 0)) y (exec_event x b rs ev y1)"

lemma run_steps: "run b e tn y y' \<Longrightarrow> (step b e)\<^sup>*\<^sup>* y y'"
  by (induction rule: run.induct) (auto intro: rtranclp.rtrancl_into_rtrancl step_event)

lemma run_evolves: "run b e tn y y' \<Longrightarrow> \<exists>j k. evolves b j k tn y y'"
proof (induction rule: run.induct)
  case (run_event tn y y1 ev x rs)
  then obtain j k where "evolves b j k tn y y1" by blast
  from evolves_event[OF this] show ?case by blast
qed (use evolves_refl in blast)

lemma run_reachable: "reachable b e p d c0 y \<Longrightarrow> run b e tn y y' \<Longrightarrow> reachable b e p d c0 y'"
  unfolding reachable_def using run_steps by (metis rtranclp_trans)

text \<open>The queue after \<open>k\<close> rounds starts with what was at place \<open>k\<close>.\<close>

lemma turn_head:
  assumes "run b e k y y1" and "srv_worker (im_srv y) = Some w" and "k < length (deliverQueue w)"
  shows "\<exists>w1 q. srv_worker (im_srv y1) = Some w1 \<and> deliverQueue w1 = deliverQueue w ! k # q"
proof -
  obtain j m where "evolves b j m k y y1" using run_evolves[OF assms(1)] by blast
  then have "turned k (Some w) (srv_worker (im_srv y1))" using assms(2) by (simp add: evolves_def)
  then obtain w1 more where "srv_worker (im_srv y1) = Some w1" "deliverQueue w1 = drop k (deliverQueue w) @ more"
    by (auto simp: turned_def)
  then show ?thesis using Cons_nth_drop_Suc[OF assms(3)] by (metis append_Cons)
qed

lemma run_sys_inv: "run b e tn y y' \<Longrightarrow> sys_inv y \<Longrightarrow> sys_inv y'"
  by (induction rule: run.induct) (auto intro: sys_inv_event)

section \<open>A direct message\<close>

text \<open>
  C4: a direct message gets through. When \<open>to|name|text\<close> has been accepted, with or without a
  database, under an id that is not in flight, and the queue has room, its id is at the end of the queue; and when
  its turn comes, after as many rounds of delivery as there were ids before it, whatever
  else happens meanwhile, the round hands the message to the addressee if he is then on line,
  his session open and its channel not full, and the store still answers with the message under its id. What is in his
  channel is the message as JSON: a delivery from the sender under its name, to the addressee, with
  the text, under the server id of the stored message.
\<close>

theorem direct_message_delivered:
  assumes inv: "sys_inv y" "c < length (conns y)" and line: "arg2 msg = Some (to, body)" "to \<noteq> u_Name (the_user y c)"
    and w: "srv_worker (im_srv y) = Some w" "length (deliverQueue w) < queue_cap" "ServerMsgID m \<notin> in_flight w"
    and sent: "fst (send b (rs 1) (chat_request (rs 0) (u_Name (the_user y c)) to body) [to] y) = Saved m"
    and run: "run b e (length (deliverQueue w)) (useChat b rs c msg y) y1"
    and stored: "fst (GetMessageByServerID b (ServerMsgID m) (store_of y1)) = Some m"
    and bob: "map_of (OnlineMap (im_srv y1)) to = Some info" "\<not> isClosed (the_user y1 (sender info))"
      "length (C (the_user y1 (sender info))) < chan_cap"
  shows "marshal_message (deliver_message (ServerMsgID m) m to) \<in>
      set (C (the_user (deliver x b rs' y1) (sender info))) \<and>
    From m = u_Name (the_user y c) \<and> To m = to \<and> Body m = body"
proof -
  note z = chat_queued[OF inv line w sent refl]
  obtain w' where w': "srv_worker (im_srv (useChat b rs c msg y)) = Some w'"
    "deliverQueue w' = deliverQueue w @ [ServerMsgID m]" using z(8) by blast
  obtain w1 q where w1: "srv_worker (im_srv y1) = Some w1" "deliverQueue w1 = ServerMsgID m # q"
    using turn_head[OF run w'(1)] w'(2) by auto
  have "sys_inv y1" by (rule run_sys_inv[OF run z(1)])
  moreover obtain s1 where "GetMessageByServerID b (ServerMsgID m) (store_of y1) = (Some m, s1)"
    using stored by (metis prod.collapse)
  ultimately show ?thesis
    using deliver_hands[OF _ w1, of b m s1 to rs' info x] bob z(2-4,6) by simp
qed

text \<open>\<open>ann\<close> writes to \<open>bob\<close> while another id is in the queue, and the round on that one comes first.\<close>

definition busy_users :: "(tables, (string \<times> string) list) sys" where
  "busy_users = on_srv (\<lambda>v. v\<lparr>srv_worker := Some (EnqueueServerMsg ''s-9'' NewWorker)\<rparr>) two_users"

definition hello_sent :: "(tables, (string \<times> string) list) sys" where
  "hello_sent = useChat sample_backend (\<lambda>_. sample_rt 0) 0 ''to|bob|hello'' busy_users"

definition first_round :: "(tables, (string \<times> string) list) sys" where
  "first_round = exec_event sample_ext sample_backend (\<lambda>_. sample_rt 0) Deliver hello_sent"

theorem direct_message_delivered_witness:
  "\<exists>m. From m = ''ann'' \<and> Body m = ''hello'' \<and>
     marshal_message (deliver_message (ServerMsgID m) m ''bob'') \<in>
     set (C (the_user (deliver sample_ext sample_backend (\<lambda>_. sample_rt 0) first_round) 1))"
proof -
  let ?w = "EnqueueServerMsg ''s-9'' NewWorker"
  have w: "srv_worker (im_srv busy_users) = Some ?w" "deliverQueue ?w = [''s-9'']" "in_flight ?w = {''s-9''}"
    by (simp_all add: busy_users_def Enqueue_cases NewWorker_def in_flight_def queue_cap_def keys_gput)
  have inv: "sys_inv busy_users"
    using sys_inv_two_users queue_inv_Enqueue[OF queue_inv_new, of "''s-9''"]
    by (simp add: busy_users_def sys_inv_def srv_ok_def presence_ok_def)
  have line: "arg2 ''to|bob|hello'' = Some (''bob'', ''hello'')" by code_simp
  have c: "0 < length (conns busy_users)" "''bob'' \<noteq> u_Name (the_user busy_users 0)" "u_Name (the_user busy_users 0) = ''ann''"
    by (simp_all add: busy_users_def sample_user_def)
  let ?req = "chat_request (sample_rt 0) (u_Name (the_user busy_users 0)) ''bob'' ''hello''"
  have "TrimSpace (From ?req) \<noteq> []" "TrimSpace (ClientMsgID ?req) \<noteq> []"
    by (simp_all add: busy_users_def sample_user_def sample_rt_def) code_simp+
  then have "\<exists>m. fst (send sample_backend (sample_rt 0) ?req [''bob''] busy_users) = Saved m"
    by (intro send_mem_ok) (simp_all add: busy_users_def mem_inv_def store_wf_def gall_def byClient_lookup_def NewInMemoryStore_def)
  then obtain m y1 where m: "send sample_backend (sample_rt 0) ?req [''bob''] busy_users = (Saved m, y1)"
    by (metis prod.collapse)
  have "(case fst (send sample_backend (sample_rt 0) ?req [''bob''] busy_users) of Saved m \<Rightarrow> ServerMsgID m | _ \<Rightarrow> []) = ''s-0-1''"
    "map_of (messages (store_of (snd (send sample_backend (sample_rt 0) ?req [''bob''] busy_users)))) ''s-9'' = None"
    "\<not> persistent (store_of (snd (send sample_backend (sample_rt 0) ?req [''bob''] busy_users)))"
    by code_simp+
  then have i: "ServerMsgID m = ''s-0-1''" and s1: "map_of (messages (store_of y1)) ''s-9'' = None" "\<not> persistent (store_of y1)"
    unfolding m by simp_all
  have new: "ServerMsgID m \<notin> in_flight ?w" and room: "length (deliverQueue ?w) < queue_cap"
    by (simp_all add: w i queue_cap_def)
  have sent: "fst (send sample_backend (sample_rt 0) ?req [''bob''] busy_users) = Saved m" unfolding m by simp
  note z = chat_queued[where rs = "\<lambda>_. sample_rt 0", OF inv c(1) line c(2) w(1) room new sent hello_sent_def]
  have hello: "hello_sent = SendMsg 0 (txt_chat_sent_1 @ ''hello'' @ txt_chat_sent_2 @ ''bob'' @ nl) (enqueue ''s-0-1'' y1)"
    using line c(2,3) m i by (simp add: hello_sent_def useChat_def Let_def del: One_nat_def)
  have same: "store_of hello_sent = store_of y1" "OnlineMap (im_srv hello_sent) = OnlineMap (im_srv busy_users)"
    "the_user hello_sent 1 = the_user busy_users 1"
    using send_Saved(6,8)[OF m] by (simp_all add: hello enqueue_def srv_EnqueueServerMsg_def)
  obtain w' where w': "srv_worker (im_srv hello_sent) = Some w'" "deliverQueue w' = [''s-9'', ''s-0-1'']"
    using z(8) by (auto simp: w i)
  have none: "i_GetMessageByServerID (InMemoryStore sample_backend) ''s-9'' (store_of y1) = (None, store_of y1)"
    using s1 by (simp add: InMemoryStore_def GetMessageByServerID_def)
  have first: "first_round = on_srv (\<lambda>v. set_store (store_of y1)
      (v\<lparr>srv_worker := Some (unmark ''s-9'' (w'\<lparr>deliverQueue := [''s-0-1'']\<rparr>))\<rparr>)) hello_sent"
    using w' none by (simp add: first_round_def exec_event_def deliver_def deliver_round_def deliver_one_def same hand_out_def)
  have run: "run sample_backend [] (length (deliverQueue ?w)) (useChat sample_backend (\<lambda>_. sample_rt 0) 0 ''to|bob|hello'' busy_users) first_round"
    using run_event[OF run_start, of Deliver hello_sent sample_ext "[]" sample_backend "\<lambda>_. sample_rt 0"]
    by (simp add: w valid_event_def sample_ext_def first_round_def hello_sent_def)
  have stored: "fst (GetMessageByServerID sample_backend (ServerMsgID m) (store_of first_round)) = Some m"
    using z(7) by (simp add: first same GetMessageByServerID_def)
  let ?info = "\<lparr>sender = 1, addr = ''10.0.0.7:5000''\<rparr>"
  have bob: "map_of (OnlineMap (im_srv first_round)) ''bob'' = Some ?info" "\<not> isClosed (the_user first_round (sender ?info))"
    "length (C (the_user first_round (sender ?info))) < chan_cap"
    using same(3) by (simp_all add: first same(2) busy_users_def sample_user_def chan_cap_def)
  from direct_message_delivered[where rs = "\<lambda>_. sample_rt 0", OF inv c(1) line c(2) w(1) room new sent run stored bob,
      of sample_ext "\<lambda>_. sample_rt 0"] c(3)
  show ?thesis by (intro exI[of _ m]) simp
qed

section \<open>The turn of a message\<close>

text \<open>A message on the table is found.\<close>

lemma stored_found:
  assumes "lawful (gorm b) mr rr" and "answers (gorm b) (db s)" and "persistent s" and "i \<noteq> []"
    and "row \<in> set (mr (db s))" and "coll (gorm b) (DM_ServerMsgID row) i"
  shows "\<exists>m s1. GetMessageByServerID b i s = (Some m, s1)"
proof (cases "map_of (messages s) i")
  case None
  have law: "take_law (messages_t (gorm b)) mr" using assms(1) by (simp add: lawful_def)
  obtain res d where t: "t_take (messages_t (gorm b)) (\<lambda>row. coll (gorm b) (DM_ServerMsgID row) i) (db s) = (res, d)"
    by fastforce
  have "res \<noteq> Inl ErrRecordNotFound"
    using law[unfolded take_law_def, rule_format, where w = "\<lambda>row. coll (gorm b) (DM_ServerMsgID row) i" and d = "db s"] t assms(5,6)
    by auto
  moreover have "res \<noteq> Inl (DBError er)" for er using assms(2) t unfolding answers_def by (metis fst_conv)
  ultimately obtain x where "res = Inr x" by (metis db_error.exhaust sumE)
  then show ?thesis using None t assms(3,4) by (simp add: GetMessageByServerID_def Let_def)
qed (simp add: GetMessageByServerID_def)

lemma found_same:
  assumes "lawful (gorm b) mr rr" and "GetMessageByServerID b i s = (Some m, s1)"
  shows "same_rows mr rr (db s) (db s1)"
proof -
  have "read_law (messages_t (gorm b)) mr rr" using assms(1) by (simp add: lawful_def)
  then have "same_rows mr rr (db s) d" if "t_take (messages_t (gorm b)) w (db s) = (res, d)" for w res d
    using that unfolding read_law_def by (metis snd_conv)
  moreover have "same_rows mr rr (db s) (db s)" by (simp add: same_rows_def)
  moreover have "db (saveMessageUnsafe m' s') = db s'" for m' and s' :: "('a, 'b) store"
    by (simp add: saveMessageUnsafe_def Let_def)
  ultimately show ?thesis
    using assms(2) by (auto simp: GetMessageByServerID_def Let_def split: option.splits prod.splits sum.splits
        db_error.splits if_splits)
qed

text \<open>\<open>c\<close> is the session of \<open>u\<close>, who has the message pending, and it can take one more message.\<close>

definition due_to :: "('d \<Rightarrow> db_recipient list) \<Rightarrow> ('d, 'c) sys \<Rightarrow> string \<Rightarrow> string \<Rightarrow> nat \<Rightarrow> bool" where
  "due_to rr y i u c \<longleftrightarrow>
     (\<exists>x \<in> set (rr (db (store_of y))). DR_Status x = 0 \<and> DR_ServerMsgID x = i \<and> DR_ToUser x = u) \<and> u \<noteq> [] \<and>
     (\<exists>a. map_of (OnlineMap (im_srv y)) u = Some \<lparr>sender = c, addr = a\<rparr>) \<and>
     \<not> isClosed (the_user y c) \<and> length (C (the_user y c)) < chan_cap"

lemma due_served:
  assumes laws: "steady b mr rr" "accounts_law (gorm b) mr rr" and up: "answers (gorm b) d0"
    and reach: "reachable b e True d0 c0 y" and few: "length (filter (\<lambda>x. DR_Status x = 0) (rr d0)) \<le> 2000"
    and q: "srv_worker (im_srv y) = Some w" "deliverQueue w = i # q" "i \<noteq> []"
    and found: "GetMessageByServerID b i (store_of y) = (Some m, s1)"
    and "range_ok (rs 0)" and "due_to rr y i u c"
  shows "marshal_message (deliver_message i m u) \<in> set (C (the_user (deliver x b rs y) c))"
proof -
  obtain r a where r: "r \<in> set (rr (db (store_of y)))" "DR_Status r = 0" "DR_ServerMsgID r = i" "DR_ToUser r = u"
    and u: "u \<noteq> []" "map_of (OnlineMap (im_srv y)) u = Some \<lparr>sender = c, addr = a\<rparr>"
    "\<not> isClosed (the_user y c)" "length (C (the_user y c)) < chan_cap"
    using assms(11) by (auto simp: due_to_def)
  note inv = reachable_abreast[OF laws reach up few]
  have s1: "s1 = snd (GetMessageByServerID b i (store_of y))" using found by simp
  have eff: "effect (gorm b) rr (store_of y) s1" unfolding s1 by (rule effect_lookups(3)[OF laws(1)])
  have "rr (db s1) = rr (db (store_of y))"
    using found_same[OF steady_lawful[OF laws(1)] found] by (simp add: same_rows_def)
  then have "u \<in> set (fst (GetRecipients b (rs 0) i s1))"
    using abreast_returned[OF steady_lawful[OF laws(1)] abreast_effect[OF eff inv(1)] assms(10), of r] r u(1) q(3) by simp
  then show ?thesis
    using deliver_hands[OF reachable_inv[OF reach] q(1,2) found _ u(2)] u(3,4) by simp
qed

text \<open>
  C12: the turn of a message. An id that stands at place \<open>k\<close> of the queue is the one that the delivery
  goroutine takes after \<open>k\<close> further rounds, whatever the connections, the retry ticker and the
  logouts do in between; and if the message is in the table, then that round hands it to every
  session that is on line under the name of a recipient who has it pending at that time, as
  long as the session is open and its channel has room. This holds without a cache on a database
  that answers, for a process that found at most 2000 pending rows when it started.
\<close>

theorem turn_serves_pending:
  assumes laws: "steady b mr rr" "accounts_law (gorm b) mr rr" and up: "\<forall>d. answers (gorm b) d"
    and reach: "reachable b e True d0 c0 y" and few: "length (filter (\<lambda>x. DR_Status x = 0) (rr d0)) \<le> 2000"
    and w: "srv_worker (im_srv y) = Some w" "k < length (deliverQueue w)" "deliverQueue w ! k = i"
    and row: "row \<in> set (mr (db (store_of y)))" "coll (gorm b) (DM_ServerMsgID row) i"
    and run: "run b e k y y1" and "range_ok (rs 0)" and "due_to rr y1 i u c"
  shows "\<exists>m. fst (GetMessageByServerID b i (store_of y1)) = Some m \<and>
    marshal_message (deliver_message i m u) \<in> set (C (the_user (deliver x b rs y1) c))"
proof -
  have law: "lawful (gorm b) mr rr" by (rule steady_lawful[OF laws(1)])
  note reach1 = run_reachable[OF reach run]
  obtain w1 q where q: "srv_worker (im_srv y1) = Some w1" "deliverQueue w1 = i # q"
    using turn_head[OF run w(1,2)] w(3) by auto
  have "queue_inv w1" using reachable_inv[OF reach1] q(1) by (simp add: sys_inv_def srv_ok_def)
  then have i: "i \<noteq> []" using q(2) by (auto simp: queue_inv_def pipeline_def)
  have "row \<in> set (mr (db (store_of y1)))"
    using moves_keep(1)[OF law later_moves[OF law laws(2) steps_later[OF run_steps[OF run]]] row(1)] .
  moreover have "answers (gorm b) (db (store_of y1))" using up by blast
  ultimately obtain m s1 where m: "GetMessageByServerID b i (store_of y1) = (Some m, s1)"
    using stored_found[OF law _ lives_moves(2)[OF law laws(2) reachable_lives[OF reach1]] i _ row(2)] by blast
  have "answers (gorm b) d0" using up by blast
  from due_served[where rs = rs, OF laws this reach1 few q i m assms(12,13)] m show ?thesis by simp
qed

text \<open>Bob has registered: the message from before he came is delivered to his session.\<close>

lemma bob_run: "run plain_backend [] 0 boot_pending bob_registered"
proof -
  have env: "x_env sample_ext = []" by (simp add: sample_ext_def)
  have "run plain_backend [] 0 boot_pending bob_connected"
    unfolding bob_connected_def
    using run_event[OF run_start, of "Connect ''10.0.0.7:5000''" boot_pending sample_ext "[]" plain_backend "\<lambda>_. sample_rt 3"] env
    by (simp add: valid_event_def)
  from run_event[OF this, of "Line 0 (RawLine ''register|bob|pw'')" sample_ext "\<lambda>_. sample_rt 3"] env show ?thesis
    unfolding bob_registered_def by (simp add: valid_event_def bob_connected_state)
qed

lemma bob_due: "due_to recip_rows bob_registered ''s-0-1'' ''bob'' 0"
proof -
  have g: "coll (gorm plain_backend) = (=)" by (simp add: plain_backend_def sample_backend_def sample_db_def)
  obtain row where row: "recip_rows (db (store_of boot_pending)) = [row]" "DR_ServerMsgID row = ''s-0-1''"
    "DR_ToUser row = ''bob''" "DR_Status row = 0" using bob_row by blast
  obtain w where w: "srv_worker (im_srv bob_connected) = Some w" "deliverQueue w = [''s-0-1'']"
    using bob_worker by blast
  have few: "length (filter (\<lambda>x. coll (gorm plain_backend) (DR_ToUser x) (u_Name (the_user bob_registered 0)) \<and> DR_Status x = 0)
      (recip_rows (db (store_of bob_connected)))) \<le> 500" "length (deliverQueue w) + 500 \<le> queue_cap"
    by (simp_all add: row bob_connected_state w(2) queue_cap_def)
  have ok: "x_env sample_ext = []" "0 < length (conns bob_connected)" "\<forall>d. answers (gorm plain_backend) d"
    by (simp_all add: sample_ext_def bob_connected_state steady_plain(3))
  note bob = signed_in[OF steady_plain(1,2) ok(3) bob_connected_reachable ok(2) bob_connected_state(2) bob_registered_def ok(1)
      bob_registered_state(1) refl w(1) few(2,1)]
  have "row \<in> set (recip_rows (db (store_of bob_registered)))"
    using set_mono_prefix[OF bob(2)] row(1) by (simp add: bob_connected_state)
  moreover have "C (the_user bob_connected 0) = [txt_prompt_auth]" "\<not> isClosed (the_user bob_connected 0)"
    using bob_connected_user by simp_all
  ultimately show ?thesis
    using bob(1,4,5) row by (auto simp: due_to_def bob_registered_state chan_cap_def)
qed

theorem turn_serves_pending_witness:
  "\<exists>m. marshal_message (deliver_message ''s-0-1'' m ''bob'') \<in>
    set (C (the_user (deliver sample_ext plain_backend (\<lambda>_. sample_rt 5) bob_registered) 0))"
proof -
  have reach: "reachable plain_backend [] True (db (store_of after_attempt)) [] boot_pending"
    unfolding reachable_def boot_pending_def by blast
  have few: "length (filter (\<lambda>x. DR_Status x = 0) (recip_rows (db (store_of after_attempt)))) \<le> 2000"
    by (rule attempt_few)
  obtain w where w: "srv_worker (im_srv boot_pending) = Some w" "deliverQueue w = [''s-0-1'']"
    using bob_worker by (auto simp: bob_connected_state)
  have "map DM_ServerMsgID (msg_rows (db (store_of boot_pending))) = [''s-0-1'']" by code_simp
  then obtain x where x: "x \<in> set (msg_rows (db (store_of boot_pending)))" "DM_ServerMsgID x = ''s-0-1''"
    by (auto simp: map_eq_Cons_conv)
  have "coll (gorm plain_backend) (DM_ServerMsgID x) ''s-0-1''"
    by (simp add: x(2) plain_backend_def sample_backend_def sample_db_def)
  from turn_serves_pending[OF steady_plain(1,2) _ reach few w(1) _ _ x(1) this bob_run _ bob_due, of "\<lambda>_. sample_rt 5" sample_ext]
  show ?thesis by (auto simp: w(2) steady_plain(3))
qed

end
