(* ===== verification/History.thy ===== *)
theory History
  imports Store_Database
begin

text \<open>
  The history of two users as the database gives it (\<open>internal/store/history.go\<close>): the newest
  messages between them, oldest first, each with the delivery status of its recipient.
\<close>

section \<open>Ordered queries\<close>

text \<open>
  An ordered query lists the rows that satisfy its condition, the largest keys first, and stops at
  its limit; rows with equal keys come in any order.
\<close>

definition desc_law :: "('d, 'r) table \<Rightarrow> ('d \<Rightarrow> 'r list) \<Rightarrow> bool" where
  "desc_law t rows \<longleftrightarrow> (\<forall>w k lim d out. fst (t_find t w (Desc k) lim None d) = Inr out \<longrightarrow>
     (\<exists>rest. mset (out @ rest) = mset (filter w (rows d)) \<and> sorted (map k (rev (out @ rest))) \<and>
        (case lim of None \<Rightarrow> rest = [] | Some n \<Rightarrow> rest = [] \<or> length out = n)))"

section \<open>The status of a message\<close>

text \<open>A message of the history, for the row it comes from and the rows of recipients.\<close>

definition shown :: "'d gorm_db \<Rightarrow> db_recipient list \<Rightarrow> string \<Rightarrow> string \<Rightarrow> db_message \<Rightarrow> Message \<Rightarrow> bool" where
  "shown g rs userA userB row msg \<longleftrightarrow>
     (let m = fromDBMessage row; to = (if From m = userA then userB else userA);
          match = (\<lambda>x. coll g (DR_ServerMsgID x) (ServerMsgID m) \<and> coll g (DR_ToUser x) to)
      in if \<exists>x \<in> set rs. match x then \<exists>x \<in> set rs. match x \<and> msg = m\<lparr>Status := DR_Status x\<rparr> else msg = m)"

lemma shown_rows:
  assumes "lawful (gorm b) mr rr" and "\<forall>w d e. fst (t_take (recipients_t (gorm b)) w d) \<noteq> Inl (DBError e)"
  shows "history_rows b userA userB rows d = (out, d') \<Longrightarrow>
    list_all2 (shown (gorm b) (rr d) userA userB) rows out \<and> same_rows mr rr d d'"
proof (induction rows arbitrary: d d' out)
  case Nil
  then show ?case by (simp add: same_rows_def)
next
  case (Cons row rows)
  let ?m = "fromDBMessage row" and ?to = "if From (fromDBMessage row) = userA then userB else userA"
  let ?w = "row_is b (ServerMsgID ?m) ?to"
  obtain res d1 where t: "t_take (recipients_t (gorm b)) ?w d = (res, d1)" by fastforce
  obtain out1 d2 where h: "history_rows b userA userB rows d1 = (out1, d2)" by fastforce
  have out: "out = (case res of Inl _ \<Rightarrow> ?m | Inr rc \<Rightarrow> ?m\<lparr>Status := DR_Status rc\<rparr>) # out1" "d' = d2"
    using Cons.prems t h by (simp_all add: Let_def)
  have law: "take_law (recipients_t (gorm b)) rr" "read_law (recipients_t (gorm b)) mr rr"
    using assms(1) by (simp_all add: lawful_def)
  have same: "same_rows mr rr d d1"
    using law(2) t unfolding read_law_def by (metis snd_conv)
  have "\<forall>e. res \<noteq> Inl (DBError e)" using assms(2)[rule_format, of ?w d] t by auto
  with law(1)[unfolded take_law_def, rule_format, where w = ?w and d = d] t
  have "shown (gorm b) (rr d) userA userB row (case res of Inl _ \<Rightarrow> ?m | Inr rc \<Rightarrow> ?m\<lparr>Status := DR_Status rc\<rparr>)"
    by (auto simp: shown_def Let_def row_is_def split: sum.splits db_error.splits)
  with Cons.IH[OF h] same show ?case by (auto simp: out same_rows_def)
qed

section \<open>Property\<close>

text \<open>
  C21: the history of two users is what the database has. On a database that answers, the messages
  returned are those of the rows between the two users, all of them or, when there are more than
  the limit, as many as the limit says and the newest; they come in the order of their numbers,
  each with the status of the recipient's row where there is one; and asking changes nothing.
\<close>

theorem history_from_database:
  assumes "lawful (gorm b) mr rr" and "desc_law (messages_t (gorm b)) mr"
    and "\<forall>w ord lim. \<exists>rows. fst (t_find (messages_t (gorm b)) w ord lim None (db s)) = Inr rows"
    and "\<forall>w d e. fst (t_take (recipients_t (gorm b)) w d) \<noteq> Inl (DBError e)"
    and "persistent s" and "userA \<noteq> []" and "userB \<noteq> []"
    and h: "GetC2CHistory b r userA userB limit s = (ms, s')"
  shows "\<exists>older rows. mset (older @ rows) = mset (filter (\<lambda>row.
        coll (gorm b) (DM_SendID row) userA \<and> coll (gorm b) (DM_RecvID row) userB \<or>
        coll (gorm b) (DM_SendID row) userB \<and> coll (gorm b) (DM_RecvID row) userA) (mr (db s))) \<and>
      sorted (map DM_Seq (older @ rows)) \<and> (older = [] \<or> 0 < limit \<and> int (length rows) = limit) \<and>
      list_all2 (shown (gorm b) (rr (db s)) userA userB) rows ms \<and> map Seq ms = map DM_Seq rows \<and>
      s' = s\<lparr>db := db s'\<rparr> \<and> same_rows mr rr (db s) (db s')"
proof -
  let ?w = "\<lambda>row. coll (gorm b) (DM_SendID row) userA \<and> coll (gorm b) (DM_RecvID row) userB \<or>
    coll (gorm b) (DM_SendID row) userB \<and> coll (gorm b) (DM_RecvID row) userA"
  let ?ord = "Desc (\<lambda>row. uint (DM_Seq row))"
  obtain out where "fst (t_find (messages_t (gorm b)) ?w ?ord (limit_clause limit) None (db s)) = Inr out"
    using assms(3) by blast
  then obtain d where q: "t_find (messages_t (gorm b)) ?w ?ord (limit_clause limit) None (db s) = (Inr out, d)"
    by (cases "t_find (messages_t (gorm b)) ?w ?ord (limit_clause limit) None (db s)") simp
  obtain os d' where hr: "history_rows b userA userB out d = (os, d')" by fastforce
  have ms: "ms = rev os" "s' = s\<lparr>db := d'\<rparr>"
    using h q hr assms(5-7) by (simp_all add: GetC2CHistory_def reverseMessages_rev)
  have "read_law (messages_t (gorm b)) mr rr" using assms(1) by (simp add: lawful_def)
  from conjunct1[OF this[unfolded read_law_def, rule_format, where w = ?w and ord = ?ord and lim = "limit_clause limit" and
        off = None and d = "db s"]] q have same: "same_rows mr rr (db s) d" by simp
  from shown_rows[OF assms(1,4) hr] same
  have os: "list_all2 (shown (gorm b) (rr (db s)) userA userB) out os" "same_rows mr rr (db s) d'"
    by (auto simp: same_rows_def)
  obtain rest where rest: "mset (out @ rest) = mset (filter ?w (mr (db s)))"
    "sorted (map (\<lambda>row. uint (DM_Seq row)) (rev (out @ rest)))"
    "case limit_clause limit of None \<Rightarrow> rest = [] | Some n \<Rightarrow> rest = [] \<or> length out = n"
    using assms(2)[unfolded desc_law_def, rule_format, where w = ?w and k = "\<lambda>row. uint (DM_Seq row)" and
        lim = "limit_clause limit" and d = "db s" and out = out] q by auto
  have "sorted (map (\<lambda>row. uint (DM_Seq row)) xs) = sorted (map DM_Seq xs)" for xs
    unfolding sorted_wrt_map by (simp add: word_le_def)
  with rest(2) have "sorted (map DM_Seq (rev rest @ rev out))" by (metis rev_append)
  moreover have "map Seq os = map DM_Seq out"
    using os(1) by (induction rule: list_all2_induct) (auto simp: shown_def Let_def fromDBMessage_def split: if_splits)
  ultimately show ?thesis
    using rest(1,3) os ms
    by (intro exI[of _ "rev rest"] exI[of _ "rev out"]) (auto simp: limit_clause_def rev_map[symmetric] ac_simps split: if_splits)
qed

section \<open>An instance\<close>

lemma sorted_desc: "sorted (map k (rev (sort_key (\<lambda>x. - k x) hits)))" for k :: "'b \<Rightarrow> int"
  using sorted_sort_key[of "\<lambda>x. - k x" hits] by (simp add: sorted_wrt_map sorted_wrt_rev)

lemma desc_list_table: "desc_law (list_table get put clash set_id) get"
  unfolding desc_law_def
proof (intro allI impI)
  fix w k lim d out
  assume q: "fst (t_find (list_table get put clash set_id) w (Desc k) lim None d) = Inr out"
  let ?all = "sort_key (\<lambda>x. - k x) (filter w (get d))"
  have out: "out = (case lim of None \<Rightarrow> ?all | Some n \<Rightarrow> take n ?all)"
    using q by (cases lim) (simp_all add: list_table_def Let_def)
  show "\<exists>rest. mset (out @ rest) = mset (filter w (get d)) \<and> sorted (map k (rev (out @ rest))) \<and>
      (case lim of None \<Rightarrow> rest = [] | Some n \<Rightarrow> rest = [] \<or> length out = n)"
  proof (cases lim)
    case None
    with out sorted_desc[of k "filter w (get d)"] show ?thesis by simp
  next
    case (Some n)
    with out have "out @ drop n ?all = ?all" by simp
    moreover have "drop n ?all = [] \<or> length out = n" using out Some by auto
    ultimately show ?thesis
      using sorted_desc[of k "filter w (get d)"] Some by (intro exI[of _ "drop n ?all"]) (simp only: mset_sort option.case simp_thms)
  qed
qed

text \<open>Two messages between ann and bob, of which the newer is asked for.\<close>

definition talk :: tables where
  "talk = no_tables\<lparr>msg_rows :=
     [(toDBMessage (zero_Message\<lparr>ServerMsgID := ''s-1'', ClientMsgID := ''c-1'', From := ''ann'', To := ''bob'', Seq := 1\<rparr>)),
      (toDBMessage (zero_Message\<lparr>ServerMsgID := ''s-2'', ClientMsgID := ''c-1'', From := ''bob'', To := ''ann'', Seq := 2\<rparr>))]\<rparr>"

theorem history_from_database_witness:
  "sorted (map Seq (fst (GetC2CHistory sample_backend (sample_rt 0) ''ann'' ''bob'' 1 (NewInMemoryStore True talk []))))"
proof -
  obtain ms s' where h: "GetC2CHistory sample_backend (sample_rt 0) ''ann'' ''bob'' 1 (NewInMemoryStore True talk []) = (ms, s')"
    by fastforce
  have laws: "desc_law (messages_t (gorm sample_backend)) msg_rows"
    "\<forall>w ord lim. \<exists>rows. fst (t_find (messages_t (gorm sample_backend)) w ord lim None d) = Inr rows"
    "\<forall>w d e. fst (t_take (recipients_t (gorm sample_backend)) w d) \<noteq> Inl (DBError e)" for d
    by (simp_all add: sample_backend_def sample_db_def desc_list_table)
      (simp_all add: list_table_def Let_def split: list.split)
  have "persistent (NewInMemoryStore True talk [])" by (simp add: NewInMemoryStore_def)
  from history_from_database[OF lawful_backend laws this _ _ h] show ?thesis by (auto simp: h sorted_append)
qed

end
