(* ===== verification/Channel_Lock.thy ===== *)
theory Channel_Lock
  imports Session
begin

text \<open>
  The output channel of a session at the granularity of its lock
  (\<open>internal/session/session.go\<close>, \<open>SendMsg\<close> and \<open>Close\<close>). Any number of goroutines send
  to the channel while others close it; in Go, sending on a closed channel and closing it twice
  are panics. The other theories treat \<open>SendMsg\<close> and \<open>Close\<close> as atomic.
\<close>

text \<open>
  Where a goroutine is: outside; in \<open>SendMsg\<close> after \<open>mu.Lock\<close> or after the check of
  \<open>isClosed\<close>; in the body of \<open>closeOnce.Do\<close> before \<open>mu.Lock\<close>, after it, or after
  \<open>mu.Unlock\<close>.
\<close>

datatype place = Outside | Locked | Checked | Closing | Flagging | Flagged

record outbox =
  mu :: "nat option"
  closed_flag :: bool
  close_once :: bool
  chan_closed :: bool
  chan :: "string list"
  place_of :: "nat \<Rightarrow> place"

definition new_outbox :: outbox where
  "new_outbox = \<lparr>mu = None, closed_flag = False, close_once = False, chan_closed = False, chan = [],
     place_of = (\<lambda>_. Outside)\<rparr>"

definition move :: "nat \<Rightarrow> place \<Rightarrow> outbox \<Rightarrow> outbox" where
  "move g p s = s\<lparr>place_of := (place_of s)(g := p)\<rparr>"

text \<open>
  The steps. \<open>push\<close> and \<open>full\<close> are the two cases of the \<open>select\<close>, which end with the
  deferred unlock; \<open>receive\<close> is \<open>ListenMessage\<close>.
\<close>

inductive box_step :: "outbox \<Rightarrow> outbox \<Rightarrow> bool" where
  lock: "place_of s g = Outside \<Longrightarrow> mu s = None \<Longrightarrow> box_step s (move g Locked (s\<lparr>mu := Some g\<rparr>))"
| refuse: "place_of s g = Locked \<Longrightarrow> closed_flag s \<Longrightarrow> box_step s (move g Outside (s\<lparr>mu := None\<rparr>))"
| check: "place_of s g = Locked \<Longrightarrow> \<not> closed_flag s \<Longrightarrow> box_step s (move g Checked s)"
| push: "place_of s g = Checked \<Longrightarrow> length (chan s) < chan_cap \<Longrightarrow>
    box_step s (move g Outside (s\<lparr>mu := None, chan := chan s @ [msg]\<rparr>))"
| full: "place_of s g = Checked \<Longrightarrow> length (chan s) \<ge> chan_cap \<Longrightarrow>
    box_step s (move g Outside (s\<lparr>mu := None\<rparr>))"
| receive: "chan s = msg # rest \<Longrightarrow> box_step s (s\<lparr>chan := rest\<rparr>)"
| close_begin: "place_of s g = Outside \<Longrightarrow> \<not> close_once s \<Longrightarrow>
    box_step s (move g Closing (s\<lparr>close_once := True\<rparr>))"
| close_lock: "place_of s g = Closing \<Longrightarrow> mu s = None \<Longrightarrow>
    box_step s (move g Flagging (s\<lparr>mu := Some g\<rparr>))"
| close_flag: "place_of s g = Flagging \<Longrightarrow>
    box_step s (move g Flagged (s\<lparr>closed_flag := True, mu := None\<rparr>))"
| close_chan: "place_of s g = Flagged \<Longrightarrow> box_step s (move g Outside (s\<lparr>chan_closed := True\<rparr>))"

inductive_simps box_step_simps: "box_step s s'"

text \<open>A goroutine is about to send on a closed channel, or to close it a second time.\<close>

definition panics :: "outbox \<Rightarrow> bool" where
  "panics s \<longleftrightarrow> chan_closed s \<and> (\<exists>g. place_of s g = Checked \<or> place_of s g = Flagged)"

definition in_close :: "outbox \<Rightarrow> nat \<Rightarrow> bool" where
  "in_close s g \<longleftrightarrow> place_of s g \<in> {Closing, Flagging, Flagged}"

text \<open>
  Three invariants: the lock is held by whoever is in a critical section; what the flag says about
  the places; and there is at most one closer, before the channel is closed.
\<close>

definition lock_ok :: "outbox \<Rightarrow> bool" where
  "lock_ok s \<longleftrightarrow> (\<forall>g. place_of s g \<in> {Locked, Checked, Flagging} \<longrightarrow> mu s = Some g)"

definition flag_ok :: "outbox \<Rightarrow> bool" where
  "flag_ok s \<longleftrightarrow> (\<forall>g. (place_of s g = Checked \<longrightarrow> \<not> closed_flag s) \<and>
       (place_of s g = Flagged \<longrightarrow> closed_flag s)) \<and> (chan_closed s \<longrightarrow> closed_flag s)"

definition once_ok :: "outbox \<Rightarrow> bool" where
  "once_ok s \<longleftrightarrow> (\<forall>g. in_close s g \<longrightarrow> close_once s \<and> \<not> chan_closed s) \<and>
     (\<forall>g h. in_close s g \<longrightarrow> in_close s h \<longrightarrow> g = h) \<and> (chan_closed s \<longrightarrow> close_once s)"

text \<open>Whoever is in a critical section holds the lock, so nobody else is in one.\<close>

lemma holder_alone:
  assumes "lock_ok s" and "place_of s g \<in> {Locked, Checked, Flagging}" and "h \<noteq> g"
  shows "place_of s h \<notin> {Locked, Checked, Flagging}"
proof
  assume "place_of s h \<in> {Locked, Checked, Flagging}"
  then have "mu s = Some h" "mu s = Some g" using assms(1,2) unfolding lock_ok_def by blast+
  with assms(3) show False by simp
qed

lemma lock_ok_release:
  assumes "lock_ok s" and "place_of s g \<in> {Locked, Checked, Flagging}"
    and "p \<in> {Locked, Checked, Flagging} \<Longrightarrow> mu t = Some g" and "place_of t = place_of s"
  shows "lock_ok (move g p t)"
  using holder_alone[OF assms(1,2)] assms(3,4) by (simp add: lock_ok_def move_def)

lemma lock_ok_step: "box_step s s' \<Longrightarrow> lock_ok s \<Longrightarrow> lock_ok s'"
proof (induction rule: box_step.induct)
  case (refuse s g)
  then show ?case by (intro lock_ok_release) auto
next
  case (check s g)
  then have "mu s = Some g" by (simp add: lock_ok_def)
  with check show ?case by (intro lock_ok_release) auto
next
  case (push s g msg)
  then show ?case by (intro lock_ok_release) auto
next
  case (full s g)
  then show ?case by (intro lock_ok_release) auto
next
  case (close_flag s g)
  then show ?case by (intro lock_ok_release) auto
qed (auto simp: lock_ok_def move_def)

lemma flag_ok_step: "box_step s s' \<Longrightarrow> lock_ok s \<Longrightarrow> flag_ok s \<Longrightarrow> flag_ok s'"
proof (induction rule: box_step.induct)
  case (close_flag s g)
  then have "place_of s h \<noteq> Checked" if "h \<noteq> g" for h
    using holder_alone[of s g h] that by auto
  then show ?case by (simp add: flag_ok_def move_def)
qed (auto simp: flag_ok_def move_def)

lemma in_close_move:
  "in_close (move g p s) h = (if h = g then p \<in> {Closing, Flagging, Flagged} else in_close s h)"
  by (simp add: in_close_def move_def)

lemma in_close_frame [simp]:
  "in_close (s\<lparr>mu := m\<rparr>) = in_close s" "in_close (s\<lparr>chan := ch\<rparr>) = in_close s"
  "in_close (s\<lparr>closed_flag := f\<rparr>) = in_close s" "in_close (s\<lparr>close_once := f\<rparr>) = in_close s"
  "in_close (s\<lparr>chan_closed := f\<rparr>) = in_close s"
  by (simp_all add: fun_eq_iff in_close_def)

text \<open>A goroutine that moves within or outside of \<open>closeOnce.Do\<close> leaves the set of closers alone.\<close>

lemma once_ok_stay:
  assumes "once_ok s" and "in_close s g = (p \<in> {Closing, Flagging, Flagged})"
    and "close_once t = close_once s" "chan_closed t = chan_closed s" "in_close t = in_close s"
  shows "once_ok (move g p t)"
proof -
  have "in_close (move g p t) = in_close s"
    using assms(2,5) by (auto simp: fun_eq_iff in_close_move)
  moreover have "close_once (move g p t) = close_once s" "chan_closed (move g p t) = chan_closed s"
    using assms(3,4) by (simp_all add: move_def)
  ultimately show ?thesis using assms(1) by (simp only: once_ok_def)
qed

lemma once_ok_step: "box_step s s' \<Longrightarrow> once_ok s \<Longrightarrow> once_ok s'"
proof (induction rule: box_step.induct)
  case (receive s msg rest)
  then show ?case by (simp add: once_ok_def)
next
  case (close_begin s g)
  then have none: "\<not> in_close s h" "\<not> chan_closed s" for h by (auto simp: once_ok_def)
  then show ?case by (simp add: once_ok_def in_close_move) (simp add: move_def)
next
  case (close_chan s g)
  then have g: "in_close s g" by (simp add: in_close_def)
  then have "\<not> in_close s h" if "h \<noteq> g" for h
    using close_chan(2) that unfolding once_ok_def by blast
  then have "\<not> in_close (move g Outside (s\<lparr>chan_closed := True\<rparr>)) h" for h
    by (simp add: in_close_move)
  moreover have "close_once s" using close_chan(2) g unfolding once_ok_def by blast
  ultimately show ?case by (simp add: once_ok_def) (simp add: move_def)
qed (auto intro!: once_ok_stay simp: in_close_def)

lemma chan_bound_step: "box_step s s' \<Longrightarrow> length (chan s) \<le> chan_cap \<Longrightarrow> length (chan s') \<le> chan_cap"
  by (induction rule: box_step.induct) (auto simp: move_def)

text \<open>
  C18: no interleaving of senders and closers makes the process panic: nobody ever sends on the
  closed channel and nobody closes it twice, although \<open>Close\<close> closes the channel outside the
  lock; and the channel never holds more than ten messages.
\<close>

theorem never_sends_on_closed_channel:
  assumes "box_step\<^sup>*\<^sup>* new_outbox s"
  shows "\<not> panics s \<and> length (chan s) \<le> chan_cap"
proof -
  have "lock_ok s \<and> flag_ok s \<and> once_ok s \<and> length (chan s) \<le> chan_cap"
    using assms
  proof (induction rule: rtranclp_induct)
    case base
    show ?case by (simp add: new_outbox_def lock_ok_def flag_ok_def once_ok_def in_close_def)
  next
    case (step s t)
    then show ?case
      using lock_ok_step flag_ok_step once_ok_step chan_bound_step by blast
  qed
  then show ?thesis by (auto simp: panics_def flag_ok_def once_ok_def in_close_def)
qed

text \<open>A sender holds the lock when another goroutine starts to close.\<close>

theorem never_sends_on_closed_channel_witness:
  "\<not> panics (move 2 Closing (move 1 Locked (new_outbox\<lparr>mu := Some 1, close_once := True\<rparr>)))"
proof -
  let ?s1 = "move 1 Locked (new_outbox\<lparr>mu := Some 1\<rparr>)"
  have "box_step new_outbox ?s1" by (rule lock) (simp_all add: new_outbox_def)
  moreover have "box_step ?s1 (move 2 Closing (?s1\<lparr>close_once := True\<rparr>))"
    by (rule close_begin) (simp_all add: new_outbox_def move_def)
  ultimately have "box_step\<^sup>*\<^sup>* new_outbox (move 2 Closing (?s1\<lparr>close_once := True\<rparr>))" by simp
  from never_sends_on_closed_channel[OF this] show ?thesis by (simp add: move_def)
qed

end
