(* ===== verification/Store_Reports.thy ===== *)
theory Store_Reports
  imports Delivery_Ledger
begin

text \<open>
  Statistics and history of the store, and the places where its memory mode and its database
  mode, or its bookkeeping and the protocol, part ways.
\<close>

section \<open>Statistics\<close>

text \<open>The pairs of the ledger in a given state.\<close>

definition pairs_in :: "delivery_status \<Rightarrow> ledger \<Rightarrow> (string \<times> string) set" where
  "pairs_in st L = {(i, to). \<exists>n. L i to = Some (st, n)}"

definition status_count :: "delivery_status \<Rightarrow> DeliveryEntry list \<Rightarrow> nat" where
  "status_count st es = length (filter (\<lambda>e. status_of e = st) es)"

lemma count_entry_fold:
  "fold count_entry es st =
     st\<lparr>Pending := Pending st + int (status_count SPending es),
        Delivered := Delivered st + int (status_count SDelivered es),
        ReadCount := ReadCount st + int (status_count SRead es),
        DeadCount := DeadCount st + int (status_count SDead es)\<rparr>"
  by (induction es arbitrary: st) (simp_all add: count_entry_def status_count_def status_of_def)

text \<open>The positions of the entries that satisfy a predicate, one per entry.\<close>

definition places :: "(DeliveryEntry \<Rightarrow> bool) \<Rightarrow> DeliveryEntry gomap gomap \<Rightarrow> (string \<times> string) list" where
  "places P ds = concat (map (\<lambda>(i, m). map (\<lambda>(to, _). (i, to)) (filter (P \<circ> snd) m)) ds)"

lemma length_places: "length (places P ds) = length (filter P (concat (map (\<lambda>(_, m). map snd m) ds)))"
  by (induction ds) (auto simp: places_def filter_map)

lemma set_places:
  assumes "distinct (gkeys ds)" and "gall (\<lambda>i m. distinct (gkeys m)) ds"
  shows "set (places P ds) =
    {(i, to). \<exists>m e. map_of ds i = Some m \<and> map_of m to = Some e \<and> P e}"
proof -
  have "map_of ds i = Some m \<longleftrightarrow> (i, m) \<in> set ds" for i m
    using assms(1) by (rule map_of_eq_Some_iff)
  moreover have "map_of m to = Some e \<longleftrightarrow> (to, e) \<in> set m" if "(i, m) \<in> set ds" for i m to e
    using assms(2) that by (intro map_of_eq_Some_iff) (auto simp: gall_def list_all_iff)
  ultimately show ?thesis by (force simp: places_def)
qed

lemma distinct_places:
  assumes "distinct (gkeys ds)" and "gall (\<lambda>i m. distinct (gkeys m)) ds"
  shows "distinct (places P ds)"
  using assms
proof (induction ds)
  case (Cons x ds)
  obtain i m where x: "x = (i, m)" by (cases x)
  have "distinct (map (\<lambda>(to, _). (i, to)) (filter (P \<circ> snd) m))"
  proof -
    have "distinct (gkeys m)" using Cons.prems x by (simp add: gall_def)
    then have "distinct (map fst (filter (P \<circ> snd) m))" by (rule distinct_map_filter)
    then have "distinct (map (Pair i) (map fst (filter (P \<circ> snd) m)))"
      by (subst distinct_map) (simp add: inj_on_def)
    moreover have "map (Pair i) (map fst xs) = map (\<lambda>(to, _). (i, to)) xs"
      for xs :: "DeliveryEntry gomap" by (induction xs) auto
    ultimately show ?thesis by (simp only:)
  qed
  moreover have "fst ` set (places P ds) \<subseteq> fst ` set ds"
    by (force simp: places_def)
  moreover have "distinct (places P ds)" using Cons by (simp add: gall_def)
  ultimately show ?case using Cons.prems x by (force simp: places_def)
qed (simp add: places_def)

lemma status_count_ledger:
  assumes "store_wf s"
  shows "status_count st (all_entries s) = card (pairs_in st (ledger_of s))"
proof -
  have d: "distinct (gkeys (deliveries s))" "gall (\<lambda>i m. distinct (gkeys m)) (deliveries s)"
    using assms by (auto simp: store_wf_def gall_def list_all_iff)
  have "set (places (\<lambda>e. status_of e = st) (deliveries s)) = pairs_in st (ledger_of s)"
    by (auto simp: set_places[OF d] pairs_in_def ledger_of_def find_entry_def bind_eq_Some_conv)
  moreover have "status_count st (all_entries s) =
      length (places (\<lambda>e. status_of e = st) (deliveries s))"
    by (simp add: status_count_def all_entries_def length_places)
  ultimately show ?thesis
    using distinct_card[OF distinct_places[OF d, of "\<lambda>e. status_of e = st"]] by simp
qed

lemma status_count_total:
  "status_count SPending es + status_count SDelivered es + status_count SRead es +
   status_count SDead es = length es"
proof (induction es)
  case (Cons e es)
  then show ?case by (cases "status_of e") (simp_all add: status_count_def)
qed (simp add: status_count_def)

text \<open>
  In memory mode the statistics are the numbers of (message, recipient) pairs in each state
  of the ledger, and together they count every entry exactly once.
\<close>

theorem stats_count_ledger:
  assumes "\<not> persistent s" and "store_wf s"
  shows "let st = fst (DeliveryStats b s); L = ledger_of s in
    Pending st = int (card (pairs_in SPending L)) \<and>
    Delivered st = int (card (pairs_in SDelivered L)) \<and>
    ReadCount st = int (card (pairs_in SRead L)) \<and>
    DeadCount st = int (card (pairs_in SDead L)) \<and>
    Pending st + Delivered st + ReadCount st + DeadCount st = int (length (all_entries s))"
  using assms status_count_total[of "all_entries s"]
  by (simp add: DeliveryStats_def Let_def count_entry_fold zero_stats_def
      status_count_ledger[symmetric])

theorem stats_count_ledger_witness:
  "Delivered (fst (DeliveryStats sample_backend sample_store)) =
     int (card (pairs_in SDelivered (ledger_of sample_store)))"
  using stats_count_ledger[of sample_store sample_backend] sample_store_wf
  by (simp add: Let_def sample_store_def NewInMemoryStore_def)

section \<open>History\<close>

lemma map_filter_lookup: "distinct (gkeys m) \<Longrightarrow> List.map_filter (map_of m) (gkeys m) = map snd m"
proof (induction m)
  case (Cons x m)
  obtain k v where x: "x = (k, v)" by (cases x)
  have "List.map_filter (map_of (x # m)) (gkeys m) = List.map_filter (map_of m) (gkeys m)"
    using Cons.prems x by (auto simp: List.map_filter_def intro!: arg_cong[where f = "map _"]
        filter_cong map_cong)
  with Cons x show ?case by (simp add: List.map_filter_simps fun_upd_def)
qed (simp add: List.map_filter_simps)

lemma mset_map_filter: "mset xs = mset ys \<Longrightarrow> mset (List.map_filter f xs) = mset (List.map_filter f ys)"
  by (simp add: List.map_filter_def mset_filter)

text \<open>
  The history of two users in memory mode is ordered by sequence number and is the newest
  part of their conversation: all messages between the two, in either direction, split into
  older ones and the ones returned, every returned one at least as new as every older one, and
  as many as the limit allows.
\<close>

theorem history_newest_in_order:
  assumes "range_ok r" and "store_wf s"
  shows "\<exists>older. mset (older @ getC2CHistoryFromMemory r a b limit s) =
      mset (filter (between_users a b) (map snd (messages s))) \<and>
    sorted (map Seq (older @ getC2CHistoryFromMemory r a b limit s)) \<and>
    length (getC2CHistoryFromMemory r a b limit s) =
      (if limit > 0 then min (nat limit) (length (filter (between_users a b) (map snd (messages s))))
       else length (filter (between_users a b) (map snd (messages s))))"
proof -
  define found where "found = filter (between_users a b)
    (List.map_filter (map_of (messages s)) (rng r (gkeys (messages s))))"
  define n where "n = (if limit > 0 \<and> int (length found) > limit then length found - nat limit else 0)"
  have "mset (rng r (gkeys (messages s))) = mset (gkeys (messages s))"
    using assms(1) by (simp add: range_ok_def)
  then have "mset (List.map_filter (map_of (messages s)) (rng r (gkeys (messages s)))) =
      mset (List.map_filter (map_of (messages s)) (gkeys (messages s)))"
    by (rule mset_map_filter)
  also have "\<dots> = mset (map snd (messages s))"
    using assms(2) by (simp add: store_wf_def map_filter_lookup)
  finally have all: "mset found = mset (filter (between_users a b) (map snd (messages s)))"
    by (simp add: found_def mset_filter)
  then have len: "length found = length (filter (between_users a b) (map snd (messages s)))"
    by (rule mset_eq_length)
  have out: "getC2CHistoryFromMemory r a b limit s = drop n (sort_key Seq found)"
    by (simp add: getC2CHistoryFromMemory_def found_def n_def Let_def)
  show ?thesis
    unfolding out
  proof (intro exI[of _ "take n (sort_key Seq found)"] conjI)
    show "length (drop n (sort_key Seq found)) =
      (if limit > 0 then min (nat limit) (length (filter (between_users a b) (map snd (messages s))))
       else length (filter (between_users a b) (map snd (messages s))))"
      unfolding len[symmetric] by (auto simp: n_def)
  qed (simp_all only: append_take_drop_id mset_sort sorted_sort_key all)
qed

theorem history_newest_in_order_witness:
  "let s = snd (SaveMessage sample_backend (Some (zero_Message\<lparr>ServerMsgID := ''s-2'', From := ''ann'',
             To := ''bob'', Seq := 2\<rparr>))
          (snd (SaveMessage sample_backend (Some (zero_Message\<lparr>ServerMsgID := ''s-1'', From := ''bob'',
             To := ''ann'', Seq := 1\<rparr>)) (NewInMemoryStore False no_tables [])))) in
   length (getC2CHistoryFromMemory (sample_rt 0) ''ann'' ''bob'' 1 s) = 1"
proof -
  let ?m1 = "zero_Message\<lparr>ServerMsgID := ''s-1'', From := ''bob'', To := ''ann'', Seq := 1\<rparr>"
  let ?m2 = "zero_Message\<lparr>ServerMsgID := ''s-2'', From := ''ann'', To := ''bob'', Seq := 2\<rparr>"
  let ?s0 = "NewInMemoryStore False no_tables [] :: (tables, (string \<times> string) list) store"
  let ?s = "snd (SaveMessage sample_backend (Some ?m2) (snd (SaveMessage sample_backend (Some ?m1) ?s0)))"
  have wf: "store_wf ?s"
    using store_wf_run[OF store_wf_new, of sample_backend
        "[(sample_rt 0, OpSaveMessage (Some ?m1)), (sample_rt 0, OpSaveMessage (Some ?m2))]"]
    by simp
  have "messages ?s = [(''s-1'', ?m1), (''s-2'', ?m2)]"
    by (simp add: SaveMessage_def SaveMessageWithRecipients_def saveMessageUnsafe_def
        NewInMemoryStore_def Let_def)
  then have "length (filter (between_users ''ann'' ''bob'') (map snd (messages ?s))) = 2"
    by (simp add: between_users_def)
  with history_newest_in_order[OF range_ok_sample wf, of 0 "''ann''" "''bob''" 1]
  have "length (getC2CHistoryFromMemory (sample_rt 0) ''ann'' ''bob'' 1 ?s) = min (nat 1) 2"
    by (metis zero_less_one)
  then show ?thesis by (simp add: Let_def)
qed

section \<open>Where the code departs from its own protocol\<close>

text \<open>
  A retry that is scheduled for a recipient who has already acknowledged is not refused in
  the memory branch: the attempt that reaches the maximum turns a delivered or read pair into
  a dead letter (the database branch refuses rows with status 1 or more).
\<close>

theorem retry_buries_acknowledged:
  assumes "\<not> persistent s" and "i \<noteq> []" and "to \<noteq> []" and "find_entry s i to = Some e"
    and "Acked e" and "0 < mx" and "0 < base" and "Retry e + 1 \<ge> mx"
  shows "fst (ScheduleRetry b r i to err mx base s) = (True, None) \<and>
    ledger_of (snd (ScheduleRetry b r i to err mx base s)) i to = Some (SDead, Retry e + 1)"
  using assms by (simp add: ScheduleRetry_mem ledger_of_def status_of_def)

theorem retry_buries_acknowledged_witness:
  "ledger_of (snd (ScheduleRetry sample_backend (sample_rt 0) ''s-1'' ''bob'' None 1 second
     sample_store)) ''s-1'' ''bob'' = Some (SDead, 1)"
  using retry_buries_acknowledged[of sample_store "''s-1''" "''bob''"
      "(new_entry ''bob'')\<lparr>Acked := True\<rparr>" 1 second]
  by (simp add: sample_store_def NewInMemoryStore_def find_entry_def new_entry_def)

text \<open>
  The two modes disagree on a read receipt for a dead letter. After the same calls (save,
  one failed attempt with a maximum of one, read receipt) the memory mode counts a dead letter
  and the database mode, here on the sample backend, a read message.
\<close>

theorem read_of_dead_letter_diverges:
  "let b = sample_backend\<lparr>client := None\<rparr>;
       ops = [(sample_rt 0, OpSave (Some (zero_Message\<lparr>ServerMsgID := ''s-1''\<rparr>)) [''bob'']),
              (sample_rt 0, OpRetry ''s-1'' ''bob'' None 1 1),
              (sample_rt 0, OpRead ''s-1'' ''bob'')];
       stats = (\<lambda>p. fst (DeliveryStats b
          (run_store b ops (NewInMemoryStore p no_tables []))))
   in (DeadCount (stats False), ReadCount (stats False)) = (1, 0) \<and>
      (DeadCount (stats True), ReadCount (stats True)) = (0, 1)"
  by code_simp

end
