(* ===== verification/Handlers.thy ===== *)
theory Handlers
  imports Process_Steps Session_Props
begin

text \<open>
  The two goroutines of a connection (\<open>internal/server/conn.go\<close>): \<open>Handler\<close>, which waits for signs
  of life on the channel \<open>isLive\<close> and gives up after 300 seconds without one, and
  \<open>ManagerMessage\<close>, which reads the lines, signals, and closes the channel when it ends. The
  process of \<open>Connections\<close> lets any of their events happen at any time; here they happen in the
  order the two goroutines and their channel allow.
\<close>

section \<open>The goroutines and their channel\<close>

text \<open>
  \<open>Signalling\<close> is \<open>isLive <- true\<close>, \<open>Leaving\<close> the time between the logout and the deferred
  \<open>close(isLive)\<close>. \<open>waiting\<close> says that \<open>Handler\<close> has not returned.
\<close>

datatype manager = Reading | Signalling | Leaving | Ended

record link =
  isLive :: nat
  isLive_closed :: bool
  manager_at :: manager
  waiting :: bool

definition live_cap :: nat where "live_cap = 1"

definition new_link :: link where
  "new_link = \<lparr>isLive = 0, isLive_closed = False, manager_at = Reading, waiting = True\<rparr>"

record ('d, 'c) gsys =
  process :: "('d, 'c) sys"
  links :: "link list"

abbreviation the_link :: "('d, 'c) gsys \<Rightarrow> nat \<Rightarrow> link" where
  "the_link g c \<equiv> links g ! c"

definition set_link :: "nat \<Rightarrow> (link \<Rightarrow> link) \<Rightarrow> ('d, 'c) gsys \<Rightarrow> ('d, 'c) gsys" where
  "set_link c f g = g\<lparr>links := (links g)[c := f (links g ! c)]\<rparr>"

text \<open>What happens beside the two goroutines of any connection.\<close>

definition background :: "event \<Rightarrow> bool" where
  "background ev \<longleftrightarrow> (case ev of Listen c w \<Rightarrow> True | Run_logout \<Rightarrow> True | Heartbeat c \<Rightarrow> True
     | Deliver \<Rightarrow> True | Retry \<Rightarrow> True | _ \<Rightarrow> False)"

inductive gstep :: "('d, 'c) backend \<Rightarrow> env \<Rightarrow> ('d, 'c) gsys \<Rightarrow> ('d, 'c) gsys \<Rightarrow> bool"
  for b :: "('d, 'c) backend" and e :: env where
  accept: "x_env x = e \<Longrightarrow>
    gstep b e g \<lparr>process = exec_event x b rs (Connect remote) (process g),
      links = links g @ (if admits (rs 0) (Connect remote) (im_srv (process g)) then [new_link] else [])\<rparr>"
| line: "c < length (links g) \<Longrightarrow> manager_at (the_link g c) = Reading \<Longrightarrow> l \<noteq> RawError \<Longrightarrow> x_env x = e \<Longrightarrow>
    manager_round x b rs c l (process g) = (alive, y) \<Longrightarrow>
    gstep b e g (set_link c (\<lambda>k. k\<lparr>manager_at := if alive then Signalling else Reading\<rparr>) (g\<lparr>process := y\<rparr>))"
| read_error: "c < length (links g) \<Longrightarrow> manager_at (the_link g c) = Reading \<Longrightarrow>
    gstep b e g (set_link c (\<lambda>k. k\<lparr>manager_at := Leaving\<rparr>) (g\<lparr>process := Logout b rs c (process g)\<rparr>))"
| close_live: "c < length (links g) \<Longrightarrow> manager_at (the_link g c) = Leaving \<Longrightarrow>
    gstep b e g (set_link c (\<lambda>k. k\<lparr>manager_at := Ended, isLive_closed := True\<rparr>) g)"
| signal: "c < length (links g) \<Longrightarrow> manager_at (the_link g c) = Signalling \<Longrightarrow> isLive (the_link g c) < live_cap \<Longrightarrow>
    gstep b e g (set_link c (\<lambda>k. k\<lparr>manager_at := Reading, isLive := isLive k + 1\<rparr>) g)"
| receive: "c < length (links g) \<Longrightarrow> waiting (the_link g c) \<Longrightarrow> 0 < isLive (the_link g c) \<Longrightarrow>
    gstep b e g (set_link c (\<lambda>k. k\<lparr>isLive := isLive k - 1\<rparr>) g)"
| see_closed: "c < length (links g) \<Longrightarrow> waiting (the_link g c) \<Longrightarrow> isLive (the_link g c) = 0 \<Longrightarrow>
    isLive_closed (the_link g c) \<Longrightarrow>
    gstep b e g (set_link c (\<lambda>k. k\<lparr>waiting := False\<rparr>) (g\<lparr>process := on_srv handler_leave (process g)\<rparr>))"
| time_out: "c < length (links g) \<Longrightarrow> waiting (the_link g c) \<Longrightarrow>
    gstep b e g (set_link c (\<lambda>k. k\<lparr>waiting := False\<rparr>) (g\<lparr>process := Handler_timeout b rs c (process g)\<rparr>))"
| other: "background ev \<Longrightarrow> valid_event ev (process g) \<Longrightarrow> x_env x = e \<Longrightarrow>
    gstep b e g (g\<lparr>process := exec_event x b rs ev (process g)\<rparr>)"

definition greachable ::
  "('d, 'c) backend \<Rightarrow> env \<Rightarrow> bool \<Rightarrow> 'd \<Rightarrow> 'c \<Rightarrow> ('d, 'c) gsys \<Rightarrow> bool" where
  "greachable b e dbset d c0 g \<longleftrightarrow>
     (\<exists>now r. (gstep b e)\<^sup>*\<^sup>* \<lparr>process = boot e dbset d c0 now b r, links = []\<rparr> g)"

lemma link_frame [simp]:
  "process (set_link c f g) = process g" "links (set_link c f g) = (links g)[c := f (links g ! c)]"
  by (simp_all add: set_link_def)

section \<open>The invariant\<close>

text \<open>
  Every connection has its link; a manager that signals has not closed the channel; whoever has
  stopped, handler or manager, has logged the session out; and the number of active connections is
  the number of handlers that have not returned.
\<close>

definition link_ok :: "link \<Rightarrow> bool" where
  "link_ok k \<longleftrightarrow> isLive k \<le> live_cap \<and> isLive_closed k = (manager_at k = Ended)"

definition stopped :: "link \<Rightarrow> bool" where
  "stopped k \<longleftrightarrow> manager_at k \<in> {Leaving, Ended} \<or> \<not> waiting k"

definition gsys_inv :: "('d, 'c) gsys \<Rightarrow> bool" where
  "gsys_inv g \<longleftrightarrow> length (links g) = length (conns (process g)) \<and> (\<forall>k \<in> set (links g). link_ok k) \<and>
     (\<forall>c < length (links g). stopped (the_link g c) \<longrightarrow> loggedOut (the_user (process g) c)) \<and>
     activeConn (im_srv (process g)) = int (length (filter waiting (links g)))"

lemma count_update_same:
  "c < length xs \<Longrightarrow> P v = P (xs ! c) \<Longrightarrow> length (filter P (xs[c := v])) = length (filter P xs)"
proof (induction xs arbitrary: c)
  case (Cons x xs)
  then show ?case by (cases c) auto
qed simp

text \<open>A step that changes one link, and the process in a way that opens no connection.\<close>

lemma gsys_inv_set:
  assumes "gsys_inv g" and "c < length (links g)" and ev: "evolves b 0 k tn (process g) y"
    and "link_ok (f (the_link g c))"
    and "stopped (f (the_link g c)) \<Longrightarrow> stopped (the_link g c) \<or> loggedOut (the_user y c)"
    and "(waiting (f (the_link g c)) = waiting (the_link g c) \<and> k = 0) \<or>
      (waiting (the_link g c) \<and> \<not> waiting (f (the_link g c)) \<and> k = - 1)"
  shows "gsys_inv (set_link c f (g\<lparr>process := y\<rparr>))"
proof -
  have len: "length (conns y) = length (conns (process g))" using ev by (simp add: evolves_def)
  have kept: "loggedOut (the_user y i)" if "i < length (conns (process g))" "loggedOut (the_user (process g) i)" for i
    using ev that by (simp add: evolves_def sessions_le_def user_le_def)
  have active: "activeConn (im_srv y) = activeConn (im_srv (process g)) + k" using ev by (simp add: evolves_def)
  have "int (length (filter waiting ((links g)[c := f (the_link g c)]))) =
      int (length (filter waiting (links g))) + k"
    using assms(6) count_update_same[OF assms(2), of waiting "f (the_link g c)"]
      filter_update[OF assms(2), of waiting "f (the_link g c)"] by auto
  moreover have "\<forall>l \<in> set ((links g)[c := f (the_link g c)]). link_ok l"
    using assms(1,4) by (auto simp: gsys_inv_def dest!: set_update_subset_insert[THEN subsetD])
  moreover have "loggedOut (the_user y i)"
    if "i < length (links g)" "stopped ((links g)[c := f (the_link g c)] ! i)" for i
    using that assms(1,2,5) kept by (cases "i = c") (auto simp: gsys_inv_def)
  ultimately show ?thesis using assms(1) len active by (simp add: gsys_inv_def)
qed

lemma gsys_inv_link:
  assumes "gsys_inv g" and "c < length (links g)" and "link_ok (f (the_link g c))"
    and "stopped (f (the_link g c)) \<Longrightarrow> stopped (the_link g c)" and "waiting (f (the_link g c)) = waiting (the_link g c)"
  shows "gsys_inv (set_link c f g)"
proof -
  have "gsys_inv (set_link c f (g\<lparr>process := process g\<rparr>))"
    by (rule gsys_inv_set[where f = f, OF assms(1,2) evolves_refl assms(3)]) (use assms(4,5) in auto)
  then show ?thesis by simp
qed

lemma link_of: "gsys_inv g \<Longrightarrow> c < length (links g) \<Longrightarrow> link_ok (the_link g c)"
  by (simp add: gsys_inv_def)

lemma gsys_inv_accept:
  assumes "gsys_inv g"
  shows "gsys_inv \<lparr>process = exec_event x b rs (Connect remote) (process g),
    links = links g @ (if admits (rs 0) (Connect remote) (im_srv (process g)) then [new_link] else [])\<rparr>"
proof -
  let ?a = "admits (rs 0) (Connect remote) (im_srv (process g))"
  have ev: "evolves b (if ?a then 1 else 0) (if ?a then 1 else 0) 0 (process g) (exec_event x b rs (Connect remote) (process g))"
    using evolves_event[OF evolves_refl, of b rs "Connect remote" "process g" x] by (simp add: returns_def split: if_splits)
  then have "loggedOut (the_user (exec_event x b rs (Connect remote) (process g)) i)"
    if "i < length (links g)" "loggedOut (the_user (process g) i)" for i
    using assms that by (simp add: gsys_inv_def evolves_def sessions_le_def user_le_def)
  with assms ev show ?thesis
    by (auto simp: gsys_inv_def evolves_def nth_append new_link_def link_ok_def live_cap_def stopped_def less_Suc_eq
        split: if_splits)
qed

lemma gsys_inv_step:
  assumes "gstep b e g g'" and inv: "gsys_inv g"
  shows "gsys_inv g'"
  using assms(1)
proof (cases rule: gstep.cases)
  case (accept x rs remote)
  then show ?thesis using gsys_inv_accept[OF inv] by simp
next
  case (line c l x rs alive y)
  have "evolves b 0 0 0 (process g) (snd (manager_round x b rs c l (process g)))"
    by (rule evolves_manager_round[OF evolves_refl])
  then have "evolves b 0 0 0 (process g) y" using line(6) by simp
  then show ?thesis unfolding line(1)
    by (rule gsys_inv_set[OF inv line(2)]) (use line(3) link_of[OF inv line(2)] in \<open>auto simp: link_ok_def stopped_def split: if_splits\<close>)
next
  case (read_error c rs)
  have "c < length (conns (process g))" using inv read_error(2) by (simp add: gsys_inv_def)
  then have "loggedOut (the_user (Logout b rs c (process g)) c)" by (rule loggedOut_Logout)
  then show ?thesis unfolding read_error(1)
    by (intro gsys_inv_set[OF inv read_error(2) evolves_presence(4)[OF evolves_refl]])
      (use read_error(3) link_of[OF inv read_error(2)] in \<open>auto simp: link_ok_def\<close>)
next
  case (close_live c)
  then show ?thesis using link_of[OF inv close_live(2)]
    by (auto simp: link_ok_def stopped_def intro!: gsys_inv_link[OF inv])
next
  case (signal c)
  then show ?thesis using link_of[OF inv signal(2)]
    by (auto simp: link_ok_def stopped_def intro!: gsys_inv_link[OF inv])
next
  case (receive c)
  then show ?thesis using link_of[OF inv receive(2)]
    by (auto simp: link_ok_def stopped_def intro!: gsys_inv_link[OF inv])
next
  case (see_closed c)
  have "evolves b 0 (- 1) 0 (process g) (on_srv handler_leave (process g))"
    using evolves_handler(1)[OF evolves_refl, of b "process g"] by simp
  then show ?thesis unfolding see_closed(1)
    by (rule gsys_inv_set[OF inv see_closed(2)])
      (use see_closed(3,5) link_of[OF inv see_closed(2)] in \<open>auto simp: link_ok_def stopped_def\<close>)
next
  case (time_out c rs)
  have "evolves b 0 0 0 (process g) (Logout b rs c (SendMsg c txt_kicked (process g)))"
    by (intro evolves_presence evolves_SendMsg evolves_refl)
  from evolves_handler(1)[OF this] have "evolves b 0 (- 1) 0 (process g) (Handler_timeout b rs c (process g))"
    by (simp add: Handler_timeout_def)
  moreover have "c < length (conns (SendMsg c txt_kicked (process g)))" using inv time_out(2) by (simp add: gsys_inv_def)
  then have "loggedOut (the_user (Handler_timeout b rs c (process g)) c)"
    unfolding Handler_timeout_def sys_frame by (rule loggedOut_Logout)
  ultimately show ?thesis unfolding time_out(1)
    by (intro gsys_inv_set[OF inv time_out(2)]) (use time_out(3) link_of[OF inv time_out(2)] in \<open>auto simp: link_ok_def\<close>)
next
  case (other ev x rs)
  have "evolves b 0 0 (if ev = Deliver then 1 else 0) (process g) (exec_event x b rs ev (process g))"
    using evolves_event[OF evolves_refl, of b rs ev "process g" x] other(2)
    by (cases ev) (simp_all add: background_def admits_def returns_def)
  with inv show ?thesis unfolding other(1)
    by (auto simp: gsys_inv_def evolves_def sessions_le_def user_le_def)
qed

lemma gsys_inv_boot: "gsys_inv \<lparr>process = boot e p d c0 now b r, links = []\<rparr>"
  by (simp add: gsys_inv_def boot_def Start_def SetWorker_def NewServer_def case_prod_beta set_store_def)

lemma greachable_inv: "greachable b e p d c0 g \<Longrightarrow> gsys_inv g"
proof -
  assume "greachable b e p d c0 g"
  then obtain now r where "(gstep b e)\<^sup>*\<^sup>* \<lparr>process = boot e p d c0 now b r, links = []\<rparr> g"
    by (auto simp: greachable_def)
  then show ?thesis by (induction rule: rtranclp_induct) (auto intro: gsys_inv_boot gsys_inv_step)
qed

section \<open>The goroutines implement the process\<close>

lemma line_event: "snd (manager_round x b rs c l y) = exec_event x b rs (Line c l) y"
  by (simp add: exec_event_def)

lemma gstep_process:
  assumes "gstep b e g g'" and "gsys_inv g"
  shows "(step b e)\<^sup>*\<^sup>* (process g) (process g')"
proof -
  have len: "length (links g) = length (conns (process g))" using assms(2) by (simp add: gsys_inv_def)
  have one: "(step b e)\<^sup>*\<^sup>* y (exec_event x b rs ev y)" if "valid_event ev y" "x_env x = e" for x rs ev y
    using step_event[OF that] by blast
  have env: "x_env (sample_ext\<lparr>x_env := e\<rparr>) = e" by simp
  show ?thesis
    using assms(1)
  proof (cases rule: gstep.cases)
    case (accept x rs remote)
    then show ?thesis using one[of "Connect remote"] by (simp add: valid_event_def)
  next
    case (line c l x rs alive y)
    then have "y = exec_event x b rs (Line c l) (process g)" using line_event[of x b rs c l "process g"] by simp
    then show ?thesis using one[of "Line c l", OF _ line(5)] line len by (simp add: valid_event_def)
  next
    case (read_error c rs)
    then have "process g' = exec_event (sample_ext\<lparr>x_env := e\<rparr>) b rs (Line c RawError) (process g)"
      by (simp add: exec_event_def manager_round_def)
    then show ?thesis using one[of "Line c RawError", OF _ env] read_error(2) len by (simp add: valid_event_def)
  next
    case (see_closed c)
    then have "process g' = exec_event (sample_ext\<lparr>x_env := e\<rparr>) b (\<lambda>_. sample_rt 0) Leave_handler (process g)"
      by (simp add: exec_event_def)
    then show ?thesis using one[of Leave_handler, OF _ env] by (simp add: valid_event_def)
  next
    case (time_out c rs)
    then have "process g' = exec_event (sample_ext\<lparr>x_env := e\<rparr>) b rs (Idle c) (process g)"
      by (simp add: exec_event_def)
    then show ?thesis using one[of "Idle c", OF _ env] time_out(2) len by (simp add: valid_event_def)
  next
    case (other ev x rs)
    then show ?thesis using one[OF other(3,4)] by simp
  qed simp_all
qed

section \<open>Properties\<close>

text \<open>
  The state of the process is one that the process of single events reaches, so that its
  invariant and every property of its reachable states hold; and every connection has exactly one
  pair of goroutines.
\<close>

lemma handlers_refine_process:
  assumes "greachable b e p d c0 g"
  shows "reachable b e p d c0 (process g) \<and> length (links g) = length (conns (process g))"
proof
  obtain now r where run: "(gstep b e)\<^sup>*\<^sup>* \<lparr>process = boot e p d c0 now b r, links = []\<rparr> g"
    using assms by (auto simp: greachable_def)
  then have "gsys_inv g \<and> (step b e)\<^sup>*\<^sup>* (boot e p d c0 now b r) (process g)"
  proof (induction rule: rtranclp_induct)
    case base
    show ?case by (simp add: gsys_inv_boot)
  next
    case (step g1 g2)
    then show ?case using gstep_process[OF step(2)] gsys_inv_step[OF step(2)] by auto
  qed
  then show "reachable b e p d c0 (process g)" and "length (links g) = length (conns (process g))"
    by (auto simp: reachable_def gsys_inv_def)
qed

text \<open>
  C16: the number of active connections that the statistics report is exactly the number of handlers
  that have not returned, so it is never negative; and a session whose handler has returned, or
  whose reader has stopped, is logged out.
\<close>

theorem active_connections_exact:
  assumes "greachable b e p d c0 g"
  shows "st_ActiveConn (fst (SnapshotStats b r (im_srv (process g)))) = int (length (filter waiting (links g))) \<and>
    (\<forall>c < length (links g). \<not> waiting (the_link g c) \<or> manager_at (the_link g c) = Ended \<longrightarrow>
      loggedOut (the_user (process g) c))"
proof -
  have "st_ActiveConn (fst (SnapshotStats b r v)) = activeConn v" for v
    by (simp add: SnapshotStats_def Let_def case_prod_beta)
  with greachable_inv[OF assms] show ?thesis by (auto simp: gsys_inv_def stopped_def)
qed

text \<open>
  C17: as long as the handler waits, neither goroutine gets stuck. A reader that has to signal never
  finds the channel closed; if it cannot signal at once, the handler takes a sign of life off the
  channel and it can; and when the reader has closed the channel the handler empties it and returns.
\<close>

theorem waiting_handler_never_blocks:
  assumes "greachable b e p d c0 g" and c: "c < length (links g)" and w: "waiting (the_link g c)"
  shows "(manager_at (the_link g c) = Signalling \<longrightarrow> \<not> isLive_closed (the_link g c) \<and>
      (\<exists>g'. (gstep b e)\<^sup>*\<^sup>* g g' \<and> manager_at (the_link g' c) = Reading \<and> process g' = process g)) \<and>
    (isLive_closed (the_link g c) \<longrightarrow>
      (\<exists>g'. (gstep b e)\<^sup>*\<^sup>* g g' \<and> \<not> waiting (the_link g' c) \<and> process g' = on_srv handler_leave (process g)))"
proof -
  have ok: "link_ok (the_link g c)" by (rule link_of[OF greachable_inv[OF assms(1)] c])
  have empty: "\<exists>g1. (gstep b e)\<^sup>*\<^sup>* g g1 \<and> length (links g1) = length (links g) \<and> process g1 = process g \<and>
      the_link g1 c = (the_link g c)\<lparr>isLive := 0\<rparr>"
  proof (cases "isLive (the_link g c) = 0")
    case True
    then have "the_link g c = (the_link g c)\<lparr>isLive := 0\<rparr>" by simp
    then show ?thesis by blast
  next
    case False
    then have one: "isLive (the_link g c) = 1" using ok by (simp add: link_ok_def live_cap_def)
    have "gstep b e g (set_link c (\<lambda>k. k\<lparr>isLive := isLive k - 1\<rparr>) g)"
      using c w False by (intro receive) simp_all
    moreover have "the_link (set_link c (\<lambda>k. k\<lparr>isLive := isLive k - 1\<rparr>) g) c = (the_link g c)\<lparr>isLive := 0\<rparr>"
      using c one by simp
    ultimately show ?thesis by (intro exI[of _ "set_link c (\<lambda>k. k\<lparr>isLive := isLive k - 1\<rparr>) g"]) auto
  qed
  then obtain g1 where g1: "(gstep b e)\<^sup>*\<^sup>* g g1" "c < length (links g1)" "process g1 = process g"
    "the_link g1 c = (the_link g c)\<lparr>isLive := 0\<rparr>" using c by metis
  have "\<exists>g'. (gstep b e)\<^sup>*\<^sup>* g g' \<and> manager_at (the_link g' c) = Reading \<and> process g' = process g"
    if "manager_at (the_link g c) = Signalling"
  proof -
    have "gstep b e g1 (set_link c (\<lambda>k. k\<lparr>manager_at := Reading, isLive := isLive k + 1\<rparr>) g1)"
      using g1 that by (intro signal) (simp_all add: live_cap_def)
    with g1 show ?thesis by (intro exI[of _ "set_link c (\<lambda>k. k\<lparr>manager_at := Reading, isLive := isLive k + 1\<rparr>) g1"]) auto
  qed
  moreover have "\<exists>g'. (gstep b e)\<^sup>*\<^sup>* g g' \<and> \<not> waiting (the_link g' c) \<and> process g' = on_srv handler_leave (process g)"
    if "isLive_closed (the_link g c)"
  proof -
    let ?g2 = "set_link c (\<lambda>k. k\<lparr>waiting := False\<rparr>) (g1\<lparr>process := on_srv handler_leave (process g1)\<rparr>)"
    have "gstep b e g1 ?g2" using g1 that w by (intro see_closed) simp_all
    with g1 show ?thesis by (intro exI[of _ ?g2]) auto
  qed
  moreover have "manager_at (the_link g c) = Signalling \<longrightarrow> \<not> isLive_closed (the_link g c)"
    using ok by (simp add: link_ok_def)
  ultimately show ?thesis by blast
qed

section \<open>A reader without a handler\<close>

text \<open>The reader of a connection waits to signal, the channel is full, and the handler has returned.\<close>

definition stuck :: "nat \<Rightarrow> ('d, 'c) gsys \<Rightarrow> bool" where
  "stuck c g \<longleftrightarrow> c < length (links g) \<and> manager_at (the_link g c) = Signalling \<and>
     isLive (the_link g c) = live_cap \<and> \<not> waiting (the_link g c)"

lemma stuck_step: "gstep b e g g' \<Longrightarrow> stuck c g \<Longrightarrow> stuck c g'"
  by (induction rule: gstep.induct) (auto simp: stuck_def nth_list_update nth_append)

lemma stuck_steps: "(gstep b e)\<^sup>*\<^sup>* g g' \<Longrightarrow> stuck c g \<Longrightarrow> stuck c g'"
  by (induction rule: rtranclp_induct) (auto intro: stuck_step)

text \<open>Every line of an authenticated session that is not JSON is a sign of life.\<close>

lemma help_is_alive:
  assumes "Authenticated (the_user y c)"
  shows "fst (manager_round x b rs c (RawLine ''help'') y)"
proof -
  have "decodeInputText (x_gb18030 x) ''help'' = ''help''"
    by (simp add: decodeInputText_def) code_simp
  moreover have "TrimSpace ''help'' = ''help''" by code_simp
  ultimately show ?thesis
    using assms by (simp add: manager_round_def processRawLine_def Let_def HasPrefix_def)
qed

lemma help_line:
  assumes "c < length (links g)" and "manager_at (the_link g c) = Reading"
    and "gsys_inv g" and "Authenticated (the_user (process g) c)"
  shows "\<exists>y. gstep b e g (set_link c (\<lambda>k. k\<lparr>manager_at := Signalling\<rparr>) (g\<lparr>process := y\<rparr>)) \<and>
    Authenticated (the_user y c)"
proof -
  let ?x = "sample_ext\<lparr>x_env := e\<rparr>" and ?rs = "\<lambda>_. sample_rt 0"
  obtain alive y where y: "manager_round ?x b ?rs c (RawLine ''help'') (process g) = (alive, y)" by fastforce
  then have "alive" using help_is_alive[OF assms(4), of ?x b ?rs] by simp
  moreover have "gstep b e g (set_link c (\<lambda>k. k\<lparr>manager_at := if alive then Signalling else Reading\<rparr>) (g\<lparr>process := y\<rparr>))"
    by (rule line[OF assms(1,2) _ _ y]) simp_all
  moreover have "evolves b 0 0 0 (process g) y"
    using evolves_manager_round[OF evolves_refl, of b "process g" ?x ?rs c "RawLine ''help''"] y by simp
  then have "Authenticated (the_user y c)"
    using assms(1,3,4) by (simp add: evolves_def sessions_le_def user_le_def gsys_inv_def)
  ultimately show ?thesis by auto
qed

text \<open>
  Runs with the number of lines of one connection that its reader takes for a sign of life: after
  each of them it goes on to signal.
\<close>

inductive alive_lines ::
  "('d, 'c) backend \<Rightarrow> env \<Rightarrow> nat \<Rightarrow> nat \<Rightarrow> ('d, 'c) gsys \<Rightarrow> ('d, 'c) gsys \<Rightarrow> bool"
  for b :: "('d, 'c) backend" and e :: env and c :: nat where
  alive_none: "alive_lines b e c 0 g g"
| alive_step: "alive_lines b e c n g g1 \<Longrightarrow> gstep b e g1 g2 \<Longrightarrow>
    alive_lines b e c
      (n + (if manager_at (the_link g1 c) = Reading \<and> manager_at (the_link g2 c) = Signalling then 1 else 0)) g g2"

lemma alive_lines_steps: "alive_lines b e c n g g' \<Longrightarrow> (gstep b e)\<^sup>*\<^sup>* g g'"
  by (induction rule: alive_lines.induct) (auto intro: rtranclp.rtrancl_into_rtrancl)

text \<open>Without a handler, what is in the channel and the signal to be sent grow with these lines.\<close>

definition signs :: "link \<Rightarrow> nat" where
  "signs k = isLive k + (if manager_at k = Signalling then 1 else 0)"

lemma signs_step:
  "gstep b e g g' \<Longrightarrow> c < length (links g) \<Longrightarrow> \<not> waiting (the_link g c) \<Longrightarrow>
   c < length (links g') \<and> \<not> waiting (the_link g' c) \<and> signs (the_link g' c) = signs (the_link g c) +
     (if manager_at (the_link g c) = Reading \<and> manager_at (the_link g' c) = Signalling then 1 else 0)"
  by (induction rule: gstep.induct) (auto simp: signs_def nth_list_update nth_append)

lemma signs_lines:
  "alive_lines b e c n g g' \<Longrightarrow> c < length (links g) \<Longrightarrow> \<not> waiting (the_link g c) \<Longrightarrow>
   c < length (links g') \<and> \<not> waiting (the_link g' c) \<and> signs (the_link g' c) = signs (the_link g c) + n"
  by (induction rule: alive_lines.induct) (use signs_step in fastforce)+

lemma full_stuck:
  assumes "link_ok (the_link g c)" and "c < length (links g)" and "\<not> waiting (the_link g c)"
  shows "signs (the_link g c) \<le> live_cap + 1" and "live_cap + 1 \<le> signs (the_link g c) \<Longrightarrow> stuck c g"
  using assms by (auto simp: signs_def link_ok_def stuck_def split: if_splits)

lemma can_get_stuck:
  assumes inv: "gsys_inv h" and c: "c < length (links h)" and "manager_at (the_link h c) = Reading"
    and "\<not> waiting (the_link h c)" and "Authenticated (the_user (process h) c)"
  shows "\<exists>n g. n \<le> 2 \<and> alive_lines b e c n h g \<and> stuck c g"
proof -
  obtain y1 where y1: "gstep b e h (set_link c (\<lambda>k. k\<lparr>manager_at := Signalling\<rparr>) (h\<lparr>process := y1\<rparr>))"
    "Authenticated (the_user y1 c)"
    using help_line[OF c assms(3) inv assms(5)] by blast
  let ?h1 = "set_link c (\<lambda>k. k\<lparr>manager_at := Signalling\<rparr>) (h\<lparr>process := y1\<rparr>)"
  have i1: "gsys_inv ?h1" by (rule gsys_inv_step[OF y1(1) inv])
  have l1: "alive_lines b e c 1 h ?h1"
    using alive_step[where c = c, OF alive_none y1(1)] assms(3) c by simp
  show ?thesis
  proof (cases "isLive (the_link h c) = live_cap")
    case True
    then have "stuck c ?h1" using c assms(4) by (simp add: stuck_def)
    with l1 show ?thesis by (intro exI[of _ 1] exI[of _ ?h1]) simp
  next
    case False
    then have zero: "isLive (the_link h c) = 0" using link_of[OF inv c] by (simp add: link_ok_def live_cap_def)
    let ?h2 = "set_link c (\<lambda>k. k\<lparr>manager_at := Reading, isLive := isLive k + 1\<rparr>) ?h1"
    have s2: "gstep b e ?h1 ?h2" using c zero by (intro signal) (simp_all add: live_cap_def)
    have l2: "alive_lines b e c 1 h ?h2" using alive_step[OF l1 s2] c by simp
    have "c < length (links ?h2)" "manager_at (the_link ?h2 c) = Reading" "Authenticated (the_user (process ?h2) c)"
      using c y1(2) by simp_all
    then obtain y3 where y3: "gstep b e ?h2 (set_link c (\<lambda>k. k\<lparr>manager_at := Signalling\<rparr>) (?h2\<lparr>process := y3\<rparr>))"
      using help_line[OF _ _ gsys_inv_step[OF s2 i1]] by blast
    let ?h3 = "set_link c (\<lambda>k. k\<lparr>manager_at := Signalling\<rparr>) (?h2\<lparr>process := y3\<rparr>)"
    have "alive_lines b e c 2 h ?h3" using alive_step[OF l2 y3] c by (simp add: numeral_2_eq_2)
    moreover have "stuck c ?h3" using c zero assms(4) by (simp add: stuck_def live_cap_def)
    ultimately show ?thesis by blast
  qed
qed

lemma after_timeout:
  assumes inv: "gsys_inv g" and c: "c < length (links g)" and w: "waiting (the_link g c)"
    and h_def: "h = set_link c (\<lambda>k. k\<lparr>waiting := False\<rparr>) (g\<lparr>process := Handler_timeout b rs c (process g)\<rparr>)"
  shows "gstep b e g h" "c < length (links h)" "the_link h c = (the_link g c)\<lparr>waiting := False\<rparr>"
    "Authenticated (the_user (process g) c) \<Longrightarrow> Authenticated (the_user (process h) c)"
proof -
  show "gstep b e g h" unfolding h_def using c w by (rule time_out)
  have "evolves b 0 (- 1) 0 (process g) (Handler_timeout b rs c (process g))"
    using evolves_event[OF evolves_refl, of b rs "Idle c" "process g" sample_ext]
    by (simp add: exec_event_def admits_def returns_def)
  then show "Authenticated (the_user (process g) c) \<Longrightarrow> Authenticated (the_user (process h) c)"
    using c inv by (simp add: h_def evolves_def sessions_le_def user_le_def gsys_inv_def)
qed (use c in \<open>simp_all add: h_def\<close>)

text \<open>
  C39: a reader can be left behind. When the idle timeout of a connection strikes while the handler waits, the handler
  returns, and from then on, whatever the rest of the process does, the reader can take at most two
  more lines for signs of life; after two of them it waits to signal on a full channel that nobody
  reads, and stays there whatever happens, so that the goroutine and its user object are never
  released. When the session is authenticated and the reader is about to read, there are such
  lines, which it may have in its buffer: at most two lead to that state.
\<close>

theorem reader_left_behind:
  assumes "greachable b e p d c0 g" and c: "c < length (links g)" and w: "waiting (the_link g c)"
    and h_def: "h = set_link c (\<lambda>k. k\<lparr>waiting := False\<rparr>) (g\<lparr>process := Handler_timeout b rs c (process g)\<rparr>)"
  shows "gstep b e g h \<and>
    (\<forall>n g1. alive_lines b e c n h g1 \<longrightarrow> n \<le> 2 \<and>
      (n = 2 \<longrightarrow> (\<forall>g2. (gstep b e)\<^sup>*\<^sup>* g1 g2 \<longrightarrow> manager_at (the_link g2 c) = Signalling \<and> \<not> waiting (the_link g2 c)))) \<and>
    (manager_at (the_link g c) = Reading \<and> Authenticated (the_user (process g) c) \<longrightarrow>
      (\<exists>n g1. n \<le> 2 \<and> alive_lines b e c n h g1 \<and>
        (\<forall>g2. (gstep b e)\<^sup>*\<^sup>* g1 g2 \<longrightarrow> manager_at (the_link g2 c) = Signalling \<and> \<not> waiting (the_link g2 c))))"
proof -
  have inv: "gsys_inv g" by (rule greachable_inv[OF assms(1)])
  note h = after_timeout[OF inv c w h_def]
  have h_off: "\<not> waiting (the_link h c)" by (simp add: h(3))
  have for_ever: "\<forall>g2. (gstep b e)\<^sup>*\<^sup>* g1 g2 \<longrightarrow> manager_at (the_link g2 c) = Signalling \<and> \<not> waiting (the_link g2 c)"
    if "stuck c g1" for g1
    using stuck_steps[OF _ that] by (auto simp: stuck_def)
  have bound: "n \<le> 2 \<and> (n = 2 \<longrightarrow> stuck c g1)" if run: "alive_lines b e c n h g1" for n g1
  proof -
    note s = signs_lines[OF run h(2) h_off]
    have "(gstep b e)\<^sup>*\<^sup>* g g1" using alive_lines_steps[OF run] h(1) by (meson converse_rtranclp_into_rtranclp)
    then have "gsys_inv g1" using inv by (induction rule: rtranclp_induct) (auto intro: gsys_inv_step)
    then have "link_ok (the_link g1 c)" using s by (intro link_of) simp_all
    from full_stuck[OF this] s show ?thesis by (auto simp: live_cap_def)
  qed
  have "\<exists>n g1. n \<le> 2 \<and> alive_lines b e c n h g1 \<and> stuck c g1"
    if "manager_at (the_link g c) = Reading" "Authenticated (the_user (process g) c)"
    by (rule can_get_stuck[OF gsys_inv_step[OF h(1) inv] h(2)]) (use h that in simp_all)
  with h(1) bound for_ever show ?thesis by blast
qed

section \<open>Instances\<close>

text \<open>A process that has accepted a connection, whose user has then registered.\<close>

definition g_boot :: "(tables, (string \<times> string) list) gsys" where
  "g_boot = \<lparr>process = boot [] True no_tables [] 0 sample_backend (sample_rt 0), links = []\<rparr>"

definition y_conn :: "(tables, (string \<times> string) list) sys" where
  "y_conn = exec_event sample_ext sample_backend (\<lambda>_. sample_rt 0) (Connect ''10.0.0.7:5000'') (process g_boot)"

definition g_conn :: "(tables, (string \<times> string) list) gsys" where
  "g_conn = \<lparr>process = y_conn, links = [new_link]\<rparr>"

definition y_ann :: "(tables, (string \<times> string) list) sys" where
  "y_ann = snd (manager_round sample_ext sample_backend (\<lambda>_. sample_rt 0) 0 (RawLine ''register|ann|pw'') y_conn)"

definition g_ann :: "(tables, (string \<times> string) list) gsys" where
  "g_ann = \<lparr>process = y_ann, links = [new_link\<lparr>manager_at := Signalling\<rparr>]\<rparr>"

lemma boot_state: "conns (process g_boot) = []" "OnlineMap (im_srv (process g_boot)) = []"
  "persistent (store_of (process g_boot))" "user_rows (db (store_of (process g_boot))) = []" "cache (store_of (process g_boot)) = []"
  by code_simp+

lemma g_boot_conn: "gstep sample_backend [] g_boot g_conn"
proof -
  have "admits (sample_rt 0) (Connect ''10.0.0.7:5000'') (im_srv (process g_boot))" by code_simp
  then have "g_conn = \<lparr>process = exec_event sample_ext sample_backend (\<lambda>_. sample_rt 0) (Connect ''10.0.0.7:5000'') (process g_boot),
      links = links g_boot @ (if admits ((\<lambda>_. sample_rt 0) 0) (Connect ''10.0.0.7:5000'') (im_srv (process g_boot))
        then [new_link] else [])\<rparr>"
    by (simp add: g_conn_def y_conn_def g_boot_def)
  moreover have "x_env sample_ext = []" by (simp add: sample_ext_def)
  ultimately show ?thesis
    using accept[of sample_ext "[]" sample_backend g_boot "\<lambda>_. sample_rt 0" "''10.0.0.7:5000''"] by simp
qed

lemma y_conn_state: "length (conns y_conn) = 1" "\<not> Authenticated (the_user y_conn 0)" "OnlineMap (im_srv y_conn) = []"
  "store_of y_conn = store_of (process g_boot)"
proof -
  have "fst (accept_round (sample_rt 0) (Some ''10.0.0.7:5000'') (im_srv (process g_boot))) = None" by code_simp
  note conn = connect_state[of "\<lambda>_. sample_rt 0", OF this y_conn_def]
  show "length (conns y_conn) = 1" "\<not> Authenticated (the_user y_conn 0)" "OnlineMap (im_srv y_conn) = []"
    "store_of y_conn = store_of (process g_boot)"
    unfolding conn by (simp_all add: boot_state)
qed

lemma ann_line: "fst (manager_round sample_ext sample_backend (\<lambda>_. sample_rt 0) 0 (RawLine ''register|ann|pw'') y_conn)"
  and ann_authenticated: "Authenticated (the_user y_ann 0)"
proof -
  have "decodeInputText (x_gb18030 sample_ext) ''register|ann|pw'' = ''register|ann|pw''"
    by (simp add: decodeInputText_def) code_simp
  moreover have "TrimSpace ''register|ann|pw'' = ''register|ann|pw''" "TrimSpace ''ann'' = ''ann''"
    "lower_prefix ''register|'' ''register|ann|pw''" "SplitN CHR ''|'' 3 ''register|ann|pw'' = [''register'', ''ann'', ''pw'']"
    "\<not> ContainsAny ''ann'' name_breaks" by code_simp+
  ultimately show "fst (manager_round sample_ext sample_backend (\<lambda>_. sample_rt 0) 0 (RawLine ''register|ann|pw'') y_conn)"
    "Authenticated (the_user y_ann 0)"
    using register_line[of "''register|ann|pw''" _ "''ann''" _ y_conn sample_backend 0 "\<lambda>_. sample_rt 0", OF _ _ _ _ _ _ _ _ _ _ _ _ _ _ _
        prod.collapse[symmetric]] y_conn_state boot_state
    unfolding y_ann_def by (simp_all add: sample_backend_def)
qed

lemma g_conn_ann: "gstep sample_backend [] g_conn g_ann"
proof -
  have m: "manager_round sample_ext sample_backend (\<lambda>_. sample_rt 0) 0 (RawLine ''register|ann|pw'') (process g_conn) =
      (True, y_ann)" using ann_line by (simp add: y_ann_def g_conn_def prod_eq_iff)
  have "gstep sample_backend [] g_conn (set_link 0 (\<lambda>k. k\<lparr>manager_at := if True then Signalling else Reading\<rparr>)
      (g_conn\<lparr>process := y_ann\<rparr>))"
    by (rule line[OF _ _ _ _ m]) (simp_all add: g_conn_def new_link_def sample_ext_def)
  then show ?thesis by (simp add: g_ann_def g_conn_def set_link_def)
qed

lemma g_reach: "greachable sample_backend [] True no_tables [] g_conn" "greachable sample_backend [] True no_tables [] g_ann"
  using g_boot_conn g_conn_ann unfolding greachable_def g_boot_def
  by (meson r_into_rtranclp rtranclp.rtrancl_into_rtrancl)+

theorem active_connections_exact_witness:
  "st_ActiveConn (fst (SnapshotStats sample_backend (sample_rt 0) (im_srv (process g_ann)))) = 1"
  using active_connections_exact[OF g_reach(2)] by (simp add: g_ann_def new_link_def)

theorem waiting_handler_never_blocks_witness:
  "\<exists>g'. (gstep sample_backend [])\<^sup>*\<^sup>* g_ann g' \<and> manager_at (the_link g' 0) = Reading"
  using waiting_handler_never_blocks[OF g_reach(2), of 0] by (auto simp: g_ann_def new_link_def)

theorem reader_left_behind_witness:
  "\<exists>g1. (gstep sample_backend [])\<^sup>*\<^sup>* g_ann g1 \<and> manager_at (the_link g1 0) = Signalling \<and> \<not> waiting (the_link g1 0)"
proof -
  let ?h = "set_link 0 (\<lambda>k. k\<lparr>manager_at := Reading, isLive := isLive k + 1\<rparr>) g_ann"
  have st: "gstep sample_backend [] g_ann ?h"
    by (rule signal) (simp_all add: g_ann_def new_link_def live_cap_def)
  then have reach: "greachable sample_backend [] True no_tables [] ?h"
    using g_reach(2) unfolding greachable_def by (meson rtranclp.rtrancl_into_rtrancl)
  have g: "0 < length (links ?h)" "waiting (the_link ?h 0)" "manager_at (the_link ?h 0) = Reading"
    "Authenticated (the_user (process ?h) 0)"
    using ann_authenticated by (simp_all add: g_ann_def new_link_def)
  let ?t = "set_link 0 (\<lambda>k. k\<lparr>waiting := False\<rparr>)
      (?h\<lparr>process := Handler_timeout sample_backend (\<lambda>_. sample_rt 0) 0 (process ?h)\<rparr>)"
  obtain n g1 where "gstep sample_backend [] ?h ?t"
    and run: "alive_lines sample_backend [] 0 n ?t g1"
    and "\<forall>g2. (gstep sample_backend [])\<^sup>*\<^sup>* g1 g2 \<longrightarrow> manager_at (the_link g2 0) = Signalling \<and> \<not> waiting (the_link g2 0)"
    using reader_left_behind[where rs = "\<lambda>_. sample_rt 0", OF reach g(1,2) refl] g(3,4) by blast
  with st alive_lines_steps[OF run] show ?thesis
    by (meson converse_rtranclp_into_rtranclp rtranclp.rtrancl_refl)
qed

end
