(* ===== verification/Startup.thy ===== *)
theory Startup
  imports Process_Steps
begin

text \<open>
  How the process comes up: the connection to the database (\<open>internal/storage/db.go\<close>) and to the
  cache (\<open>initClient\<close> in \<open>internal/cache/redis.go\<close>), and \<open>main\<close> (\<open>src/main.go\<close>). Opening a
  connection, migrating tables, the ping and the listener are parameters.
\<close>

section \<open>The database (db.go)\<close>

text \<open>The two tables the program migrates and never uses (\<open>internal/storage/model.go\<close>).\<close>

record db_room =
  RM_ID :: nat
  RM_RoomID :: string
  RM_Name :: string
  RM_OwnerID :: string
  RM_CreateTime :: int

record db_group_member =
  GM_ID :: nat
  GM_RoomID :: string
  GM_UserID :: string
  GM_Role :: int
  GM_JoinTime :: int

datatype model_table = UserTable | MessageTable | MessageRecipientTable | RoomTable | GroupMemberTable

text \<open>\<open>gorm.Open\<close> returns a handle also when it fails.\<close>

record ('d, 'e) mysql =
  open_db :: "string \<Rightarrow> 'e option \<times> 'd"
  migrate :: "model_table list \<Rightarrow> 'd \<Rightarrow> 'e option \<times> 'd"

definition AutoMigrate :: "('d, 'e) mysql \<Rightarrow> 'd \<Rightarrow> 'e option \<times> 'd" where
  "AutoMigrate g d = migrate g [UserTable, MessageTable, MessageRecipientTable, RoomTable, GroupMemberTable] d"

text \<open>The driver: an unknown one is logged and replaced.\<close>

definition db_driver :: "env \<Rightarrow> string" where
  "db_driver e =
     (let driver = TrimSpace (Getenv e ''IM_DB_DRIVER'');
          driver1 = (if driver = [] then ''mysql'' else driver)
      in if driver1 \<noteq> ''mysql'' then ''mysql'' else driver1)"

definition default_dsn :: string where
  "default_dsn = ''root:secret@tcp(127.0.0.1:3306)/goim?charset=utf8mb4&parseTime=True&loc=Local''"

definition dsn_to_open :: "env \<Rightarrow> string \<Rightarrow> string" where
  "dsn_to_open e dsn =
     (let dsn1 = (if TrimSpace dsn = [] then TrimSpace (Getenv e ''IM_DB_DSN'') else dsn)
      in if dsn1 = [] then default_dsn else dsn1)"

text \<open>\<open>InitDB\<close>: the error and \<open>storage.DB\<close>.\<close>

definition InitDB :: "('d, 'e) mysql \<Rightarrow> env \<Rightarrow> string \<Rightarrow> 'e option \<times> 'd" where
  "InitDB g e dsn =
     (case open_db g (dsn_to_open e dsn) of
        (Some err, d) \<Rightarrow> (Some err, d)
      | (None, d) \<Rightarrow> AutoMigrate g d)"

section \<open>The cache (redis.go)\<close>

text \<open>
  \<open>initClient\<close>, on whether the server at an address answers a ping: without an address there is
  no client, and an address that does not answer ends the process.
\<close>

datatype 'k client_start = NoClient | ClientFatal | ClientReady 'k

definition initClient :: "(string \<Rightarrow> 'k) \<Rightarrow> ('k \<Rightarrow> bool) \<Rightarrow> env \<Rightarrow> 'k client_start" where
  "initClient new_client ping e =
     (let addr = TrimSpace (Getenv e ''IM_REDIS_ADDR'') in
      if addr = [] then NoClient
      else if \<not> ping (new_client addr) then ClientFatal
      else ClientReady (new_client addr))"

text \<open>\<open>Client\<close> with its \<open>sync.Once\<close>: \<open>None\<close> before the first call.\<close>

definition Client ::
  "(string \<Rightarrow> 'k) \<Rightarrow> ('k \<Rightarrow> bool) \<Rightarrow> env \<Rightarrow> 'k client_start option \<Rightarrow> 'k client_start \<times> 'k client_start option" where
  "Client new_client ping e once =
     (let c = (case once of None \<Rightarrow> initClient new_client ping e | Some c \<Rightarrow> c) in (c, Some c))"

section \<open>main\<close>

text \<open>
  \<open>main\<close>, on the content of \<open>.env.local\<close> and on whether the port can be listened on: it ends with
  an error of the database, or without a listener, or serves.
\<close>

datatype ('d, 'c, 'e) outcome = InitFailed 'e | ListenFailed | Serving "('d, 'c) sys"

definition configured_dsn :: "env \<Rightarrow> string" where
  "configured_dsn e = (let dsn = TrimSpace (Getenv e ''IM_DB_DSN'') in if dsn = [] then default_dsn else dsn)"

definition main ::
  "string option \<Rightarrow> ('d, 'e) mysql \<Rightarrow> bool \<Rightarrow> ('d, 'c) backend \<Rightarrow> 'c \<Rightarrow> int \<Rightarrow> rt \<Rightarrow> env \<Rightarrow> ('d, 'c, 'e) outcome" where
  "main file g listens b c0 now r e0 =
     (let e = LoadEnvFilesIfUnset [file] e0 in
      case InitDB g e (configured_dsn e) of
        (Some err, d) \<Rightarrow> InitFailed err
      | (None, d) \<Rightarrow> (if listens then Serving (boot e True d c0 now b r) else ListenFailed))"

lemma default_dsn_plain: "TrimSpace default_dsn = default_dsn" "default_dsn \<noteq> []"
  by code_simp+

lemma configured_dsn_ne: "configured_dsn e \<noteq> []"
  using default_dsn_plain(2) by (simp add: configured_dsn_def Let_def)

lemma configured_dsn_opened [simp]: "dsn_to_open e (configured_dsn e) = configured_dsn e"
  using default_dsn_plain by (auto simp: dsn_to_open_def configured_dsn_def Let_def)

text \<open>
  C25: a serving process always runs on a database. When \<open>main\<close> gets as far as serving, the database
  that was opened is the one named in the environment, or by the first binding in \<open>.env.local\<close>,
  or the default one; its tables are migrated; and in every later state the store is in database
  mode, so that its memory mode is never used by the program.
\<close>

theorem main_serves_in_database_mode:
  assumes "main file g listens b c0 now r e0 = Serving y" and e_def: "e = LoadEnvFilesIfUnset [file] e0"
  shows "(\<exists>d0 d. open_db g (configured_dsn e) = (None, d0) \<and> AutoMigrate g d0 = (None, d) \<and> reachable b e True d c0 y) \<and>
    (\<forall>y'. (step b e)\<^sup>*\<^sup>* y y' \<longrightarrow> persistent (store_of y')) \<and>
    (\<forall>v. map_of e0 ''IM_DB_DSN'' = Some v \<and> TrimSpace v \<noteq> [] \<longrightarrow> configured_dsn e = TrimSpace v)"
proof -
  obtain d0 d where d: "open_db g (configured_dsn e) = (None, d0)" "AutoMigrate g d0 = (None, d)"
    and y: "y = boot e True d c0 now b r"
    using assms(1) by (auto simp: main_def Let_def e_def[symmetric] InitDB_def split: prod.splits option.splits if_splits)
  have "persistent (store_of y)"
    using touches_persistent[OF touches_boot[where e = e and p = True and d = d and c = c0 and now = now and r = r and b = b]]
    by (simp add: y NewInMemoryStore_def)
  then have "persistent (store_of y')" if "(step b e)\<^sup>*\<^sup>* y y'" for y'
    using evolves_steps[OF that] touches_persistent by (auto simp: evolves_def)
  moreover have "configured_dsn e = TrimSpace v" if "map_of e0 ''IM_DB_DSN'' = Some v" "TrimSpace v \<noteq> []" for v
    using load_keeps[OF that(1), of "[file]"] that(2) by (simp add: e_def configured_dsn_def Getenv_def)
  moreover have "reachable b e True d c0 y" unfolding reachable_def y by blast
  ultimately show ?thesis using d by blast
qed

theorem main_serves_in_database_mode_witness:
  "case main None \<lparr>open_db = (\<lambda>dsn. (if dsn = ''db'' then None else Some ''refused'', no_tables)), migrate = (\<lambda>ts d. (None, d))\<rparr> True
     sample_backend [] 0 (sample_rt 0) [(''IM_DB_DSN'', ''db'')] of Serving y \<Rightarrow> persistent (store_of y) | _ \<Rightarrow> False"
proof -
  let ?g = "\<lparr>open_db = (\<lambda>dsn. (if dsn = ''db'' then None else Some ''refused'', no_tables)), migrate = (\<lambda>ts d. (None, d))\<rparr>"
  let ?e = "[(''IM_DB_DSN'', ''db'')]"
  have "TrimSpace ''db'' = ''db''" by code_simp
  then have "configured_dsn ?e = ''db''" by (simp add: configured_dsn_def Getenv_def)
  then have m: "main None ?g True sample_backend [] 0 (sample_rt 0) ?e =
      Serving (boot ?e True no_tables [] 0 sample_backend (sample_rt 0))"
    by (simp add: main_def Let_def LoadEnvFilesIfUnset_def loadOneEnvFileIfUnset_def InitDB_def AutoMigrate_def)
  from main_serves_in_database_mode[OF this refl]
  have "\<forall>y'. (step sample_backend (LoadEnvFilesIfUnset [None] ?e))\<^sup>*\<^sup>*
      (boot ?e True no_tables [] 0 sample_backend (sample_rt 0)) y' \<longrightarrow> persistent (store_of y')" by blast
  then show ?thesis unfolding m by simp
qed

end
