(* ===== verification/Name_Limits.thy ===== *)
theory Name_Limits
  imports Crash_Recovery
begin

text \<open>
  Names and column widths. Account names may have 50 characters (\<open>internal/storage/model.go\<close>), the
  id of a conversation joins two of them (\<open>C2CChatID\<close>), and its column holds 64.
\<close>

text \<open>MySQL in strict mode, its default, refuses a value that does not fit; for ASCII, a character is a byte.\<close>

definition strict_chat_ids :: "'d gorm_db \<Rightarrow> bool" where
  "strict_chat_ids g \<longleftrightarrow> (\<forall>row d. (\<forall>c \<in> set (DM_ChatID row). byte c < 128) \<and> 64 < length (DM_ChatID row) \<longrightarrow>
     fst (t_create_ignore (messages_t g) row d) \<noteq> None)"

lemma length_C2CChatID: "length (C2CChatID a b) = length a + length b + 5"
  by (simp add: C2CChatID_def)

lemma set_C2CChatID: "set (C2CChatID a b) = set ''c2c:'' \<union> set a \<union> set b"
  by (auto simp: C2CChatID_def)

text \<open>A chat id that is too long is never stored.\<close>

lemma save_needs_short_id:
  assumes "strict_chat_ids (gorm b)" and "tx_law (gorm b) mr rr" and "persistent s"
    and "SaveMessageWithRecipients b (Some m) rs s = (None, s')" and "\<forall>c \<in> set (ChatID m). byte c < 128"
  shows "length (ChatID m) \<le> 64"
proof (rule ccontr)
  assume long: "\<not> length (ChatID m) \<le> 64"
  obtain d where tx: "save_tx b m rs (db s) = (None, d)"
    using assms(3,4) by (auto simp: SaveMessageWithRecipients_def Let_def split: if_splits prod.splits option.splits)
  let ?body = "\<lambda>d. case t_create_ignore (messages_t (gorm b)) (toDBMessage m) d of
      (Some e, d') \<Rightarrow> (Some e, d') | (None, d') \<Rightarrow> insert_recipients b (ServerMsgID m) rs d'"
  obtain d1 where body: "?body (db s) = (None, d1)"
    using assms(2)[unfolded tx_law_def, rule_format, of ?body "db s", unfolded tx[unfolded save_tx_def]]
    by (simp only: prod.case option.case) blast
  have "fst (t_create_ignore (messages_t (gorm b)) (toDBMessage m) (db s)) \<noteq> None"
    using assms(1,5) long by (simp add: strict_chat_ids_def toDBMessage_def)
  with body show False by (auto split: prod.splits option.splits)
qed

lemma commit_chat:
  "send_commit (InMemoryStore b) r q rs l = (Saved m, l') \<Longrightarrow> ChatID m = chat_of q"
  by (auto simp: send_commit_def Let_def split: prod.splits option.splits)

lemma send_chat:
  assumes "send b r req rs y = (Saved m, y1)"
  shows "ChatID m = chat_of req"
  using assms
  by (auto simp: send_def srv_ProcessSend_def ProcessSend_def send_check_def Let_def chat_of_def
      dest!: commit_chat split: prod.splits sum.splits option.splits if_splits)

text \<open>
  C40: requests that leave the choice of the chat to the server are refused between long names. On
  a database in strict mode, a request between two users whose names, in ASCII, have together more
  than 59 characters and that carries no chat id of its own is never accepted, with whatever
  text, time and client id: the id \<open>C2CChatID\<close> gives their conversation does not fit its column.
  Accounts with names of up to 50 characters are created. The command \<open>to|name|text\<close> sends such
  requests only; a client that sends JSON may set a chat id itself.
\<close>

theorem long_names_cannot_chat:
  assumes strict: "strict_chat_ids (gorm b)" and law: "lawful (gorm b) mr rr" "accounts_law (gorm b) mr rr"
    and reach: "lives b d0 y"
    and req: "TrimSpace (ChatID req) = []" "To req \<noteq> []" "59 < length (From req) + length (To req)"
    and ascii: "\<forall>c \<in> set (From req) \<union> set (To req). byte c < 128"
  shows "\<forall>m. fst (send b r req rs y) \<noteq> Saved m"
proof (intro allI notI)
  fix m
  assume "fst (send b r req rs y) = Saved m"
  then obtain y1 where sent: "send b r req rs y = (Saved m, y1)" by (metis prod.collapse)
  then obtain s where s: "persistent s = persistent (store_of y)"
    "SaveMessageWithRecipients b (Some m) rs s = (None, store_of y1)" using send_saves[OF law(1)] by blast
  have chat: "ChatID m = C2CChatID (From req) (To req)"
    using send_chat[OF sent] req(1,2) by (simp add: chat_of_def C2CChatID_def Let_def)
  have "length (ChatID m) \<le> 64"
  proof (rule save_needs_short_id[OF strict _ _ s(2)])
    show "tx_law (gorm b) mr rr" using law(1) by (simp add: lawful_def)
    show "persistent s" using lives_moves(2)[OF law reach] s(1) by simp
    show "\<forall>c \<in> set (ChatID m). byte c < 128" using ascii unfolding chat set_C2CChatID by auto
  qed
  with req(3) show False by (simp add: chat length_C2CChatID)
qed

section \<open>A strict backend\<close>

definition strict_messages :: "(tables, db_message) table" where
  "strict_messages = (messages_t sample_db)\<lparr>t_create_ignore := (\<lambda>row d.
     if 64 < length (DM_ChatID row) then (Some (DBError ''Data too long''), d)
     else t_create_ignore (messages_t sample_db) row d)\<rparr>"

definition strict_backend :: "(tables, (string \<times> string) list) backend" where
  "strict_backend = sample_backend\<lparr>gorm := sample_db\<lparr>messages_t := strict_messages\<rparr>\<rparr>"

lemma lawful_strict: "lawful (gorm strict_backend) msg_rows recip_rows" "accounts_law (gorm strict_backend) msg_rows recip_rows"
proof -
  have tab: "t_find strict_messages = t_find (messages_t sample_db)" "t_take strict_messages = t_take (messages_t sample_db)"
    by (simp_all add: strict_messages_def)
  have "insert_law strict_messages msg_rows recip_rows (msg_clash sample_db) msg_stored"
    using lawful_sample by (auto simp: lawful_def insert_law_def strict_messages_def same_rows_def split: prod.splits)
  moreover have "msg_clash (sample_db\<lparr>messages_t := strict_messages\<rparr>) = msg_clash sample_db"
    "rec_clash (sample_db\<lparr>messages_t := strict_messages\<rparr>) = rec_clash sample_db"
    by (simp_all add: fun_eq_iff msg_clash_def rec_clash_def)
  ultimately show "lawful (gorm strict_backend) msg_rows recip_rows"
    using lawful_sample
    by (simp add: lawful_def strict_backend_def find_law_def take_law_def read_law_def tx_law_def tab)
  show "accounts_law (gorm strict_backend) msg_rows recip_rows"
    using accounts_backend by (simp add: accounts_law_def strict_backend_def sample_backend_def)
qed

theorem long_names_cannot_chat_witness:
  "let ann = replicate 30 CHR ''a''; bob = replicate 30 CHR ''b'' in
   \<forall>m. fst (send strict_backend (sample_rt 0) (zero_Message\<lparr>From := ann, To := bob\<rparr>) [bob]
     (boot [] True no_tables [] 0 strict_backend (sample_rt 0))) \<noteq> Saved m"
proof -
  have "strict_chat_ids (gorm strict_backend)"
    by (simp add: strict_chat_ids_def strict_backend_def strict_messages_def)
  then show ?thesis
    unfolding Let_def by (rule long_names_cannot_chat[OF _ lawful_strict lives_boot]) (simp_all add: zero_Message_def)
qed

end
