(* ===== verification/Send_Threads.thy ===== *)
theory Send_Threads
  imports Logic_Service
begin

text \<open>
  Sends in progress at the same time. \<open>ProcessSend\<close> and \<open>BroadcastSystemEvent\<close>
  (\<open>internal/server/logic.go\<close>, \<open>broadcast.go\<close>) hold no lock over their store calls, so the calls
  of several goroutines interleave. Here every store call and every draw from the atomic counter
  is a step of its own.
\<close>

section \<open>Goroutines and their steps\<close>

text \<open>Where a goroutine is: what it has already and what it does next.\<close>

datatype send_place =
    SendIdle
  | Passed Message "string list"
  | Numbered Message "string list" "64 word"
  | EventNumbered string "string list" "64 word"
  | Named Message "string list"

text \<open>The service, the goroutines, and the messages whose save returned without an error.\<close>

record 's sending =
  service :: "'s LogicService"
  places :: "nat \<Rightarrow> send_place"
  kept_msgs :: "Message list"

definition send_msg :: "Message \<Rightarrow> 64 word \<Rightarrow> string \<Rightarrow> int \<Rightarrow> Message" where
  "send_msg req seq i t = zero_Message\<lparr>Type := TypeDeliver, ServerMsgID := i,
     ClientMsgID := ClientMsgID req, ChatID := chat_of req, From := From req,
     To := To req, Seq := seq, Body := Body req, Ts := unix t\<rparr>"

definition event_msg :: "string \<Rightarrow> 64 word \<Rightarrow> string \<Rightarrow> int \<Rightarrow> Message" where
  "event_msg body seq i t = zero_Message\<lparr>Type := TypeDeliver, ServerMsgID := i, ChatID := ''system'',
     From := ''system'', Body := body, Seq := seq, Ts := unix t\<rparr>"

inductive send_step :: "'s Store \<Rightarrow> 's sending \<Rightarrow> 's sending \<Rightarrow> bool" for st :: "'s Store" where
  pass: "places z g = SendIdle \<Longrightarrow> send_check st r req (service z) = (Inr q, l) \<Longrightarrow>
    send_step st z (z\<lparr>service := l, places := (places z)(g := Passed q rs)\<rparr>)"
| answer: "places z g = SendIdle \<Longrightarrow> send_check st r req (service z) = (Inl res, l) \<Longrightarrow>
    send_step st z (z\<lparr>service := l\<rparr>)"
| number: "places z g = Passed q rs \<Longrightarrow> i_NextSeq st (chat_of q) (l_store (service z)) = (seq, s) \<Longrightarrow>
    send_step st z (z\<lparr>service := (service z)\<lparr>l_store := s\<rparr>, places := (places z)(g := Numbered q rs seq)\<rparr>)"
| name: "places z g = Numbered q rs seq \<Longrightarrow> GenerateServerMsgID t ''s'' (service z) = (i, l) \<Longrightarrow>
    send_step st z (z\<lparr>service := l, places := (places z)(g := Named (send_msg q seq i t') rs)\<rparr>)"
| event: "places z g = SendIdle \<Longrightarrow> i_NextSeq st ''system'' (l_store (service z)) = (seq, s) \<Longrightarrow>
    send_step st z (z\<lparr>service := (service z)\<lparr>l_store := s\<rparr>,
      places := (places z)(g := EventNumbered body rs seq)\<rparr>)"
| event_name: "places z g = EventNumbered body rs seq \<Longrightarrow> GenerateServerMsgID t ''sys'' (service z) = (i, l) \<Longrightarrow>
    send_step st z (z\<lparr>service := l, places := (places z)(g := Named (event_msg body seq i t') rs)\<rparr>)"
| save: "places z g = Named m rs \<Longrightarrow>
    i_SaveMessageWithRecipients st (Some m) rs (l_store (service z)) = (e, s) \<Longrightarrow>
    send_step st z (z\<lparr>service := (service z)\<lparr>l_store := s\<rparr>, places := (places z)(g := SendIdle),
      kept_msgs := (if e = None then kept_msgs z @ [m] else kept_msgs z)\<rparr>)"
| other: "foreign_call op \<Longrightarrow>
    send_step st z (z\<lparr>service := (service z)\<lparr>l_store := call_store st (r, op) (l_store (service z))\<rparr>\<rparr>)"

text \<open>Without interference the steps of one goroutine are \<open>send_commit\<close> and \<open>system_event\<close>.\<close>

lemma commit_steps:
  assumes "places z g = Passed q rs" and "send_commit st r q rs (service z) = (res, l)"
  shows "(send_step st)\<^sup>*\<^sup>* z (z\<lparr>service := l, places := (places z)(g := SendIdle),
    kept_msgs := kept_msgs z @ (case res of Saved m \<Rightarrow> [m] | _ \<Rightarrow> [])\<rparr>)"
proof -
  obtain seq s1 where 1: "i_NextSeq st (chat_of q) (l_store (service z)) = (seq, s1)" by fastforce
  let ?z1 = "z\<lparr>service := (service z)\<lparr>l_store := s1\<rparr>, places := (places z)(g := Numbered q rs seq)\<rparr>"
  obtain i l1 where 2: "GenerateServerMsgID (clk r 1) ''s'' (service ?z1) = (i, l1)" by fastforce
  let ?m = "send_msg q seq i (clk r 2)"
  let ?z2 = "?z1\<lparr>service := l1, places := (places ?z1)(g := Named ?m rs)\<rparr>"
  obtain e s2 where 3: "i_SaveMessageWithRecipients st (Some ?m) rs (l_store (service ?z2)) = (e, s2)" by fastforce
  let ?z3 = "?z2\<lparr>service := (service ?z2)\<lparr>l_store := s2\<rparr>, places := (places ?z2)(g := SendIdle),
      kept_msgs := (if e = None then kept_msgs ?z2 @ [?m] else kept_msgs ?z2)\<rparr>"
  have "send_step st z ?z1" by (rule number[OF assms(1) 1])
  moreover have "send_step st ?z1 ?z2" by (rule name[OF _ 2]) simp
  moreover have "send_step st ?z2 ?z3" by (rule save[OF _ 3]) simp
  ultimately have "(send_step st)\<^sup>*\<^sup>* z ?z3" by (meson rtranclp.intros)
  moreover have "?z3 = z\<lparr>service := l, places := (places z)(g := SendIdle),
      kept_msgs := kept_msgs z @ (case res of Saved m \<Rightarrow> [m] | _ \<Rightarrow> [])\<rparr>"
    using assms(2) 1 2 3 by (auto simp: send_commit_def send_msg_def Let_def split: option.splits)
  ultimately show ?thesis by simp
qed

lemma event_steps:
  assumes "places z g = SendIdle"
  shows "\<exists>kept. (send_step st)\<^sup>*\<^sup>* z (z\<lparr>service := snd (system_event st r body rs (service z)), kept_msgs := kept\<rparr>)"
proof -
  obtain seq s1 where 1: "i_NextSeq st ''system'' (l_store (service z)) = (seq, s1)" by fastforce
  let ?z1 = "z\<lparr>service := (service z)\<lparr>l_store := s1\<rparr>, places := (places z)(g := EventNumbered body rs seq)\<rparr>"
  obtain i l1 where 2: "GenerateServerMsgID (clk r 0) ''sys'' (service ?z1) = (i, l1)" by fastforce
  let ?m = "event_msg body seq i (clk r 1)"
  let ?z2 = "?z1\<lparr>service := l1, places := (places ?z1)(g := Named ?m rs)\<rparr>"
  obtain e s2 where 3: "i_SaveMessageWithRecipients st (Some ?m) rs (l_store (service ?z2)) = (e, s2)" by fastforce
  let ?z3 = "?z2\<lparr>service := (service ?z2)\<lparr>l_store := s2\<rparr>, places := (places ?z2)(g := SendIdle),
      kept_msgs := (if e = None then kept_msgs ?z2 @ [?m] else kept_msgs ?z2)\<rparr>"
  have "send_step st z ?z1" by (rule event[OF assms 1])
  moreover have "send_step st ?z1 ?z2" by (rule event_name[OF _ 2]) simp
  moreover have "send_step st ?z2 ?z3" by (rule save[OF _ 3]) simp
  ultimately have "(send_step st)\<^sup>*\<^sup>* z ?z3" by (meson rtranclp.intros)
  moreover have "(places z)(g := SendIdle) = places z" using assms by (metis fun_upd_triv)
  then have "?z3 = z\<lparr>service := snd (system_event st r body rs (service z)), kept_msgs := kept_msgs ?z3\<rparr>"
    using 1 2 3 by (simp add: system_event_def event_msg_def Let_def)
  ultimately show ?thesis by metis
qed

section \<open>Tickets\<close>

text \<open>
  A running counter hands out tickets; each is held by one goroutine or has been left by one, or
  is lost. \<open>cur\<close> is the last number drawn, \<open>held\<close> the goroutines' tickets, \<open>left\<close> those left behind;
  at most \<open>n\<close> have been drawn.
\<close>

definition given :: "(nat \<Rightarrow> 64 word option) \<Rightarrow> 64 word list \<Rightarrow> 64 word set" where
  "given held left = set left \<union> {w. \<exists>g. held g = Some w}"

definition apart :: "(nat \<Rightarrow> 64 word option) \<Rightarrow> 64 word list \<Rightarrow> bool" where
  "apart held left \<longleftrightarrow> distinct left \<and> (\<forall>g w. held g = Some w \<longrightarrow> w \<notin> set left) \<and>
     (\<forall>g h w. held g = Some w \<longrightarrow> held h = Some w \<longrightarrow> g = h)"

definition numbered_to :: "64 word \<Rightarrow> nat \<Rightarrow> 64 word set" where
  "numbered_to base k = (\<lambda>j. base + of_nat j) ` {1..k}"

definition tickets :: "nat \<Rightarrow> 64 word option \<Rightarrow> (nat \<Rightarrow> 64 word option) \<Rightarrow> 64 word list \<Rightarrow> bool" where
  "tickets n cur held left \<longleftrightarrow> apart held left \<and> (\<exists>base k. k \<le> n \<and> given held left \<subseteq> numbered_to base k \<and>
     cur = (if cur = None \<and> k = 0 then None else Some (base + of_nat k)))"

lemma tickets_start: "tickets 0 cur (\<lambda>_. None) []"
  by (cases cur) (auto simp: tickets_def apart_def given_def)

lemma tickets_distinct: "tickets n cur held left \<Longrightarrow> distinct left"
  by (simp add: tickets_def apart_def)

text \<open>Tickets may be lost.\<close>

lemma tickets_less:
  assumes "tickets n cur held left" and "given held' left' \<subseteq> given held left" and "apart held' left'"
  shows "tickets (Suc n) cur held' left'"
  using assms unfolding tickets_def by (meson le_SucI order_trans)

lemma tickets_keep: "tickets n cur held left \<Longrightarrow> tickets (Suc n) cur held left"
  by (rule tickets_less) (auto simp: tickets_def)

lemma tickets_drop:
  assumes "tickets n cur held left"
  shows "tickets (Suc n) cur (held(g := None)) left"
proof (rule tickets_less[OF assms])
  have "apart held left" using assms by (simp add: tickets_def)
  then show "apart (held(g := None)) left" unfolding apart_def by (metis fun_upd_apply option.distinct(1))
qed (auto simp: given_def split: if_splits)

lemma tickets_leave:
  assumes "tickets n cur held left" and "held g = Some w"
  shows "tickets (Suc n) cur (held(g := None)) (left @ [w])"
proof (rule tickets_less[OF assms(1)])
  have "apart held left" using assms(1) by (simp add: tickets_def)
  then show "apart (held(g := None)) (left @ [w])"
    using assms(2) unfolding apart_def by (auto split: if_splits)
qed (use assms(2) in \<open>auto simp: given_def split: if_splits\<close>)

lemma numbered_Suc: "numbered_to base (Suc k) = insert (base + of_nat (Suc k)) (numbered_to base k)"
  by (simp add: numbered_to_def atLeastAtMostSuc_conv del: of_nat_Suc)

lemma numbered_fresh:
  assumes "Suc k < 2 ^ 64"
  shows "base + of_nat (Suc k) \<notin> numbered_to base k"
proof
  assume "base + of_nat (Suc k) \<in> numbered_to base k"
  then obtain j where j: "j \<le> k" "of_nat (Suc k) = (of_nat j :: 64 word)"
    by (auto simp: numbered_to_def simp del: of_nat_Suc)
  then have "unat (of_nat (Suc k) :: 64 word) = unat (of_nat j :: 64 word)" by simp
  then have "Suc k = j" using j(1) assms by (simp add: unat_of_nat take_bit_eq_mod del: of_nat_Suc)
  with j(1) show False by simp
qed

lemma tickets_draw:
  assumes "tickets n cur held left" and "Suc n < 2 ^ 64" and "\<And>v. cur = Some v \<Longrightarrow> w = v + 1"
  shows "tickets (Suc n) (Some w) (held(g := Some w)) left"
proof -
  obtain base k where k: "k \<le> n" "given held left \<subseteq> numbered_to base k" "w = base + of_nat (Suc k)"
  proof (cases cur)
    case None
    then have "given held left \<subseteq> numbered_to (w - 1) 0"
      using assms(1) by (auto simp: tickets_def numbered_to_def split: if_splits)
    with that[of 0 "w - 1"] show thesis by simp
  next
    case (Some v)
    with assms that show thesis by (auto simp: tickets_def add.commute add.left_commute)
  qed
  have a: "apart held left" using assms(1) by (simp add: tickets_def)
  have new: "w \<notin> given held left"
    using numbered_fresh[of k base] k assms(2) by auto
  have "given (held(g := Some w)) left \<subseteq> numbered_to base (Suc k)"
    using k(2) unfolding numbered_Suc k(3)[symmetric] by (auto simp: given_def split: if_splits)
  moreover have "apart (held(g := Some w)) left"
    using a new unfolding apart_def given_def by (auto split: if_splits)
  ultimately show ?thesis
    using k(1,3) unfolding tickets_def by (intro conjI exI[of _ base] exI[of _ "Suc k"]) simp_all
qed

section \<open>What the goroutines hold\<close>

text \<open>The number of a chat and the id counter that a goroutine has drawn and not yet used up.\<close>

fun seq_held :: "string \<Rightarrow> send_place \<Rightarrow> 64 word option" where
  "seq_held c (Numbered q rs n) = (if chat_of q = c then Some n else None)"
| "seq_held c (EventNumbered body rs n) = (if ''system'' = c then Some n else None)"
| "seq_held c (Named m rs) = (if ChatID m = c then Some (Seq m) else None)"
| "seq_held c _ = None"

definition id_mark :: "Message \<Rightarrow> 64 word" where
  "id_mark m = of_nat (id_counter (ServerMsgID m))"

fun id_held :: "send_place \<Rightarrow> 64 word option" where
  "id_held (Named m rs) = Some (id_mark m)"
| "id_held _ = None"

lemma msg_fields [simp]:
  "ServerMsgID (send_msg q n i t) = i" "ChatID (send_msg q n i t) = chat_of q" "Seq (send_msg q n i t) = n"
  "ServerMsgID (event_msg body n i t) = i" "ChatID (event_msg body n i t) = ''system''" "Seq (event_msg body n i t) = n"
  by (simp_all add: send_msg_def event_msg_def)

lemma drawn_mark:
  assumes "GenerateServerMsgID t p l = (i, l')" and "ServerMsgID m = i"
  shows "id_mark m = idCounter l + 1" "idCounter l' = idCounter l + 1" "l_store l' = l_store l"
  using assms id_counter_Generate[of t p l] Generate_frame[of t p l] by (simp_all add: id_mark_def del: Generate_frame)

context client_store
begin

definition in_order :: "nat \<Rightarrow> 's sending \<Rightarrow> bool" where
  "in_order n z \<longleftrightarrow>
     tickets n (Some (idCounter (service z))) (\<lambda>g. id_held (places z g)) (map id_mark (kept_msgs z)) \<and>
     (\<forall>c. tickets n (l_last (service z) c) (\<lambda>g. seq_held c (places z g))
       (map Seq (filter (\<lambda>m. ChatID m = c) (kept_msgs z))))"

lemma held_upd:
  "(\<lambda>h. f (((places z)(g := p)) h)) = (\<lambda>h. f (places z h))(g := f p)"
  by auto

lemma held_same: "f (places z g) = f p \<Longrightarrow> (\<lambda>h. f (((places z)(g := p)) h)) = (\<lambda>h. f (places z h))"
  by auto

lemma check_frame:
  assumes "send_check st r req l = (x, l')"
  shows "l_last l' = l_last l \<and> idCounter l' = idCounter l"
proof -
  have "last (snd (i_GetMessageByClientID st f c s)) = last s" for f c s
    using last_call[of "OpByClient f c" r s] by (simp add: seq_request_def)
  then show ?thesis
    using assms by (auto simp: send_check_def Let_def split: option.splits if_splits prod.splits dest!: arg_cong[of _ _ snd])
qed

text \<open>A step draws a number of one chat, or an id, or uses a message up, or changes nothing of this.\<close>

lemma number_in_order:
  assumes "in_order n z" and "Suc n < 2 ^ 64" and "i_NextSeq st c (l_store (service z)) = (seq, s)" and "c \<noteq> []"
    and "seq_held c p = Some seq" and "\<And>d. d \<noteq> c \<Longrightarrow> seq_held d p = None" and "id_held p = None"
    and "\<And>d. seq_held d (places z g) = None" and "id_held (places z g) = None"
  shows "in_order (Suc n) (z\<lparr>service := (service z)\<lparr>l_store := s\<rparr>, places := (places z)(g := p)\<rparr>)"
proof -
  have key: "chat_key c = c" using assms(4) by (simp add: chat_key_def)
  have l: "last s d = (if d = c then Some seq else l_last (service z) d)" for d
    using seq_last[of c "l_store (service z)" d] assms(3) by (simp add: key)
  have next_one: "seq = v + 1" if "l_last (service z) c = Some v" for v
    using seq_next[of "l_store (service z)" c v] that assms(3) by (simp add: key)
  have "tickets (Suc n) (last s d) (\<lambda>h. seq_held d (((places z)(g := p)) h))
      (map Seq (filter (\<lambda>m. ChatID m = d) (kept_msgs z)))" for d
  proof (cases "d = c")
    case True
    have "tickets n (l_last (service z) c) (\<lambda>g. seq_held c (places z g))
        (map Seq (filter (\<lambda>m. ChatID m = c) (kept_msgs z)))" using assms(1) by (simp add: in_order_def)
    from tickets_draw[OF this assms(2) next_one] show ?thesis
      unfolding True by (simp add: l held_upd assms(5) del: fun_upd_apply)
  next
    case False
    have "tickets n (l_last (service z) d) (\<lambda>g. seq_held d (places z g))
        (map Seq (filter (\<lambda>m. ChatID m = d) (kept_msgs z)))" using assms(1) by (simp add: in_order_def)
    from tickets_keep[OF this] show ?thesis
      using False assms(6,8) by (simp add: l held_same del: fun_upd_apply)
  qed
  moreover have "tickets n (Some (idCounter (service z))) (\<lambda>g. id_held (places z g)) (map id_mark (kept_msgs z))"
    using assms(1) by (simp add: in_order_def)
  ultimately show ?thesis
    using assms(7,9) by (simp add: in_order_def tickets_keep held_same del: fun_upd_apply)
qed

lemma name_in_order:
  assumes "in_order n z" and "Suc n < 2 ^ 64" and "GenerateServerMsgID t p (service z) = (i, l)"
    and "ServerMsgID m = i" and "\<And>c. seq_held c (places z g) = seq_held c (Named m rs)"
  shows "in_order (Suc n) (z\<lparr>service := l, places := (places z)(g := Named m rs)\<rparr>)"
proof -
  note d = drawn_mark[OF assms(3,4)]
  have "tickets n (Some (idCounter (service z))) (\<lambda>g. id_held (places z g)) (map id_mark (kept_msgs z))"
    using assms(1) by (simp add: in_order_def)
  from tickets_draw[OF this assms(2), of "id_mark m" g] have
    "tickets (Suc n) (Some (idCounter l)) (\<lambda>h. id_held (((places z)(g := Named m rs)) h)) (map id_mark (kept_msgs z))"
    by (simp add: d held_upd del: fun_upd_apply)
  moreover have "tickets (Suc n) (l_last (service z) c) (\<lambda>g. seq_held c (places z g))
      (map Seq (filter (\<lambda>m. ChatID m = c) (kept_msgs z)))" for c
    using assms(1) by (simp add: in_order_def tickets_keep)
  ultimately show ?thesis
    using assms(5) by (simp add: in_order_def d held_same del: fun_upd_apply)
qed

lemma save_in_order:
  assumes "in_order n z" and "places z g = Named m rs" and "last s = l_last (service z)"
  shows "in_order (Suc n) (z\<lparr>service := (service z)\<lparr>l_store := s\<rparr>, places := (places z)(g := SendIdle),
    kept_msgs := (if ok then kept_msgs z @ [m] else kept_msgs z)\<rparr>)"
proof -
  have id: "tickets n (Some (idCounter (service z))) (\<lambda>g. id_held (places z g)) (map id_mark (kept_msgs z))"
    and seq: "tickets n (l_last (service z) c) (\<lambda>g. seq_held c (places z g))
      (map Seq (filter (\<lambda>m. ChatID m = c) (kept_msgs z)))" for c
    using assms(1) by (simp_all add: in_order_def)
  have "tickets (Suc n) (l_last (service z) c) (\<lambda>h. seq_held c (((places z)(g := SendIdle)) h))
      (map Seq (filter (\<lambda>m. ChatID m = c) (if ok then kept_msgs z @ [m] else kept_msgs z)))" for c
    using tickets_leave[OF seq[of c], of g "Seq m"] tickets_drop[OF seq[of c], of g] assms(2)
      tickets_keep[OF seq[of c]]
    by (cases "ChatID m = c") (simp_all add: held_upd held_same del: fun_upd_apply)
  moreover have "tickets (Suc n) (Some (idCounter (service z))) (\<lambda>h. id_held (((places z)(g := SendIdle)) h))
      (map id_mark (if ok then kept_msgs z @ [m] else kept_msgs z))"
    using tickets_leave[OF id, of g "id_mark m"] tickets_drop[OF id, of g] assms(2) by (simp add: held_upd del: fun_upd_apply)
  ultimately show ?thesis by (simp add: in_order_def assms(3) del: fun_upd_apply)
qed

lemma quiet_in_order:
  assumes "in_order n z" and "l_last l = l_last (service z)" and "idCounter l = idCounter (service z)"
    and "\<And>c. seq_held c (places z g) = seq_held c p" and "id_held (places z g) = id_held p"
  shows "in_order (Suc n) (z\<lparr>service := l, places := (places z)(g := p)\<rparr>)"
  using assms by (simp add: in_order_def tickets_keep held_same del: fun_upd_apply)

lemma idle_in_order:
  assumes "in_order n z" and "l_last l = l_last (service z)" and "idCounter l = idCounter (service z)"
  shows "in_order (Suc n) (z\<lparr>service := l\<rparr>)"
  using assms by (simp add: in_order_def tickets_keep)

lemma send_step_in_order:
  assumes "send_step st z z'" and "in_order n z" and "Suc n < 2 ^ 64"
  shows "in_order (Suc n) z'"
  using assms(1)
proof cases
  case (pass g r req q l rs)
  then show ?thesis using quiet_in_order[OF assms(2), of l g "Passed q rs"] check_frame[of r req "service z"] by simp
next
  case (answer g r req res l)
  then show ?thesis using idle_in_order[OF assms(2), of l] check_frame[of r req "service z"] by simp
next
  case (number g q rs seq s)
  then show ?thesis
    using number_in_order[OF assms(2,3) number(3), of "Numbered q rs seq" g] by (simp add: chat_of_def Let_def)
next
  case (name g q rs seq t i l t')
  then show ?thesis using name_in_order[OF assms(2,3) name(3), of "send_msg q seq i t'" g rs] by simp
next
  case (event g seq s body rs)
  then show ?thesis using number_in_order[OF assms(2,3) event(3), of "EventNumbered body rs seq" g] by simp
next
  case (event_name g body rs seq t i l t')
  then show ?thesis using name_in_order[OF assms(2,3) event_name(3), of "event_msg body seq i t'" g rs] by simp
next
  case (save g m rs e s)
  have "last s = l_last (service z)"
    using last_call[of "OpSave (Some m) rs" undefined "l_store (service z)"] save(3) by (simp add: seq_request_def)
  from save_in_order[OF assms(2) save(2) this, of "e = None"] save(1) show ?thesis by simp
next
  case (other op r)
  have "seq_request op = None" using other(2) by (cases op) (simp_all add: foreign_call_def seq_request_def)
  then show ?thesis
    using other(1) idle_in_order[OF assms(2), of "(service z)\<lparr>l_store := call_store st (r, op) (l_store (service z))\<rparr>"]
    by (simp add: last_call)
qed

lemma send_steps_in_order:
  "(send_step st ^^ n) z0 z \<Longrightarrow> in_order 0 z0 \<Longrightarrow> n < 2 ^ 64 \<Longrightarrow> in_order n z"
proof (induction n arbitrary: z)
  case (Suc n)
  then obtain z1 where "(send_step st ^^ n) z0 z1" "send_step st z1 z" by auto
  with Suc send_step_in_order[of z1 z n] show ?case by simp
qed simp

lemma start_in_order:
  assumes "\<And>g. places z g = SendIdle" and "kept_msgs z = []"
  shows "in_order 0 z"
  using assms by (simp add: in_order_def tickets_start)

end

section \<open>Sends in progress at the same time\<close>

text \<open>
  C2: however sends and system events interleave. Several goroutines send and announce events at the same
  time; the checks, the draws of sequence numbers and of ids, the saves, and store calls of the other
  parts come in any order, on any store, with or without a database and whatever it answers. Then
  the messages that were saved have pairwise different server ids, and in each chat pairwise
  different sequence numbers (over less than $2^{64}$ steps). Each store call is one step. That one
  (sender, client id) pair is accepted twice is not excluded: see
  \<open>concurrent_sends_both_accepted\<close>.
\<close>

theorem concurrent_sends_numbered:
  assumes "(send_step (InMemoryStore b) ^^ n) z0 z" and "n < 2 ^ 64"
    and "\<forall>g. places z0 g = SendIdle" and "kept_msgs z0 = []"
  shows "distinct (map ServerMsgID (kept_msgs z)) \<and> distinct (map (\<lambda>m. (ChatID m, Seq m)) (kept_msgs z))"
proof -
  have "cs.in_order 0 z0" using assms(3,4) by (intro cs.start_in_order) simp_all
  then have order: "cs.in_order n z" by (rule cs.send_steps_in_order[OF assms(1) _ assms(2)])
  then have "distinct (map id_mark (kept_msgs z))" by (auto simp: cs.in_order_def dest: tickets_distinct)
  then have "distinct (map ServerMsgID (kept_msgs z))" by (auto simp: distinct_map inj_on_def id_mark_def)
  moreover have "distinct (map Seq (filter (\<lambda>m. ChatID m = c) (kept_msgs z)))" for c
    using order by (auto simp: cs.in_order_def dest: tickets_distinct)
  then have "distinct (map (\<lambda>m. (ChatID m, Seq m)) (kept_msgs z))" by (rule distinct_by_class)
  ultimately show ?thesis by simp
qed

text \<open>
  The next step of goroutine \<open>g\<close>, which sends \<open>req\<close> when it is idle, as a function, for instances.
\<close>

definition go_on :: "'s Store \<Rightarrow> rt \<Rightarrow> Message \<Rightarrow> string list \<Rightarrow> nat \<Rightarrow> 's sending \<Rightarrow> 's sending" where
  "go_on st r req rs g z =
     (case places z g of
        SendIdle \<Rightarrow>
          (case send_check st r (Some req) (service z) of
             (Inl _, l) \<Rightarrow> z\<lparr>service := l\<rparr>
           | (Inr q, l) \<Rightarrow> z\<lparr>service := l, places := (places z)(g := Passed q rs)\<rparr>)
      | Passed q rs' \<Rightarrow>
          (case i_NextSeq st (chat_of q) (l_store (service z)) of
             (seq, s) \<Rightarrow> z\<lparr>service := (service z)\<lparr>l_store := s\<rparr>, places := (places z)(g := Numbered q rs' seq)\<rparr>)
      | Numbered q rs' seq \<Rightarrow>
          (case GenerateServerMsgID (clk r 1) ''s'' (service z) of
             (i, l) \<Rightarrow> z\<lparr>service := l, places := (places z)(g := Named (send_msg q seq i (clk r 2)) rs')\<rparr>)
      | EventNumbered body rs' seq \<Rightarrow>
          (case GenerateServerMsgID (clk r 0) ''sys'' (service z) of
             (i, l) \<Rightarrow> z\<lparr>service := l, places := (places z)(g := Named (event_msg body seq i (clk r 1)) rs')\<rparr>)
      | Named m rs' \<Rightarrow>
          (case i_SaveMessageWithRecipients st (Some m) rs' (l_store (service z)) of
             (e, s) \<Rightarrow> z\<lparr>service := (service z)\<lparr>l_store := s\<rparr>, places := (places z)(g := SendIdle),
               kept_msgs := (if e = None then kept_msgs z @ [m] else kept_msgs z)\<rparr>))"

lemma go_on_step: "send_step st z (go_on st r req rs g z)"
proof (cases "places z g")
  case SendIdle
  obtain x l where "send_check st r (Some req) (service z) = (x, l)" by fastforce
  with SendIdle show ?thesis
    by (cases x) (auto simp: go_on_def intro: send_step.pass send_step.answer)
next
  case (Named m rs')
  obtain e s where "i_SaveMessageWithRecipients st (Some m) rs' (l_store (service z)) = (e, s)" by fastforce
  from send_step.save[OF Named this] this Named show ?thesis by (simp add: go_on_def)
qed (auto simp: go_on_def case_prod_beta intro!: send_step.number send_step.name send_step.event_name)

lemma go_on_run: "(send_step st ^^ length gs) z (fold (go_on st r req rs) gs z)"
proof (induction gs arbitrary: z)
  case (Cons g gs)
  from relpowp_Suc_I2[OF go_on_step[of st z r req rs g] Cons.IH] show ?case by simp
qed simp

text \<open>Two goroutines send one request; the calls alternate, and the second saves first.\<close>

definition two_senders :: "(tables, (string \<times> string) list) store sending" where
  "two_senders = \<lparr>service = sample_logic, places = (\<lambda>_. SendIdle), kept_msgs = []\<rparr>"

definition turns :: "nat list" where
  "turns = [0, 1, 0, 1, 0, 1, 1, 0]"

definition both_sent :: "(tables, (string \<times> string) list) store sending" where
  "both_sent = fold (go_on (InMemoryStore sample_backend) (sample_rt 0) sample_req [''bob'']) turns two_senders"

theorem concurrent_sends_numbered_witness:
  "length (kept_msgs both_sent) = 2 \<and> distinct (map ServerMsgID (kept_msgs both_sent)) \<and>
   distinct (map (\<lambda>m. (ChatID m, Seq m)) (kept_msgs both_sent))"
proof -
  have run: "(send_step (InMemoryStore sample_backend) ^^ length turns) two_senders both_sent"
    unfolding both_sent_def by (rule go_on_run)
  have "length (kept_msgs both_sent) = 2" by code_simp
  then show ?thesis
    using concurrent_sends_numbered[OF run] by (simp add: two_senders_def turns_def)
qed

end
