(* ===== verification/System_Events.thy ===== *)
theory System_Events
  imports Crash_Recovery
begin

text \<open>
  What the database keeps of the announcements of the server (\<open>internal/server/broadcast.go\<close>): they
  all have the sender \<open>system\<close> and no client id, and the table of messages has a unique key on these two.
\<close>

section \<open>A save whose message clashes\<close>

text \<open>The table keeps no message, but rows for all recipients.\<close>

lemma clashing_save:
  assumes law: "lawful (gorm b) mr rr" and "persistent s"
    and clash: "\<exists>x \<in> set (mr (db s)). msg_clash (gorm b) (toDBMessage m) x"
    and new: "\<forall>x \<in> set (rr (db s)). \<not> coll (gorm b) (DR_ServerMsgID x) (ServerMsgID m)"
    and save: "SaveMessageWithRecipients b (Some m) rs s = (None, s')"
  shows "mr (db s') = mr (db s)" and "\<forall>to \<in> set rs. to \<noteq> [] \<longrightarrow> has_row (gorm b) (ServerMsgID m) to (rr (db s'))"
proof -
  let ?i = "ServerMsgID m"
  obtain d where tx: "save_tx b m rs (db s) = (None, d)" and d: "db s' = d"
    using save assms(2) by (auto simp: SaveMessageWithRecipients_def Let_def split: if_splits prod.splits option.splits)
  have txl: "tx_law (gorm b) mr rr" and ins: "insert_law (messages_t (gorm b)) mr rr (msg_clash (gorm b)) msg_stored"
    using law by (simp_all add: lawful_def)
  obtain e d1 where c: "t_create_ignore (messages_t (gorm b)) (toDBMessage m) (db s) = (e, d1)" by fastforce
  let ?body = "\<lambda>d. case t_create_ignore (messages_t (gorm b)) (toDBMessage m) d of
      (Some e, d') \<Rightarrow> (Some e, d') | (None, d') \<Rightarrow> insert_recipients b ?i rs d'"
  obtain d2 where body: "?body (db s) = (None, d2)" and same: "same_rows mr rr d2 d"
    using txl[unfolded tx_law_def, rule_format, of ?body "db s", unfolded tx[unfolded save_tx_def]]
    by (simp only: prod.case option.case) blast
  have e: "e = None" and rest: "insert_recipients b ?i rs d1 = (None, d2)"
    using body c by (cases e; simp)+
  have d1: "same_rows mr rr (db s) d1"
    using ins[unfolded insert_law_def, rule_format, of "db s" "toDBMessage m", unfolded c e] clash by simp
  have "exact_id (gorm b) ?i (rr d1)" using new d1 by (auto simp: exact_id_def same_rows_def)
  from insert_recipients_rows[OF law this rest] d1 same
  show "mr (db s') = mr (db s)" and "\<forall>to \<in> set rs. to \<noteq> [] \<longrightarrow> has_row (gorm b) ?i to (rr (db s'))"
    by (simp_all add: same_rows_def d)
qed

text \<open>A message that is not in the table is not found, and its rows are buried.\<close>

definition writes :: "'d gorm_db \<Rightarrow> bool" where
  "writes g \<longleftrightarrow> (\<forall>w f d. \<exists>n. fst (t_update (recipients_t g) w f d) = Inr n)"

lemma missing_buried:
  assumes law: "lawful (gorm b) mr rr" and up: "answers (gorm b) d" "writes (gorm b)" and "i \<noteq> []"
    and none: "\<forall>x \<in> set (mr d). \<not> coll (gorm b) (DM_ServerMsgID x) i"
    and get: "GetMessageByServerID b i (NewInMemoryStore True d c) = (res, s)"
  shows "res = None" and "\<forall>x \<in> set (rr (db s)). coll (gorm b) (DR_ServerMsgID x) i \<longrightarrow> DR_Status x \<noteq> 0"
proof -
  let ?w = "\<lambda>row. coll (gorm b) (DM_ServerMsgID row) i"
  obtain r1 d1 where q: "t_take (messages_t (gorm b)) ?w d = (r1, d1)" by fastforce
  have take: "take_law (messages_t (gorm b)) mr" and read: "read_law (messages_t (gorm b)) mr rr"
    and upd: "update_law (recipients_t (gorm b)) rr mr" using law by (simp_all add: lawful_def)
  have r1: "r1 = Inl ErrRecordNotFound"
  proof (cases r1)
    case (Inl e)
    then show ?thesis using up(1) q unfolding answers_def by (metis db_error.exhaust fst_conv)
  next
    case (Inr x)
    with q take[unfolded take_law_def, rule_format, where w = ?w and d = d] none show ?thesis by auto
  qed
  let ?v = "\<lambda>row. coll (gorm b) (DR_ServerMsgID row) i \<and> DR_Status row = 0"
  let ?f = "\<lambda>row. row\<lparr>DR_Status := 3, DR_LastError := ''message not found'', DR_NextRetryAt := None\<rparr>"
  obtain rn d2 where u0: "t_update (recipients_t (gorm b)) ?v ?f d1 = (rn, d2)" by fastforce
  moreover obtain n where "fst (t_update (recipients_t (gorm b)) ?v ?f d1) = Inr n"
    using up(2) unfolding writes_def by blast
  ultimately have u: "t_update (recipients_t (gorm b)) ?v ?f d1 = (Inr n, d2)" by simp
  have "GetMessageByServerID b i (NewInMemoryStore True d c) = (None, NewInMemoryStore True d2 c)"
    using assms(4) by (simp add: GetMessageByServerID_def NewInMemoryStore_def q r1
        markRecipientRowsDeadIfMessageMissing_def update_recipients_def u Let_def)
  then have get': "res = None" "s = NewInMemoryStore True d2 c" using get by simp_all
  then show "res = None" by simp
  have "list_all2 (\<lambda>x y. if ?v x then written (?f x) y else y = x) (rr d1) (rr d2)"
    using upd[unfolded update_law_def, rule_format, of d1 ?v ?f] u by simp
  then have "\<forall>y \<in> set (rr d2). coll (gorm b) (DR_ServerMsgID y) i \<longrightarrow> DR_Status y \<noteq> 0"
    by (induction rule: list_all2_induct) (auto simp: written_def split: if_splits)
  then show "\<forall>x \<in> set (rr (db s)). coll (gorm b) (DR_ServerMsgID x) i \<longrightarrow> DR_Status x \<noteq> 0"
    unfolding get'(2) by (simp add: NewInMemoryStore_def)
qed

text \<open>
  C34: only the first system event lasts. When the table of messages has a system event already and the
  server announces another, under an id that no row has, and saves it, then the process has the message in its memory,
  but the table of messages is as before, while every recipient has a row; and a process started on
  the tables does not find the message and closes the rows when it asks for it, so that it is
  delivered to nobody. It is asked that the database keeps its documented laws, answers in the state
  the tables are then in, and executes updates.
\<close>

theorem second_system_event_lost:
  assumes law: "lawful (gorm b) mr rr" and p: "persistent (l_store l)"
    and first: "\<exists>x \<in> set (mr (db (l_store l))). coll (gorm b) (DM_SendID x) ''system'' \<and> coll (gorm b) (DM_ClientMsgID x) []"
    and event: "system_event (InMemoryStore b) r body rs l = ((i, seq), l')"
    and new: "\<forall>x \<in> set (mr (db (l_store l))). \<not> coll (gorm b) (DM_ServerMsgID x) i"
      "\<forall>x \<in> set (rr (db (l_store l))). \<not> coll (gorm b) (DR_ServerMsgID x) i" "map_of (messages (l_store l)) i = None"
    and saved: "map_of (messages (l_store l')) i = Some m"
    and d_def: "d = db (l_store l')" and up: "answers (gorm b) d" "writes (gorm b)"
    and restart: "GetMessageByServerID b i (NewInMemoryStore True d c) = (found, s)"
  shows "From m = ''system'' \<and> mr d = mr (db (l_store l)) \<and>
    (\<forall>to \<in> set rs. to \<noteq> [] \<longrightarrow> has_row (gorm b) i to (rr d)) \<and> found = None \<and>
    (\<forall>row \<in> set (rr (db s)). coll (gorm b) (DR_ServerMsgID row) i \<longrightarrow> DR_Status row \<noteq> 0)"
proof -
  define s1 where "s1 = snd (NextSeq b ''system'' (l_store l))"
  obtain l1 where g: "GenerateServerMsgID (clk r 0) ''sys'' (l\<lparr>l_store := s1\<rparr>) = (i, l1)"
    using event by (cases "GenerateServerMsgID (clk r 0) ''sys'' (l\<lparr>l_store := s1\<rparr>)")
      (auto simp: system_event_def s1_def InMemoryStore_def Let_def case_prod_beta)
  define m' where "m' = zero_Message\<lparr>Type := TypeDeliver, ServerMsgID := i, ChatID := ''system'',
    From := ''system'', Body := body, Seq := seq, Ts := unix (clk r 1)\<rparr>"
  have l1: "l_store l1 = s1" and i: "i \<noteq> []"
    using Generate_frame(1)[of "clk r 0" "''sys''" "l\<lparr>l_store := s1\<rparr>"] Generate_ne[of "clk r 0" "''sys''" "l\<lparr>l_store := s1\<rparr>"] g
    by simp_all
  obtain e s2 where save: "SaveMessageWithRecipients b (Some m') rs s1 = (e, s2)" by fastforce
  have l': "l_store l' = s2"
    using event g l1 save by (auto simp: system_event_def s1_def m'_def InMemoryStore_def Let_def case_prod_beta)
  note frame = NextSeq_frame[of b "''system''" "l_store l", folded s1_def]
  have same: "same_rows mr rr (db (l_store l)) (db s1)"
    unfolding s1_def by (rule lookups_same_rows(1)[OF law])
  have e: "e = None"
  proof (rule ccontr)
    assume "e \<noteq> None"
    then have "messages s2 = messages s1"
      using save by (auto simp: SaveMessageWithRecipients_def m'_def Let_def split: if_splits prod.splits option.splits)
    with saved new(3) frame show False by (simp add: l')
  qed
  have fields: "ServerMsgID m' = i" "From m' = ''system''" by (simp_all add: m'_def)
  obtain d0 c0 where s2: "s2 = fold (saveDeliveryUnsafe i) rs (saveMessageUnsafe m' (s1\<lparr>db := d0, cache := c0\<rparr>))"
    using Save_ok[OF save[unfolded e]] fields(1) by metis
  have "messages (fold (saveDeliveryUnsafe i) us t) = messages t" for us and t :: "('a, 'b) store"
    by (induction us arbitrary: t) simp_all
  moreover have "messages (saveMessageUnsafe m' t) = gput i m' (messages t)" for t :: "('a, 'b) store"
    by (simp add: saveMessageUnsafe_def Let_def fields(1))
  ultimately have m: "m = m'" using saved by (simp add: l' s2)
  have "\<exists>x \<in> set (mr (db s1)). msg_clash (gorm b) (toDBMessage m') x"
    using first same by (auto simp: msg_clash_def toDBMessage_def m'_def same_rows_def zero_Message_def)
  note kept = clashing_save[OF law _ this _ save[unfolded e], unfolded fields(1)]
  have "persistent s1" using p frame by simp
  note kept = kept[OF this]
  have "\<forall>x \<in> set (rr (db s1)). \<not> coll (gorm b) (DR_ServerMsgID x) i" using new(2) same by (simp add: same_rows_def)
  note kept = kept[OF this]
  have d: "mr d = mr (db (l_store l))" "\<forall>to \<in> set rs. to \<noteq> [] \<longrightarrow> has_row (gorm b) i to (rr d)"
    using kept same by (simp_all add: d_def l' same_rows_def)
  then have "\<forall>x \<in> set (mr d). \<not> coll (gorm b) (DM_ServerMsgID x) i" using new(1) by simp
  note gone = missing_buried[OF law up i this restart]
  show ?thesis using d gone fields(2) m by simp
qed

text \<open>The service after its first event, which goes to bob; then a second one.\<close>

definition one_event :: "(tables, (string \<times> string) list) store LogicService" where
  "one_event = snd (system_event (InMemoryStore sample_backend) (sample_rt 0) [] [''bob'']
     (newLogicService (NewInMemoryStore True no_tables [])))"

definition two_events :: "(tables, (string \<times> string) list) store LogicService" where
  "two_events = snd (system_event (InMemoryStore sample_backend) (sample_rt 0) [] [''bob''] one_event)"

theorem second_system_event_lost_witness:
  "map DM_ServerMsgID (msg_rows (db (l_store two_events))) = [''sys-0-1''] \<and>
   has_row (gorm sample_backend) ''sys-0-2'' ''bob'' (recip_rows (db (l_store two_events))) \<and>
   fst (GetMessageByServerID sample_backend ''sys-0-2'' (NewInMemoryStore True (db (l_store two_events)) [])) = None"
proof -
  have g: "coll (gorm sample_backend) = (=)" by (simp add: sample_backend_def sample_db_def)
  have p: "persistent (l_store one_event)" by code_simp
  have rows: "map (\<lambda>x. (DM_SendID x, DM_ClientMsgID x, DM_ServerMsgID x)) (msg_rows (db (l_store one_event))) =
      [(''system'', [], ''sys-0-1'')]" "map DR_ServerMsgID (recip_rows (db (l_store one_event))) = [''sys-0-1'']"
    by code_simp+
  have event: "fst (system_event (InMemoryStore sample_backend) (sample_rt 0) [] [''bob''] one_event) = (''sys-0-2'', 2)"
    by code_simp
  have mem: "map_of (messages (l_store one_event)) ''sys-0-2'' = None"
    "map_option From (map_of (messages (l_store two_events)) ''sys-0-2'') = Some ''system''" by code_simp+
  then obtain m where m: "map_of (messages (l_store two_events)) ''sys-0-2'' = Some m" by auto
  have up: "answers (gorm sample_backend) d" "writes (gorm sample_backend)" for d
    by (rule answers_sample) (simp add: writes_def sample_backend_def sample_db_def list_table_def Let_def)
  have "system_event (InMemoryStore sample_backend) (sample_rt 0) [] [''bob''] one_event = ((''sys-0-2'', 2), two_events)"
    using event by (simp add: two_events_def prod_eq_iff)
  from second_system_event_lost[OF lawful_backend p _ this _ _ mem(1) m refl up surjective_pairing, of "[]"] rows
  have "msg_rows (db (l_store two_events)) = msg_rows (db (l_store one_event)) \<and>
      has_row (gorm sample_backend) ''sys-0-2'' ''bob'' (recip_rows (db (l_store two_events))) \<and>
      fst (GetMessageByServerID sample_backend ''sys-0-2'' (NewInMemoryStore True (db (l_store two_events)) [])) = None"
    by (auto simp: g map_eq_Cons_conv)
  with rows(1) show ?thesis by (auto simp: map_eq_Cons_conv)
qed

end
