(* ===== verification/Spec2Isabelle.thy ===== *)
theory Spec2Isabelle
  imports Chat_Props Resend Turns History Channel_Lock Store_Reports Handlers Startup Name_Limits Send_Threads System_Events Delivery_Ledger Conn_Input Conn_Security Config
begin

text \<open>
  \<^bold>\<open>A model of the 8H-Go chat server.\<close>

  The program is one process (\<open>src/main.go\<close>). It accepts TCP connections
  (\<open>internal/server/accept.go\<close>, \<open>conn_security.go\<close>), reads lines from each
  (\<open>internal/server/conn.go\<close>), and hands them to the user object of the connection
  (\<open>internal/session\<close>) or, when they are JSON, to the protocol handler
  (\<open>internal/server/messages.go\<close>). A message goes through the logic service
  (\<open>internal/server/logic.go\<close>), which gives it a number and an id and saves it in the store
  (\<open>internal/store\<close>); its id is queued with the delivery worker
  (\<open>internal/delivery/worker.go\<close>), which hands it to the recipients that are on line and
  reschedules it for the others. Each user object has a bounded output channel that a goroutine
  of its own writes to the connection. Accounts are in \<open>internal/dao\<close>; the database (gorm and
  MySQL) and the cache (Redis) are services outside the process.

  \<^bold>\<open>Theories, in the order of the layers.\<close>

  \<^item> \<open>IM_Prelude\<close>: Go maps as association lists (\<open>gput\<close>, \<open>gdel\<close>, \<open>gmod\<close>), what the Go runtime
    chooses during a call (\<open>rt\<close>: clock readings and the iteration order of maps), signed 64-bit
    arithmetic. \<open>Go_Strings\<close>, \<open>Go_Json\<close>: the functions of the standard library in use, on
    strings of bytes. \<open>Texts\<close>: the texts the server sends.
  \<^item> \<open>Protocol\<close>: the wire message, the database rows, conversions and helpers
    (\<open>internal/protocol\<close>, \<open>storage/model.go\<close>, \<open>store/convert.go\<close>, \<open>store/helpers.go\<close>,
    \<open>utils/helpers.go\<close>). \<open>Json_Message\<close>: its JSON form in both directions.
  \<^item> \<open>Backends\<close>: database and cache as records of functions on unknown states, one field for each
    call the program makes, and the cache keys (\<open>cache/redis.go\<close>). \<open>Sample_Backend\<close>: a concrete
    one, for witnesses.
  \<^item> \<open>Mem_Store\<close>, \<open>Store_Delivery\<close>: the sixteen methods of \<open>InMemoryStore\<close>, in memory and in
    database mode (\<open>persistent\<close>). \<open>Store_Runs\<close>: every method as a sequence of elementary steps,
    and the invariant \<open>store_wf\<close>. \<open>Delivery_Ledger\<close>: the abstract delivery protocol (a ledger of
    states and attempts) and the refinement of it by the in-memory store. \<open>Store_Theorems\<close>,
    \<open>Store_Reports\<close>: numbering, look-up, acknowledgement, statistics, history. \<open>Store_Database\<close>: the
    laws MySQL and gorm are documented to keep, every method as a sequence of changes of the two
    tables (\<open>db_step\<close>), and what stays of them over restarts.
  \<^item> \<open>Store_Iface\<close>: the \<open>Store\<close> interface as a record of methods, and three locales stating what
    its clients rely on (\<open>client_store\<close> in every mode, \<open>indexed_store\<close> and \<open>ledger_store\<close> in memory
    mode), interpreted on \<open>InMemoryStore\<close>. \<open>Logic_Service\<close>: ids, idempotent acceptance,
    acknowledgements, for calls one after the other. \<open>Send_Threads\<close>: sends and system events of several
    goroutines whose store calls interleave (\<open>send_step\<close>). \<open>Delivery_Worker\<close>: the queue, also as a step relation of its critical
    sections, and the delivery goroutine.
  \<^item> \<open>Group_Manager\<close>: groups and roles, with the locale \<open>group_api\<close>. \<open>Conn_Security\<close>: black list
    and rate limit. \<open>Config\<close>: environment files and settings (\<open>utils/env.go\<close>, \<open>main.go\<close>).
    \<open>Conn_Input\<close>: \<open>readRawLine\<close> and the decoding of bytes. \<open>Dao\<close>: accounts and direct queries.
    \<open>Server\<close>: the online map, counters and the calls sessions make (\<open>api.go\<close>, \<open>id.go\<close>,
    \<open>broadcast.go\<close>, \<open>stats.go\<close>, \<open>accept.go\<close>, \<open>bootstrap.go\<close>, \<open>start.go\<close>).
  \<^item> \<open>Session\<close>: user objects (\<open>session.go\<close>) and accounts (\<open>auth.go\<close>) on the state \<open>sys\<close> of the
    whole process: the server, the user objects in order of connection, the logouts started with
    \<open>go u.Logout()\<close> and not yet run. \<open>Commands\<close>: the text commands (\<open>commands.go\<close>) and their
    dispatch (\<open>dispatch.go\<close>). \<open>Connections\<close>: the handler of a connection, and the process as a
    step relation (\<open>step\<close>, \<open>reachable\<close>) over events. \<open>Channel_Lock\<close>: \<open>SendMsg\<close> and \<open>Close\<close> at the
    granularity of their lock.
  \<^item> \<open>Process_Steps\<close>: what every event may do: to the store a sequence of store calls, account queries
    and cache writes (locale \<open>account_client\<close> for the queries), to the sessions only steps forward,
    to the queue turns, to the number of active connections.
    \<open>Lifetimes\<close>: processes one after the other on the same database, each ended by a crash or a stop,
    with the locales \<open>lasting\<close> (a relation that every step of a process keeps) and \<open>durable\<close> (one that
    restarts keep as well). \<open>Crash_Recovery\<close>: the laws of the database over lifetimes, and what a
    process finds that starts on the tables another one left. \<open>Resend\<close>: requests repeated over
    crashes. \<open>System_Events\<close>: system events in the database. \<open>Pending_Rows\<close>: memory and table of pending deliveries side by side. \<open>Sign_In\<close>: a
    line that signs its connection in, as queries on the accounts around the entry, and what it does for the messages that wait in the table. \<open>Turns\<close>: the order in which the
    queue is served (\<open>run\<close> counts the rounds of delivery), and who gets a message when its turn comes.
    \<open>History\<close>: the history of two users from the database. \<open>Name_Limits\<close>: names against the width
    of their columns.
  \<^item> \<open>Handlers\<close>: the two goroutines of each connection and their channel \<open>isLive\<close>, as a finer step
    relation (\<open>gstep\<close>) that implements the process. \<open>Startup\<close>: \<open>InitDB\<close>, \<open>AutoMigrate\<close>, \<open>initClient\<close>
    and \<open>main\<close> (\<open>storage/db.go\<close>, \<open>cache/redis.go\<close>, \<open>main.go\<close>).
  \<^item> \<open>Session_Inv\<close>: the invariant of the process, with the locale \<open>quiet_op\<close> for server calls that
    leave the online map alone, and \<open>served_store\<close> and \<open>kept_store\<close> for predicates on the store that
    the calls of the server keep. \<open>Logout_Props\<close>, \<open>Session_Props\<close>, \<open>Name_Props\<close>, \<open>Chat_Props\<close>:
    the properties of sessions and of messages between them.

  \<^bold>\<open>What the theorems show.\<close> The text before each theorem names its conditions; in short:

  \<^item> Of the store and the service: for calls one after the other, in both modes, acceptance once per client id and
    a repeated request answered with the earlier message; without a database the numbering of chats from one
    without gaps and the refinement of the delivery ledger; the back-off; the statistics. For
    sends in progress at the same time: different ids and different numbers in each chat, but not
    acceptance once.
  \<^item> Over a database that keeps its documented laws, and for restarts that find a cache without lists and a
    database that answers: an accepted message is found and its pending recipients are returned, and it is
    queued when at most 1024 rows, the capacity of the queue, are pending; a repeated request is answered with the
    first message; stored acknowledgements survive; a message whose attempts are exhausted is not listed
    for its recipient unless a list left in the cache still names it; a history is the newest
    rows in order.
  \<^item> Over a database that answers and without a cache, which is the default: the entries in memory hide no pending
    row, if at most 2000 rows were pending at the start; signing in queues what waits for the user, and a tick
    of the retry worker what is due, up to 500 rows each and given room in the queue; a queued message is
    served after as many rounds as its place in the queue says, to everybody who is on line, has it
    pending and has room in his channel.
  \<^item> Of the worker: the in-flight set is exact under every interleaving, and a round serves exactly the
    recipients the store returns and the addressee.
  \<^item> Of groups, admission, configuration and input: role rules, the rate limit, the range of the
    settings, framing of lines.
  \<^item> Of the process: its invariant in every reachable state, that the number of active
    connections is exact, that it always runs on a database, what a connection can do before login,
    that logouts are complete and come to an end, that no goroutine sends on a closed channel, that
    direct and group messages reach their addressees, and that the JSON written for a message
    is read back as that message.

  Several theorems state behaviour that is surprising: renaming takes over a name, lines after \<open>exit\<close>
  are obeyed, two concurrent logins or sends both succeed, the sender of a JSON message is not
  checked, plain text is delivered to nobody, the database keeps only the first system event, a
  numeric user name updates another account, owners can be demoted and kicked, acknowledged entries
  can become dead letters, a reader can wait for ever on \<open>isLive\<close>, settings of more than 9223372036 seconds
  can become negative durations, and text commands between users with long names are refused by a
  database in strict mode.

  \<^bold>\<open>Granularity.\<close> An operation of the group manager and of the rate limiter holds its mutex
  throughout and is one step. An operation of the store is one step as well. In memory mode it holds
  its mutex throughout, and \<open>NextSeq\<close> does in every mode. In database mode the source holds the mutex only while it reads
  or changes the maps and releases it around the queries of the database and the cache
  (\<open>SaveMessageWithRecipients\<close>, the look-ups and \<open>GetRecipients\<close>, \<open>ScheduleRetry\<close>, acknowledgements, the scans),
  so the parts of two such calls can interleave in the program and do not in the model. For example, between the commit of
  a message and its entry in the maps a login can read the new row of its user and put an
  entry for him alone into memory, so that for a moment the other recipients are not
  returned: \<open>pending_recipients_returned\<close> is about the states between calls.

  The queue of the worker and the output channel are also given at the granularity of their critical
  sections. \<open>ProcessSend\<close> and \<open>BroadcastSystemEvent\<close> take no lock over their store calls: \<open>Send_Threads\<close> has
  each call as a step. Elsewhere a command or a line of one
  connection is one event; where the source takes no lock between a check and the action, the model
  has the two parts as separate functions (\<open>send_check\<close> and \<open>send_commit\<close>, \<open>login_check\<close> and
  \<open>login_commit\<close>), and theorems are stated for both parts interleaved. The goroutine that writes
  the output of a session, heartbeats, started logouts and the worker run between events. In
  \<open>Connections\<close> the events of a connection come in any order; \<open>Handlers\<close> restricts them to what the
  handler, the reader and \<open>isLive\<close> allow.

  \<^bold>\<open>Bounds and fuel.\<close> \<open>parse_json\<close> gives the JSON parser twice the length of its input and one as
  fuel, and it is shown that more fuel never changes a result. All other loops are
  total functions. Sequence numbers, message counters and the id counter are 64-bit words that
  wrap; durations and times are 64-bit signed values with the wrap-around written out where the
  source multiplies; other counters, like \<open>Retry\<close>, are integers.

  \<^bold>\<open>Parameters.\<close> The database and cache records, the GB18030 decoder, bcrypt, the JSON form of a
  user row, the text of a JSON error, and the formatting of times and of one float (\<open>ext\<close>). Theorems
  hold for every value of these unless a hypothesis says otherwise.

  \<^bold>\<open>Not modelled.\<close> The network and the driver: what \<open>gorm.Open\<close> and the migration do, the ping of
  the Redis client and the listening socket, which are parameters of \<open>InitDB\<close>, \<open>initClient\<close> and
  \<open>main\<close>; log output; interface declarations and type aliases (\<open>internal/svcapi\<close>,
  \<open>server/iface.go\<close>, \<open>server/protocol.go\<close>). The \<open>Server\<close> field of a user object is never nil in this
  program, so the branches for nil are left out; and no line makes a reader panic, so its \<open>recover\<close>
  has no event.
\<close>

end
